(* ===== verification/Prelude.thy ===== *)
theory Prelude
  imports Main "HOL-Library.Word"
begin

text \<open>
  Shared vocabulary of the development: the machine types of the kernel, the pieces of the
  Rust core library that the sources use (slices, \<^verbatim>\<open>copy_from_slice\<close>,
  \<^verbatim>\<open>from_utf8\<close>, \<^verbatim>\<open>to_le_bytes\<close> and its relatives), the two loop
  shapes that recur in the sources (scanning a table for the first matching slot; filling or
  draining a bounded buffer), and the interface of a bounded first-in-first-out buffer that
  both \<^verbatim>\<open>RingBuf\<close> and \<^verbatim>\<open>Pipe\<close> implement.

  Indices and lengths (\<^verbatim>\<open>usize\<close>) are \<open>nat\<close>; where an operation can reach the
  64-bit limit the wrap-around, the saturation or the check is written out.  Data bytes are
  words of width 8; user and group identifiers, modes, process identifiers and program
  addresses keep their width.
\<close>

unbundle bit_operations_syntax

type_synonym u8 = "8 word"
type_synonym u16 = "16 word"
type_synonym u32 = "32 word"
type_synonym u64 = "64 word"
type_synonym bytes = "u8 list"

named_theorems wf_intros \<open>well-formedness is kept by the operations\<close>
named_theorems frame_simps \<open>components an operation leaves alone\<close>

section \<open>Tables: the first slot that matches\<close>

text \<open>The loop \<^verbatim>\<open>for i in lo..hi { if p(i) { return Some(i) } } None\<close>.\<close>

definition scan :: "(nat \<Rightarrow> bool) \<Rightarrow> nat \<Rightarrow> nat \<Rightarrow> nat option" where
  "scan P lo hi = List.find P [lo..<hi]"

text \<open>A fixed-size array is a list; \<^verbatim>\<open>&mut a[i]\<close> followed by field assignments is
  an update of the element at an index that the code has checked.\<close>

definition upd_nth :: "nat \<Rightarrow> ('a \<Rightarrow> 'a) \<Rightarrow> 'a list \<Rightarrow> 'a list" where
  "upd_nth i f xs = xs[i := f (xs ! i)]"

text \<open>\<^verbatim>\<open>dst[off..off + src.len()].copy_from_slice(src)\<close>, in range.\<close>

definition copy_into :: "'a list \<Rightarrow> nat \<Rightarrow> 'a list \<Rightarrow> 'a list" where
  "copy_into dst off src = take off dst @ src @ drop (off + length src) dst"

text \<open>The slice \<^verbatim>\<open>xs[lo..hi]\<close>, in range.\<close>

definition slice :: "nat \<Rightarrow> nat \<Rightarrow> 'a list \<Rightarrow> 'a list" where
  "slice lo hi xs = take (hi - lo) (drop lo xs)"

section \<open>Loops over a bounded buffer\<close>

text \<open>\<open>put_all\<close> is a \<^verbatim>\<open>for\<close> loop that stops (\<^verbatim>\<open>break\<close>) at the first
  element the buffer refuses and counts the accepted ones; \<open>get_upto\<close> is the loop over the
  slots of an output slice that stops when the buffer is empty.\<close>

fun put_all :: "('q \<Rightarrow> 'a \<Rightarrow> 'q option) \<Rightarrow> 'q \<Rightarrow> 'a list \<Rightarrow> 'q \<times> nat" where
  "put_all put q [] = (q, 0)"
| "put_all put q (x # xs) =
     (case put q x of
        None \<Rightarrow> (q, 0)
      | Some q' \<Rightarrow> (let (r, n) = put_all put q' xs in (r, Suc n)))"

fun get_upto :: "('q \<Rightarrow> ('a \<times> 'q) option) \<Rightarrow> 'q \<Rightarrow> nat \<Rightarrow> 'q \<times> 'a list" where
  "get_upto get q 0 = (q, [])"
| "get_upto get q (Suc n) =
     (case get q of
        None \<Rightarrow> (q, [])
      | Some (x, q') \<Rightarrow> (let (r, xs) = get_upto get q' n in (r, x # xs)))"

section \<open>Byte order\<close>

text \<open>\<^verbatim>\<open>to_le_bytes\<close>, \<^verbatim>\<open>to_be_bytes\<close> and their inverses for a word of
  \<open>n\<close> bytes.\<close>

definition le_bytes :: "nat \<Rightarrow> 'a::len word \<Rightarrow> bytes" where
  "le_bytes n w = map (\<lambda>i. ucast (drop_bit (8 * i) w)) [0..<n]"

definition be_bytes :: "nat \<Rightarrow> 'a::len word \<Rightarrow> bytes" where
  "be_bytes n w = rev (le_bytes n w)"

primrec from_le_bytes :: "bytes \<Rightarrow> 'a::len word" where
  "from_le_bytes [] = 0"
| "from_le_bytes (b # bs) = ucast b OR push_bit 8 (from_le_bytes bs)"

definition from_be_bytes :: "bytes \<Rightarrow> 'a::len word" where
  "from_be_bytes bs = from_le_bytes (rev bs)"

section \<open>UTF-8\<close>

text \<open>\<^verbatim>\<open>core::str::from_utf8\<close>: the well-formed byte sequences of Unicode
  (no overlong forms, no surrogates, nothing above U+10FFFF).\<close>

definition utf8_tail :: "u8 \<Rightarrow> bool" where
  "utf8_tail b \<longleftrightarrow> 0x80 \<le> b \<and> b \<le> 0xBF"

fun utf8_valid :: "bytes \<Rightarrow> bool" where
  "utf8_valid [] = True"
| "utf8_valid (b # bs) =
     (if b < 0x80 then utf8_valid bs
      else case bs of
        [] \<Rightarrow> False
      | c # cs \<Rightarrow>
          if 0xC2 \<le> b \<and> b \<le> 0xDF then utf8_tail c \<and> utf8_valid cs
          else case cs of
            [] \<Rightarrow> False
          | d # ds \<Rightarrow>
              if b = 0xE0 then 0xA0 \<le> c \<and> c \<le> 0xBF \<and> utf8_tail d \<and> utf8_valid ds
              else if b = 0xED then 0x80 \<le> c \<and> c \<le> 0x9F \<and> utf8_tail d \<and> utf8_valid ds
              else if 0xE1 \<le> b \<and> b \<le> 0xEF then utf8_tail c \<and> utf8_tail d \<and> utf8_valid ds
              else case ds of
                [] \<Rightarrow> False
              | e # es \<Rightarrow>
                  if b = 0xF0 then 0x90 \<le> c \<and> c \<le> 0xBF \<and> utf8_tail d \<and> utf8_tail e \<and> utf8_valid es
                  else if b = 0xF4 then 0x80 \<le> c \<and> c \<le> 0x8F \<and> utf8_tail d \<and> utf8_tail e \<and> utf8_valid es
                  else if 0xF1 \<le> b \<and> b \<le> 0xF3
                    then utf8_tail c \<and> utf8_tail d \<and> utf8_tail e \<and> utf8_valid es
                  else False)"

text \<open>A string literal of the sources as the bytes it stands for.\<close>

definition ascii :: "string \<Rightarrow> bytes" where
  "ascii s = map of_char s"

definition nl :: bytes where "nl = [0x0A]"

section \<open>Lemmas on tables and slices\<close>

lemma scan_Some:
  "scan P lo hi = Some i \<longleftrightarrow> lo \<le> i \<and> i < hi \<and> P i \<and> (\<forall>j. lo \<le> j \<longrightarrow> j < i \<longrightarrow> \<not> P j)"
  (is "?l \<longleftrightarrow> ?r")
proof
  assume ?l
  then obtain k where k: "k < length [lo..<hi]" "P ([lo..<hi] ! k)" "i = [lo..<hi] ! k"
    "\<forall>j<k. \<not> P ([lo..<hi] ! j)"
    unfolding scan_def by (auto simp: find_Some_iff)
  then have i: "i = lo + k" "k < hi - lo" by auto
  have "\<not> P j" if "lo \<le> j" "j < i" for j
  proof -
    have "j - lo < k" using that i by linarith
    moreover then have "[lo..<hi] ! (j - lo) = j" using i that by simp
    ultimately show ?thesis using k(4) by metis
  qed
  with i k show ?r by auto
next
  assume r: ?r
  show ?l unfolding scan_def find_Some_iff
    by (rule exI[of _ "i - lo"]) (use r in \<open>auto simp: less_diff_conv\<close>)
qed

lemma scan_None: "scan P lo hi = None \<longleftrightarrow> (\<forall>i. lo \<le> i \<longrightarrow> i < hi \<longrightarrow> \<not> P i)"
  by (auto simp: scan_def find_None_iff)

lemma scan_SomeD:
  assumes "scan P lo hi = Some i"
  shows "lo \<le> i" "i < hi" "P i"
  using assms by (auto simp: scan_Some)

lemma scan_exists: "lo \<le> i \<Longrightarrow> i < hi \<Longrightarrow> P i \<Longrightarrow> \<exists>j. scan P lo hi = Some j \<and> j \<le> i"
  by (metis not_le_imp_less not_Some_eq scan_None scan_Some)

lemma length_upd_nth [simp]: "length (upd_nth i f xs) = length xs"
  by (simp add: upd_nth_def)

lemma nth_upd_nth [simp]: "j < length xs \<Longrightarrow> upd_nth i f xs ! j = (if i = j then f (xs ! j) else xs ! j)"
  by (simp add: upd_nth_def nth_list_update)

lemma upd_nth_oob [simp]: "length xs \<le> i \<Longrightarrow> upd_nth i f xs = xs"
  by (simp add: upd_nth_def list_update_beyond)

lemma list_all_upd_nth:
  "list_all P xs \<Longrightarrow> (i < length xs \<Longrightarrow> P (f (xs ! i))) \<Longrightarrow> list_all P (upd_nth i f xs)"
  by (cases "i < length xs") (auto simp: list_all_length nth_list_update upd_nth_def)

lemma list_all_update: "list_all P xs \<Longrightarrow> P x \<Longrightarrow> list_all P (xs[i := x])"
  by (cases "i < length xs") (auto simp: list_all_length nth_list_update)

lemma length_copy_into [simp]:
  "off + length src \<le> length dst \<Longrightarrow> length (copy_into dst off src) = length dst"
  by (simp add: copy_into_def)

lemma copy_into_0 [simp]: "copy_into dst 0 src = src @ drop (length src) dst"
  by (simp add: copy_into_def)

lemma take_copy_into_prefix [simp]:
  "off \<le> length dst \<Longrightarrow> take off (copy_into dst off src) = take off dst"
  by (simp add: copy_into_def)

lemma take_copy_into [simp]:
  "off \<le> length dst \<Longrightarrow> take (off + length src) (copy_into dst off src) = take off dst @ src"
  by (simp add: copy_into_def)

lemma nth_copy_into:
  assumes "off + length src \<le> length dst" "i < length dst"
  shows "copy_into dst off src ! i =
    (if i < off then dst ! i else if i < off + length src then src ! (i - off) else dst ! i)"
  using assms by (auto simp: copy_into_def nth_append min_def)

lemma slice_copy_into [simp]:
  "off + length src \<le> length dst \<Longrightarrow> slice off (off + length src) (copy_into dst off src) = src"
  by (simp add: slice_def copy_into_def)

lemma length_slice [simp]: "hi \<le> length xs \<Longrightarrow> length (slice lo hi xs) = hi - lo"
  by (auto simp: slice_def min_def)

lemma slice_0 [simp]: "slice 0 n xs = take n xs"
  by (simp add: slice_def)

section \<open>The bounded buffer interface\<close>

text \<open>
  What a byte channel promises to its clients: \<open>put\<close> appends unless the buffer holds
  \<open>cap\<close> elements already, \<open>get\<close> removes from the front, nothing is lost or reordered.
\<close>

locale bounded_fifo =
  fixes put :: "'q \<Rightarrow> 'a \<Rightarrow> 'q option"
    and get :: "'q \<Rightarrow> ('a \<times> 'q) option"
    and contents :: "'q \<Rightarrow> 'a list"
    and cap :: "'q \<Rightarrow> nat"
    and invar :: "'q \<Rightarrow> bool"
  assumes put_full: "invar q \<Longrightarrow> length (contents q) = cap q \<Longrightarrow> put q x = None"
    and put_room: "invar q \<Longrightarrow> length (contents q) < cap q \<Longrightarrow>
      \<exists>q'. put q x = Some q' \<and> invar q' \<and> cap q' = cap q \<and> contents q' = contents q @ [x]"
    and get_empty: "invar q \<Longrightarrow> contents q = [] \<Longrightarrow> get q = None"
    and get_cons: "invar q \<Longrightarrow> contents q = x # xs \<Longrightarrow>
      \<exists>q'. get q = Some (x, q') \<and> invar q' \<and> cap q' = cap q \<and> contents q' = xs"
    and bounded: "invar q \<Longrightarrow> length (contents q) \<le> cap q"
begin

lemma put_all_spec:
  "invar q \<Longrightarrow>
   let n = min (length xs) (cap q - length (contents q)); r = put_all put q xs in
     snd r = n \<and> invar (fst r) \<and> cap (fst r) = cap q \<and> contents (fst r) = contents q @ take n xs"
proof (induction xs arbitrary: q)
  case Nil
  then show ?case by (simp add: Let_def)
next
  case (Cons x xs)
  show ?case
  proof (cases "length (contents q) < cap q")
    case True
    with Cons.prems obtain q' where q': "put q x = Some q'" "invar q'" "cap q' = cap q"
      "contents q' = contents q @ [x]"
      using put_room by blast
    from True have "cap q - length (contents q) = Suc (cap q - Suc (length (contents q)))" by simp
    with Cons.IH[OF q'(2)] q' True show ?thesis
      by (auto simp: Let_def split: prod.splits)
  next
    case False
    with Cons.prems bounded have "length (contents q) = cap q" by (simp add: order_antisym)
    with Cons.prems put_full show ?thesis by (simp add: Let_def)
  qed
qed

lemma get_upto_spec:
  "invar q \<Longrightarrow>
   let r = get_upto get q n in
     snd r = take n (contents q) \<and> invar (fst r) \<and> cap (fst r) = cap q
     \<and> contents (fst r) = drop n (contents q)"
proof (induction n arbitrary: q)
  case 0
  then show ?case by (simp add: Let_def)
next
  case (Suc n)
  show ?case
  proof (cases "contents q")
    case Nil
    with Suc.prems get_empty show ?thesis by (simp add: Let_def)
  next
    case (Cons x xs)
    with Suc.prems obtain q' where "get q = Some (x, q')" "invar q'" "cap q' = cap q" "contents q' = xs"
      using get_cons by blast
    with Suc.IH[of q'] Cons show ?thesis by (auto simp: Let_def split: prod.splits)
  qed
qed

text \<open>Bytes come out in the order in which they went in, across a full write and a read.\<close>

lemma transfer:
  assumes "invar q" "length (contents q) + length xs \<le> cap q"
  shows "snd (get_upto get (fst (put_all put q xs)) (length (contents q) + length xs)) = contents q @ xs"
  using put_all_spec[OF assms(1), of xs]
    get_upto_spec[of "fst (put_all put q xs)" "length (contents q) + length xs"] assms(2)
  by (simp add: Let_def min_absorb1 le_diff_conv2)

end

section \<open>Byte-order round trips\<close>

lemma length_le_bytes [simp]: "length (le_bytes n w) = n"
  by (simp add: le_bytes_def)

lemma length_be_bytes [simp]: "length (be_bytes n w) = n"
  by (simp add: be_bytes_def)

lemma bit_from_le_bytes:
  "bit (from_le_bytes bs :: 'a::len word) k \<longleftrightarrow>
     k < LENGTH('a) \<and> k div 8 < length bs \<and> bit (bs ! (k div 8)) (k mod 8)"
proof (induction bs arbitrary: k)
  case Nil
  then show ?case by simp
next
  case (Cons b bs)
  show ?case
  proof (cases "k < 8")
    case True
    then show ?thesis by (auto simp: bit_simps)
  next
    case False
    then obtain m where m: "k = m + 8" by (metis add.commute le_Suc_ex not_less)
    have "\<not> bit b k" using False by (auto dest: bit_imp_le_length)
    moreover have "(m + 8) div 8 = Suc (m div 8)" by simp
    ultimately show ?thesis using m Cons.IH[of m] by (auto simp: bit_simps)
  qed
qed

lemma le_bytes_nth: "i < n \<Longrightarrow> le_bytes n w ! i = ucast (drop_bit (8 * i) w)"
  by (simp add: le_bytes_def)

lemma from_le_bytes_le_bytes:
  assumes "LENGTH('a) = 8 * n"
  shows "from_le_bytes (le_bytes n w) = (w :: 'a::len word)"
proof (rule bit_word_eqI)
  fix k assume k: "k < LENGTH('a)"
  with assms have "k div 8 < n" by auto
  with k show "bit (from_le_bytes (le_bytes n w) :: 'a word) k = bit w k"
    by (simp add: bit_from_le_bytes le_bytes_nth bit_simps)
qed

lemma from_be_bytes_be_bytes:
  "LENGTH('a) = 8 * n \<Longrightarrow> from_be_bytes (be_bytes n w) = (w :: 'a::len word)"
  by (simp add: from_be_bytes_def be_bytes_def from_le_bytes_le_bytes)

lemmas bytes_roundtrip [simp] =
  from_le_bytes_le_bytes [where 'a = 16 and n = 2, simplified]
  from_le_bytes_le_bytes [where 'a = 32 and n = 4, simplified]
  from_le_bytes_le_bytes [where 'a = 64 and n = 8, simplified]
  from_be_bytes_be_bytes [where 'a = 16 and n = 2, simplified]
  from_be_bytes_be_bytes [where 'a = 32 and n = 4, simplified]
  from_be_bytes_be_bytes [where 'a = 64 and n = 8, simplified]

section \<open>Widening\<close>

lemma unat_ucast_up:
  fixes w :: "'a::len word"
  assumes "LENGTH('a) \<le> LENGTH('b::len)"
  shows "unat (ucast w :: 'b word) = unat w"
proof -
  have "unat w < 2 ^ LENGTH('a)" by (rule unsigned_less)
  also have "(2 :: nat) ^ LENGTH('a) \<le> 2 ^ LENGTH('b)" using assms by (rule power_increasing) simp
  finally show ?thesis by (simp add: unsigned_ucast_eq take_bit_nat_eq_self_iff)
qed

end
