(* ===== verification/RingBuf.thy ===== *)
theory RingBuf
  imports Prelude
begin

text \<open>
  The circular byte buffer of \<^verbatim>\<open>kernel/src/drivers/ring_buf.rs\<close>, which carries keyboard
  and serial input from the interrupt handlers to the readers, and the driver loops of
  \<^verbatim>\<open>kernel/src/drivers/serial/src/common.rs\<close> over it.  The const generic \<open>N\<close> is the
  length of the backing array.  One slot is always left free, so the buffer holds at most
  \<open>N - 1\<close> bytes; the last section interprets the bounded buffer interface on it.
\<close>

record ring_buf =
  rb_buf :: bytes
  rb_head :: nat
  rb_tail :: nat

definition ring_new :: "nat \<Rightarrow> ring_buf" where
  "ring_new N = \<lparr>rb_buf = replicate N 0, rb_head = 0, rb_tail = 0\<rparr>"

definition ring_push :: "ring_buf \<Rightarrow> u8 \<Rightarrow> ring_buf \<times> bool" where
  "ring_push r b =
     (let next = (rb_head r + 1) mod length (rb_buf r) in
      if next = rb_tail r then (r, False)
      else (r\<lparr>rb_buf := (rb_buf r)[rb_head r := b], rb_head := next\<rparr>, True))"

definition ring_pop :: "ring_buf \<Rightarrow> ring_buf \<times> u8 option" where
  "ring_pop r =
     (if rb_head r = rb_tail r then (r, None)
      else (r\<lparr>rb_tail := (rb_tail r + 1) mod length (rb_buf r)\<rparr>, Some (rb_buf r ! rb_tail r)))"

definition ring_is_empty :: "ring_buf \<Rightarrow> bool" where
  "ring_is_empty r \<longleftrightarrow> rb_head r = rb_tail r"

text \<open>The receive loop of the serial interrupt: the hardware delivers \<open>arrived\<close> bytes, each is
  pushed and the refused ones are dropped; the boolean says that a waiter has to be woken.\<close>

fun serial_handle_irq :: "ring_buf \<Rightarrow> bytes \<Rightarrow> ring_buf \<times> bool" where
  "serial_handle_irq r [] = (r, False)"
| "serial_handle_irq r (b # arrived) = (fst (serial_handle_irq (fst (ring_push r b)) arrived), True)"

text \<open>Output translation of \<^verbatim>\<open>print_str\<close> and \<^verbatim>\<open>print_bytes\<close>: the bytes handed to
  \<^verbatim>\<open>write_byte\<close>, a carriage return before every line feed.\<close>

fun serial_print_bytes :: "bytes \<Rightarrow> bytes" where
  "serial_print_bytes [] = []"
| "serial_print_bytes (b # s) = (if b = 0x0A then [0x0D, b] else [b]) @ serial_print_bytes s"

section \<open>Circular indices\<close>

text \<open>The bytes stored from index \<open>t\<close> up to, excluding, index \<open>h\<close>, around the array.\<close>

definition circ_len :: "nat \<Rightarrow> nat \<Rightarrow> nat \<Rightarrow> nat" where
  "circ_len N h t = (h + N - t) mod N"

definition circ_list :: "'a list \<Rightarrow> nat \<Rightarrow> nat \<Rightarrow> 'a list" where
  "circ_list buf h t = map (\<lambda>i. buf ! ((t + i) mod length buf)) [0..<circ_len (length buf) h t]"

lemma mod_lt_bound [simp]: "h < N \<Longrightarrow> k mod N < (N::nat)"
  by simp

lemma circ_len_less: "0 < N \<Longrightarrow> circ_len N h t < N"
  by (simp add: circ_len_def)

lemma circ_len_0_iff:
  assumes "h < N" "t < N"
  shows "circ_len N h t = 0 \<longleftrightarrow> h = t"
  using assms by (cases "t \<le> h") (auto simp: circ_len_def mod_if)

lemma circ_len_cases:
  assumes "h < N" "t < N"
  shows "circ_len N h t = (if t \<le> h then h - t else h + N - t)"
  using assms by (auto simp: circ_len_def mod_if)

lemma circ_add_cases:
  "t < N \<Longrightarrow> i < N \<Longrightarrow> (t + i) mod N = (if t + i < N then t + i else t + i - N)" for t :: nat
  by (simp add: mod_if)

lemma circ_head:
  assumes "h < N" "t < N"
  shows "(t + circ_len N h t) mod N = h"
  using assms by (auto simp: circ_len_cases mod_if)

lemma circ_len_step:
  assumes "h < N" "t < N"
  shows "(h + 1) mod N = t \<longleftrightarrow> circ_len N h t = N - 1"
    and "(h + 1) mod N \<noteq> t \<Longrightarrow> circ_len N ((h + 1) mod N) t = Suc (circ_len N h t)"
    and "h \<noteq> t \<Longrightarrow> Suc (circ_len N h ((t + 1) mod N)) = circ_len N h t"
  using assms by (auto simp: circ_len_cases mod_if split: if_splits)

lemma length_circ_list [simp]: "length (circ_list buf h t) = circ_len (length buf) h t"
  by (simp add: circ_list_def)

lemma circ_list_push:
  assumes h: "h < length buf" and t: "t < length buf" and n: "(h + 1) mod length buf \<noteq> t"
  shows "circ_list (buf[h := b]) ((h + 1) mod length buf) t = circ_list buf h t @ [b]"
proof -
  let ?N = "length buf" and ?k = "circ_len (length buf) h t"
  have "circ_len ?N ((h + 1) mod ?N) t = Suc ?k"
    using circ_len_step(2)[OF h t n] .
  moreover have "buf[h := b] ! ((t + i) mod ?N) = buf ! ((t + i) mod ?N)" if "i < ?k" for i
  proof -
    have "(t + i) mod ?N \<noteq> h"
      using that h t circ_add_cases[of t ?N i] by (auto simp: circ_len_cases split: if_splits)
    then show ?thesis by simp
  qed
  moreover have "buf[h := b] ! ((t + ?k) mod ?N) = b"
    using circ_head[OF h t] h by simp
  ultimately show ?thesis by (simp add: circ_list_def)
qed

lemma circ_list_pop:
  assumes h: "h < length buf" and t: "t < length buf" and n: "h \<noteq> t"
  shows "circ_list buf h t = buf ! t # circ_list buf h ((t + 1) mod length buf)"
proof -
  let ?N = "length buf" and ?k = "circ_len (length buf) h ((t + 1) mod length buf)"
  have len: "circ_len ?N h t = Suc ?k" using circ_len_step(3)[OF h t n] by simp
  have eq: "(t + Suc i) mod ?N = ((t + 1) mod ?N + i) mod ?N" for i
    by (simp add: mod_simps)
  have "map (\<lambda>i. buf ! ((t + i) mod ?N)) [0..<Suc ?k] =
      buf ! ((t + 0) mod ?N) # map (\<lambda>i. buf ! ((t + Suc i) mod ?N)) [0..<?k]"
    by (rule map_upt_Suc)
  also have "\<dots> = buf ! t # map (\<lambda>i. buf ! (((t + 1) mod ?N + i) mod ?N)) [0..<?k]"
    unfolding eq using t by simp
  finally show ?thesis by (simp only: circ_list_def len)
qed

lemma circ_list_self [simp]: "h < length buf \<Longrightarrow> circ_list buf h h = []"
  by (simp add: circ_list_def circ_len_0_iff)

section \<open>The ring buffer is a bounded first-in-first-out queue\<close>

definition ring_wf :: "ring_buf \<Rightarrow> bool" where
  "ring_wf r \<longleftrightarrow> rb_head r < length (rb_buf r) \<and> rb_tail r < length (rb_buf r)"

definition ring_contents :: "ring_buf \<Rightarrow> bytes" where
  "ring_contents r = circ_list (rb_buf r) (rb_head r) (rb_tail r)"

definition ring_cap :: "ring_buf \<Rightarrow> nat" where
  "ring_cap r = length (rb_buf r) - 1"

definition ring_put :: "ring_buf \<Rightarrow> u8 \<Rightarrow> ring_buf option" where
  "ring_put r b = (case ring_push r b of (r', ok) \<Rightarrow> if ok then Some r' else None)"

definition ring_get :: "ring_buf \<Rightarrow> (u8 \<times> ring_buf) option" where
  "ring_get r = (case ring_pop r of (r', x) \<Rightarrow> map_option (\<lambda>b. (b, r')) x)"

lemma ring_new_wf [wf_intros]: "0 < N \<Longrightarrow> ring_wf (ring_new N)"
  by (simp add: ring_wf_def ring_new_def)

lemma ring_push_wf [wf_intros]: "ring_wf r \<Longrightarrow> ring_wf (fst (ring_push r b))"
  by (simp add: ring_wf_def ring_push_def Let_def mod_lt_bound[of "rb_head r"])

lemma ring_pop_wf [wf_intros]: "ring_wf r \<Longrightarrow> ring_wf (fst (ring_pop r))"
  by (simp add: ring_wf_def ring_pop_def mod_lt_bound[of "rb_head r"])

lemma ring_push_spec:
  assumes "ring_wf r"
  shows "snd (ring_push r b) \<longleftrightarrow> length (ring_contents r) < ring_cap r"
    and "ring_contents (fst (ring_push r b)) =
      (if length (ring_contents r) < ring_cap r then ring_contents r @ [b] else ring_contents r)"
    and "ring_cap (fst (ring_push r b)) = ring_cap r"
proof -
  let ?N = "length (rb_buf r)"
  have h: "rb_head r < ?N" and t: "rb_tail r < ?N" using assms by (auto simp: ring_wf_def)
  have full: "(rb_head r + 1) mod ?N = rb_tail r \<longleftrightarrow> \<not> length (ring_contents r) < ring_cap r"
    using circ_len_step(1)[OF h t] circ_len_less[of ?N "rb_head r" "rb_tail r"] h
    unfolding ring_contents_def ring_cap_def length_circ_list by linarith
  then show "snd (ring_push r b) \<longleftrightarrow> length (ring_contents r) < ring_cap r"
    by (auto simp: ring_push_def Let_def)
  show "ring_contents (fst (ring_push r b)) =
      (if length (ring_contents r) < ring_cap r then ring_contents r @ [b] else ring_contents r)"
    using full circ_list_push[OF h t] by (auto simp: ring_push_def ring_contents_def Let_def)
  show "ring_cap (fst (ring_push r b)) = ring_cap r"
    by (simp add: ring_push_def ring_cap_def Let_def)
qed

lemma ring_pop_empty: "ring_wf r \<Longrightarrow> ring_contents r = [] \<Longrightarrow> ring_pop r = (r, None)"
  using circ_len_0_iff by (auto simp: ring_pop_def ring_contents_def ring_wf_def
      simp flip: length_0_conv)

lemma ring_pop_cons:
  assumes "ring_wf r" "ring_contents r = x # xs"
  shows "snd (ring_pop r) = Some x" "ring_contents (fst (ring_pop r)) = xs"
proof -
  have h: "rb_head r < length (rb_buf r)" and t: "rb_tail r < length (rb_buf r)"
    and n: "rb_head r \<noteq> rb_tail r"
    using assms by (auto simp: ring_wf_def ring_contents_def)
  with circ_list_pop[OF h t n] assms(2)
  show "snd (ring_pop r) = Some x" "ring_contents (fst (ring_pop r)) = xs"
    by (auto simp: ring_pop_def ring_contents_def)
qed

interpretation ring: bounded_fifo ring_put ring_get ring_contents ring_cap ring_wf
proof unfold_locales
  fix q :: ring_buf and x :: u8 assume q: "ring_wf q"
  show "length (ring_contents q) = ring_cap q \<Longrightarrow> ring_put q x = None"
    using ring_push_spec(1)[OF q, of x] by (auto simp: ring_put_def split: prod.splits)
  show "length (ring_contents q) < ring_cap q \<Longrightarrow>
      \<exists>q'. ring_put q x = Some q' \<and> ring_wf q' \<and> ring_cap q' = ring_cap q \<and> ring_contents q' = ring_contents q @ [x]"
    using ring_push_spec[OF q, of x] ring_push_wf[OF q, of x]
    by (auto simp: ring_put_def split: prod.splits)
  show "ring_contents q = [] \<Longrightarrow> ring_get q = None"
    using ring_pop_empty[OF q] by (simp add: ring_get_def)
next
  fix q :: ring_buf and x :: u8 and xs assume q: "ring_wf q" and c: "ring_contents q = x # xs"
  show "\<exists>q'. ring_get q = Some (x, q') \<and> ring_wf q' \<and> ring_cap q' = ring_cap q \<and> ring_contents q' = xs"
    using ring_pop_cons[OF q c] ring_pop_wf[OF q]
    by (auto simp: ring_get_def ring_cap_def ring_pop_def split: prod.splits if_splits)
next
  fix q :: ring_buf assume "ring_wf q"
  then show "length (ring_contents q) \<le> ring_cap q"
    using circ_len_less[of "length (rb_buf q)" "rb_head q" "rb_tail q"]
    unfolding ring_wf_def ring_contents_def ring_cap_def length_circ_list by linarith
qed

section \<open>The receive interrupt\<close>

lemma serial_handle_irq_full:
  "ring_wf r \<Longrightarrow> length (ring_contents r) = ring_cap r \<Longrightarrow>
     ring_wf (fst (serial_handle_irq r arrived)) \<and>
     ring_contents (fst (serial_handle_irq r arrived)) = ring_contents r"
proof (induction arrived arbitrary: r)
  case (Cons b arrived)
  then have "fst (ring_push r b) = r"
    using ring_push_spec(1)[of r b] by (auto simp: ring_push_def Let_def split: if_splits)
  with Cons show ?case by simp
qed simp

lemma serial_handle_irq_contents:
  "ring_wf r \<Longrightarrow>
     ring_wf (fst (serial_handle_irq r arrived)) \<and>
     ring_contents (fst (serial_handle_irq r arrived)) =
       ring_contents r @ take (ring_cap r - length (ring_contents r)) arrived"
proof (induction arrived arbitrary: r)
  case Nil
  then show ?case by simp
next
  case (Cons b arrived)
  show ?case
  proof (cases "length (ring_contents r) < ring_cap r")
    case True
    then have "ring_cap r - length (ring_contents r) = Suc (ring_cap r - Suc (length (ring_contents r)))"
      by simp
    with Cons.IH[OF ring_push_wf[OF Cons.prems, of b]] ring_push_spec[OF Cons.prems, of b] True
    show ?thesis by simp
  next
    case False
    then show ?thesis
      using serial_handle_irq_full[OF Cons.prems, of "b # arrived"] ring.bounded[OF Cons.prems]
      by simp
  qed
qed

section \<open>Properties\<close>

text \<open>C39: Bytes that arrive on the serial line while the buffer has room are read back in the order of
  their arrival, after the bytes already waiting; the bytes beyond the capacity are dropped.\<close>

theorem serial_rx_fifo:
  assumes "ring_wf r"
  shows "snd (get_upto ring_get (fst (serial_handle_irq r arrived)) n) =
    take n (ring_contents r @ take (ring_cap r - length (ring_contents r)) arrived)"
  using ring.get_upto_spec[of "fst (serial_handle_irq r arrived)" n] serial_handle_irq_contents[OF assms, of arrived]
  by (simp add: Let_def)

theorem serial_rx_fifo_witness:
  "ring_wf (ring_new 4) \<and> snd (get_upto ring_get (fst (serial_handle_irq (ring_new 4) [7, 8, 9, 10])) 5) = [7, 8, 9]"
  using serial_rx_fifo[of "ring_new 4" "[7, 8, 9, 10]" 5] ring_new_wf[of 4]
  by (simp add: ring_contents_def ring_cap_def ring_new_def)

end
