(* ===== verification/Ipc.thy ===== *)
theory Ipc
  imports RingBuf
begin

text \<open>
  \<^verbatim>\<open>kernel/src/ipc/mod.rs\<close>: the 4 KiB ring-buffer pipe and the pool of eight pipes with
  their reference counts.  The pool is the static \<^verbatim>\<open>POOL\<close>, passed explicitly.  A pipe
  index is the \<^verbatim>\<open>u8\<close> the file descriptors carry, read as a natural number; every
  operation on it checks it against the size of the pool, as the code does.  The lemmas
  show that a pipe is a bounded first-in-first-out byte queue (through the same interface as
  the ring buffer), that a slot is in use exactly while one of its ends is open, and what
  allocation and closing do.
\<close>

section \<open>The pipe\<close>

definition PIPE_BUF :: nat where
  "PIPE_BUF = 4096"

record pipe =
  p_buf :: bytes
  p_head :: nat
  p_tail :: nat

definition pipe_new :: pipe where
  "pipe_new = \<lparr>p_buf = replicate PIPE_BUF 0, p_head = 0, p_tail = 0\<rparr>"

definition pipe_is_empty :: "pipe \<Rightarrow> bool" where
  "pipe_is_empty p \<longleftrightarrow> p_head p = p_tail p"

definition pipe_is_full :: "pipe \<Rightarrow> bool" where
  "pipe_is_full p \<longleftrightarrow> (p_head p + 1) mod PIPE_BUF = p_tail p"

text \<open>One round of the loop of \<^verbatim>\<open>Pipe::write\<close> (\<open>None\<close> is its \<^verbatim>\<open>break\<close>) and of
  \<^verbatim>\<open>Pipe::read\<close>, then the loops.\<close>

definition pipe_put :: "pipe \<Rightarrow> u8 \<Rightarrow> pipe option" where
  "pipe_put p b =
     (let next = (p_head p + 1) mod PIPE_BUF in
      if next = p_tail p then None
      else Some (p\<lparr>p_buf := (p_buf p)[p_head p := b], p_head := next\<rparr>))"

definition pipe_get :: "pipe \<Rightarrow> (u8 \<times> pipe) option" where
  "pipe_get p =
     (if p_head p = p_tail p then None
      else Some (p_buf p ! p_tail p, p\<lparr>p_tail := (p_tail p + 1) mod PIPE_BUF\<rparr>))"

definition pipe_write_data :: "pipe \<Rightarrow> bytes \<Rightarrow> pipe \<times> nat" where
  "pipe_write_data p data = put_all pipe_put p data"

definition pipe_read_data :: "pipe \<Rightarrow> nat \<Rightarrow> pipe \<times> bytes" where
  "pipe_read_data p len = get_upto pipe_get p len"

section \<open>The pool\<close>

definition MAX_PIPES :: nat where
  "MAX_PIPES = 8"

record pipe_slot =
  ps_pipe :: pipe
  in_use :: bool
  read_count :: nat
  write_count :: nat

type_synonym pool = "pipe_slot list"

definition pipe_slot_new :: pipe_slot where
  "pipe_slot_new = \<lparr>ps_pipe = pipe_new, in_use = False, read_count = 0, write_count = 0\<rparr>"

definition pool_init :: pool where
  "pool_init = replicate MAX_PIPES pipe_slot_new"

definition alloc_pipe :: "pool \<Rightarrow> pool \<times> nat option" where
  "alloc_pipe pool =
     (case scan (\<lambda>i. \<not> in_use (pool ! i)) 0 (length pool) of
        Some i \<Rightarrow>
          (pool[i := (pool ! i)\<lparr>ps_pipe := pipe_new, in_use := True,
                                 read_count := 1, write_count := 1\<rparr>], Some i)
      | None \<Rightarrow> (pool, None))"

definition dup_pipe_read :: "nat \<Rightarrow> pool \<Rightarrow> pool" where
  "dup_pipe_read i pool =
     (if i < MAX_PIPES \<and> in_use (pool ! i) \<and> read_count (pool ! i) < 255
      then upd_nth i (\<lambda>s. s\<lparr>read_count := read_count s + 1\<rparr>) pool
      else pool)"

definition dup_pipe_write :: "nat \<Rightarrow> pool \<Rightarrow> pool" where
  "dup_pipe_write i pool =
     (if i < MAX_PIPES \<and> in_use (pool ! i) \<and> write_count (pool ! i) < 255
      then upd_nth i (\<lambda>s. s\<lparr>write_count := write_count s + 1\<rparr>) pool
      else pool)"

text \<open>The last two lines of both close operations: the slot is released when neither end is
  open any more.\<close>

definition release_slot :: "pipe_slot \<Rightarrow> pipe_slot" where
  "release_slot s = (if read_count s = 0 \<and> write_count s = 0 then s\<lparr>in_use := False\<rparr> else s)"

definition close_pipe_read :: "nat \<Rightarrow> pool \<Rightarrow> pool" where
  "close_pipe_read i pool =
     (if i < MAX_PIPES \<and> in_use (pool ! i)
      then upd_nth i (\<lambda>s. release_slot
             (if read_count s > 0 then s\<lparr>read_count := read_count s - 1\<rparr> else s)) pool
      else pool)"

definition close_pipe_write :: "nat \<Rightarrow> pool \<Rightarrow> pool" where
  "close_pipe_write i pool =
     (if i < MAX_PIPES \<and> in_use (pool ! i)
      then upd_nth i (\<lambda>s. release_slot
             (if write_count s > 0 then s\<lparr>write_count := write_count s - 1\<rparr> else s)) pool
      else pool)"

definition pipe_write_open :: "nat \<Rightarrow> pool \<Rightarrow> bool" where
  "pipe_write_open i pool \<longleftrightarrow> i < MAX_PIPES \<and> write_count (pool ! i) > 0"

definition pipe_read_open :: "nat \<Rightarrow> pool \<Rightarrow> bool" where
  "pipe_read_open i pool \<longleftrightarrow> i < MAX_PIPES \<and> read_count (pool ! i) > 0"

definition pipe_write :: "nat \<Rightarrow> bytes \<Rightarrow> pool \<Rightarrow> pool \<times> nat" where
  "pipe_write i data pool =
     (if i \<ge> MAX_PIPES \<or> \<not> in_use (pool ! i) then (pool, 0)
      else let (p, n) = pipe_write_data (ps_pipe (pool ! i)) data in
        (upd_nth i (\<lambda>s. s\<lparr>ps_pipe := p\<rparr>) pool, n))"

definition pipe_read :: "nat \<Rightarrow> nat \<Rightarrow> pool \<Rightarrow> pool \<times> bytes" where
  "pipe_read i len pool =
     (if i \<ge> MAX_PIPES \<or> \<not> in_use (pool ! i) then (pool, [])
      else let (p, out) = pipe_read_data (ps_pipe (pool ! i)) len in
        (upd_nth i (\<lambda>s. s\<lparr>ps_pipe := p\<rparr>) pool, out))"

definition pipe_has_data :: "nat \<Rightarrow> pool \<Rightarrow> bool" where
  "pipe_has_data i pool \<longleftrightarrow> i < MAX_PIPES \<and> \<not> pipe_is_empty (ps_pipe (pool ! i))"

section \<open>A pipe is a bounded byte queue\<close>

definition pipe_wf :: "pipe \<Rightarrow> bool" where
  "pipe_wf p \<longleftrightarrow> length (p_buf p) = PIPE_BUF \<and> p_head p < PIPE_BUF \<and> p_tail p < PIPE_BUF"

definition pipe_contents :: "pipe \<Rightarrow> bytes" where
  "pipe_contents p = circ_list (p_buf p) (p_head p) (p_tail p)"

lemma PIPE_BUF_pos [simp]: "0 < PIPE_BUF"
  by (simp add: PIPE_BUF_def)

lemma pipe_new_wf [wf_intros, simp]: "pipe_wf pipe_new"
  by (simp add: pipe_wf_def pipe_new_def)

lemma pipe_contents_new [simp]: "pipe_contents pipe_new = []"
  by (simp add: pipe_contents_def pipe_new_def)

lemma length_pipe_contents:
  "pipe_wf p \<Longrightarrow> length (pipe_contents p) = circ_len PIPE_BUF (p_head p) (p_tail p)"
  by (simp add: pipe_contents_def pipe_wf_def)

lemma pipe_is_empty_iff: "pipe_wf p \<Longrightarrow> pipe_is_empty p \<longleftrightarrow> pipe_contents p = []"
  using circ_len_0_iff[of "p_head p" PIPE_BUF "p_tail p"]
  by (simp add: pipe_is_empty_def pipe_wf_def length_pipe_contents flip: length_0_conv)

lemma pipe_is_full_iff: "pipe_wf p \<Longrightarrow> pipe_is_full p \<longleftrightarrow> length (pipe_contents p) = PIPE_BUF - 1"
  using circ_len_step(1)[of "p_head p" PIPE_BUF "p_tail p"]
  by (simp add: pipe_is_full_def pipe_wf_def length_pipe_contents)

lemma pipe_put_spec:
  assumes "pipe_wf p"
  shows "pipe_put p b = None \<longleftrightarrow> length (pipe_contents p) = PIPE_BUF - 1"
    and "pipe_put p b = Some p' \<Longrightarrow> pipe_wf p' \<and> pipe_contents p' = pipe_contents p @ [b]"
proof -
  show "pipe_put p b = None \<longleftrightarrow> length (pipe_contents p) = PIPE_BUF - 1"
    using pipe_is_full_iff[OF assms] by (simp add: pipe_put_def pipe_is_full_def Let_def)
  show "pipe_wf p' \<and> pipe_contents p' = pipe_contents p @ [b]" if "pipe_put p b = Some p'"
    using that assms circ_list_push[of "p_head p" "p_buf p" "p_tail p" b]
    by (auto simp: pipe_put_def pipe_wf_def pipe_contents_def Let_def split: if_splits)
qed

lemma pipe_get_cons:
  assumes "pipe_wf p" "pipe_contents p = x # xs"
  shows "\<exists>p'. pipe_get p = Some (x, p') \<and> pipe_wf p' \<and> pipe_contents p' = xs"
proof -
  have "p_head p \<noteq> p_tail p" using assms pipe_is_empty_iff by (auto simp: pipe_is_empty_def)
  with assms circ_list_pop[of "p_head p" "p_buf p" "p_tail p"] show ?thesis
    by (auto simp: pipe_get_def pipe_wf_def pipe_contents_def)
qed

interpretation pipe: bounded_fifo pipe_put pipe_get pipe_contents "\<lambda>_. PIPE_BUF - 1" pipe_wf
proof unfold_locales
  fix q :: pipe and x :: u8 assume q: "pipe_wf q"
  show "length (pipe_contents q) = PIPE_BUF - 1 \<Longrightarrow> pipe_put q x = None"
    using pipe_put_spec(1)[OF q] by simp
  show "length (pipe_contents q) < PIPE_BUF - 1 \<Longrightarrow> \<exists>q'. pipe_put q x = Some q' \<and> pipe_wf q'
      \<and> PIPE_BUF - 1 = PIPE_BUF - 1 \<and> pipe_contents q' = pipe_contents q @ [x]"
    using pipe_put_spec[OF q, of x] by (cases "pipe_put q x") auto
  show "pipe_contents q = [] \<Longrightarrow> pipe_get q = None"
    using pipe_is_empty_iff[OF q] by (simp add: pipe_get_def pipe_is_empty_def)
next
  fix q :: pipe and x :: u8 and xs assume "pipe_wf q" "pipe_contents q = x # xs"
  then show "\<exists>q'. pipe_get q = Some (x, q') \<and> pipe_wf q' \<and> PIPE_BUF - 1 = PIPE_BUF - 1 \<and> pipe_contents q' = xs"
    using pipe_get_cons by simp
next
  fix q :: pipe assume "pipe_wf q"
  then show "length (pipe_contents q) \<le> PIPE_BUF - 1"
    using circ_len_less[of PIPE_BUF "p_head q" "p_tail q"]
    by (simp add: length_pipe_contents)
qed

section \<open>The pool invariant\<close>

text \<open>A slot is in use exactly while one of its ends is open, and the counters fit the
  \<^verbatim>\<open>u8\<close> they are stored in.\<close>

definition slot_wf :: "pipe_slot \<Rightarrow> bool" where
  "slot_wf s \<longleftrightarrow> pipe_wf (ps_pipe s) \<and> (in_use s \<longleftrightarrow> 0 < read_count s \<or> 0 < write_count s)
     \<and> read_count s \<le> 255 \<and> write_count s \<le> 255"

definition pool_wf :: "pool \<Rightarrow> bool" where
  "pool_wf pool \<longleftrightarrow> length pool = MAX_PIPES \<and> list_all slot_wf pool"

abbreviation slot_contents :: "pool \<Rightarrow> nat \<Rightarrow> bytes" where
  "slot_contents pool i \<equiv> pipe_contents (ps_pipe (pool ! i))"

lemma pool_wfD:
  assumes "pool_wf pool"
  shows "length pool = MAX_PIPES" and "i < MAX_PIPES \<Longrightarrow> slot_wf (pool ! i)"
    and "i < MAX_PIPES \<Longrightarrow> pipe_wf (ps_pipe (pool ! i))"
  using assms by (auto simp: pool_wf_def list_all_length slot_wf_def)

lemma pool_init_wf [wf_intros, simp]: "pool_wf pool_init"
  by (simp add: pool_wf_def pool_init_def slot_wf_def pipe_slot_new_def list_all_length)

lemma upd_nth_pool_wf:
  "pool_wf pool \<Longrightarrow> (i < MAX_PIPES \<Longrightarrow> slot_wf (pool ! i) \<Longrightarrow> slot_wf (f (pool ! i))) \<Longrightarrow> pool_wf (upd_nth i f pool)"
  by (auto simp: pool_wf_def list_all_length intro: list_all_upd_nth)

lemma release_slot_simps [simp]:
  "ps_pipe (release_slot s) = ps_pipe s" "read_count (release_slot s) = read_count s"
  "write_count (release_slot s) = write_count s"
  "in_use (release_slot s) \<longleftrightarrow> in_use s \<and> (0 < read_count s \<or> 0 < write_count s)"
  by (auto simp: release_slot_def)

lemma dup_pipe_read_wf [wf_intros]: "pool_wf pool \<Longrightarrow> pool_wf (dup_pipe_read i pool)"
  unfolding dup_pipe_read_def by (auto intro!: upd_nth_pool_wf simp: slot_wf_def)

lemma dup_pipe_write_wf [wf_intros]: "pool_wf pool \<Longrightarrow> pool_wf (dup_pipe_write i pool)"
  unfolding dup_pipe_write_def by (auto intro!: upd_nth_pool_wf simp: slot_wf_def)

lemma close_pipe_read_wf [wf_intros]: "pool_wf pool \<Longrightarrow> pool_wf (close_pipe_read i pool)"
  unfolding close_pipe_read_def by (auto intro!: upd_nth_pool_wf simp: slot_wf_def)

lemma close_pipe_write_wf [wf_intros]: "pool_wf pool \<Longrightarrow> pool_wf (close_pipe_write i pool)"
  unfolding close_pipe_write_def by (auto intro!: upd_nth_pool_wf simp: slot_wf_def)

lemma alloc_pipe_wf [wf_intros]: "pool_wf pool \<Longrightarrow> pool_wf (fst (alloc_pipe pool))"
  unfolding alloc_pipe_def
  by (auto simp: pool_wf_def slot_wf_def intro!: list_all_update split: option.splits)

lemma pipe_write_wf [wf_intros]: "pool_wf pool \<Longrightarrow> pool_wf (fst (pipe_write i data pool))"
  using pipe.put_all_spec[of "ps_pipe (pool ! i)" data]
  unfolding pipe_write_def pipe_write_data_def
  by (auto intro!: upd_nth_pool_wf simp: slot_wf_def Let_def split: prod.splits)

lemma pipe_read_wf [wf_intros]: "pool_wf pool \<Longrightarrow> pool_wf (fst (pipe_read i len pool))"
  using pipe.get_upto_spec[of "ps_pipe (pool ! i)" len]
  unfolding pipe_read_def pipe_read_data_def
  by (auto intro!: upd_nth_pool_wf simp: slot_wf_def Let_def split: prod.splits)

section \<open>What the operations do\<close>

lemma pipe_write_effect:
  fixes data :: bytes
  assumes "pool_wf pool" "i < MAX_PIPES" "in_use (pool ! i)"
  defines "n \<equiv> min (length data) (PIPE_BUF - 1 - length (slot_contents pool i))"
  shows "snd (pipe_write i data pool) = n"
    and "slot_contents (fst (pipe_write i data pool)) i = slot_contents pool i @ take n data"
  using pipe.put_all_spec[OF pool_wfD(3)[OF assms(1,2)], of data] assms pool_wfD(1)[OF assms(1)]
  by (auto simp: pipe_write_def pipe_write_data_def Let_def split: prod.splits)

lemma pipe_read_effect:
  assumes "pool_wf pool" "i < MAX_PIPES" "in_use (pool ! i)"
  shows "snd (pipe_read i len pool) = take len (slot_contents pool i)"
    and "slot_contents (fst (pipe_read i len pool)) i = drop len (slot_contents pool i)"
  using pipe.get_upto_spec[OF pool_wfD(3)[OF assms(1,2)], of len] assms pool_wfD(1)[OF assms(1)]
  by (auto simp: pipe_read_def pipe_read_data_def Let_def split: prod.splits)

lemma pipe_io_frame [frame_simps]:
  assumes "j < length pool"
  shows "j \<noteq> i \<Longrightarrow> fst (pipe_write i data pool) ! j = pool ! j"
    and "j \<noteq> i \<Longrightarrow> fst (pipe_read i len pool) ! j = pool ! j"
    and "in_use (fst (pipe_write i data pool) ! j) = in_use (pool ! j)"
    and "in_use (fst (pipe_read i len pool) ! j) = in_use (pool ! j)"
    and "read_count (fst (pipe_write i data pool) ! j) = read_count (pool ! j)"
    and "write_count (fst (pipe_write i data pool) ! j) = write_count (pool ! j)"
    and "read_count (fst (pipe_read i len pool) ! j) = read_count (pool ! j)"
    and "write_count (fst (pipe_read i len pool) ! j) = write_count (pool ! j)"
  using assms by (auto simp: pipe_write_def pipe_read_def Let_def split: prod.splits)

lemma alloc_pipe_Some:
  assumes "pool_wf pool" "alloc_pipe pool = (pool', Some i)"
  shows "i < MAX_PIPES" "\<not> in_use (pool ! i)" "in_use (pool' ! i)"
    "slot_contents pool' i = []" "read_count (pool' ! i) = 1" "write_count (pool' ! i) = 1"
    "\<And>j. j \<noteq> i \<Longrightarrow> pool' ! j = pool ! j" "\<And>j. j < i \<Longrightarrow> in_use (pool ! j)"
  using assms pool_wfD(1)[OF assms(1)]
  by (auto simp: alloc_pipe_def scan_Some split: option.splits)

lemma alloc_pipe_None:
  assumes "pool_wf pool"
  shows "snd (alloc_pipe pool) = None \<longleftrightarrow> (\<forall>i < MAX_PIPES. in_use (pool ! i))"
  using pool_wfD(1)[OF assms]
  by (auto simp: alloc_pipe_def scan_None split: option.splits dest: scan_SomeD)

lemma close_pipe_counts:
  assumes "pool_wf pool" "i < MAX_PIPES" "j < MAX_PIPES"
  shows "read_count (close_pipe_read i pool ! j) = (if i = j then read_count (pool ! j) - 1 else read_count (pool ! j))"
    and "write_count (close_pipe_read i pool ! j) = write_count (pool ! j)"
    and "write_count (close_pipe_write i pool ! j) = (if i = j then write_count (pool ! j) - 1 else write_count (pool ! j))"
    and "read_count (close_pipe_write i pool ! j) = read_count (pool ! j)"
  using pool_wfD(1)[OF assms(1)] pool_wfD(2)[OF assms(1) assms(2)] assms(2,3)
  by (auto simp: close_pipe_read_def close_pipe_write_def slot_wf_def)

lemma dup_pipe_counts:
  assumes "pool_wf pool" "i < MAX_PIPES" "j < MAX_PIPES"
  shows "0 < read_count (pool ! i) \<Longrightarrow> read_count (pool ! i) < 255 \<Longrightarrow>
      read_count (dup_pipe_read i pool ! j) = (if i = j then read_count (pool ! j) + 1 else read_count (pool ! j))"
    and "write_count (dup_pipe_read i pool ! j) = write_count (pool ! j)"
    and "0 < write_count (pool ! i) \<Longrightarrow> write_count (pool ! i) < 255 \<Longrightarrow>
      write_count (dup_pipe_write i pool ! j) = (if i = j then write_count (pool ! j) + 1 else write_count (pool ! j))"
    and "read_count (dup_pipe_write i pool ! j) = read_count (pool ! j)"
  using pool_wfD(1)[OF assms(1)] pool_wfD(2)[OF assms(1) assms(2)] assms(2,3)
  by (auto simp: dup_pipe_read_def dup_pipe_write_def slot_wf_def)

section \<open>Histories of one pipe\<close>

text \<open>A sequence of \<^verbatim>\<open>pipe_write\<close> and \<^verbatim>\<open>pipe_read\<close> calls on one pipe, in any interleaving of its
  users, with the bytes accepted and the bytes handed out.\<close>

datatype pipe_op = PWrite bytes | PRead nat

fun pipe_history :: "nat \<Rightarrow> pipe_op list \<Rightarrow> pool \<Rightarrow> pool \<times> bytes \<times> bytes" where
  "pipe_history i [] pool = (pool, [], [])"
| "pipe_history i (PWrite data # ops) pool =
     (case pipe_write i data pool of
        (p1, n) \<Rightarrow> (case pipe_history i ops p1 of (p2, acc, got) \<Rightarrow> (p2, take n data @ acc, got)))"
| "pipe_history i (PRead len # ops) pool =
     (case pipe_read i len pool of
        (p1, bs) \<Rightarrow> (case pipe_history i ops p1 of (p2, acc, got) \<Rightarrow> (p2, acc, bs @ got)))"

lemma pipe_history_balance:
  assumes "pool_wf pool" "i < MAX_PIPES" "in_use (pool ! i)" "pipe_history i ops pool = (pool', acc, got)"
  shows "slot_contents pool i @ acc = got @ slot_contents pool' i"
  using assms
proof (induction ops arbitrary: pool pool' acc got)
  case (Cons op ops)
  note len = pool_wfD(1)[OF Cons.prems(1)]
  show ?case
  proof (cases op)
    case (PWrite data)
    obtain p1 n where w: "pipe_write i data pool = (p1, n)" by fastforce
    obtain p2 acc2 got2 where h: "pipe_history i ops p1 = (p2, acc2, got2)" by (cases "pipe_history i ops p1") auto
    have "pool_wf p1" "in_use (p1 ! i)"
      using pipe_write_wf[OF Cons.prems(1), of i data] pipe_io_frame(3)[of i pool i data] w Cons.prems len by auto
    from Cons.IH[OF this(1) Cons.prems(2) this(2) h] show ?thesis
      using pipe_write_effect[OF Cons.prems(1-3), of data] w h Cons.prems(4) PWrite by auto
  next
    case (PRead m)
    obtain p1 bs where r: "pipe_read i m pool = (p1, bs)" by fastforce
    obtain p2 acc2 got2 where h: "pipe_history i ops p1 = (p2, acc2, got2)" by (cases "pipe_history i ops p1") auto
    have "pool_wf p1" "in_use (p1 ! i)"
      using pipe_read_wf[OF Cons.prems(1), of i m] pipe_io_frame(4)[of i pool i m] r Cons.prems len by auto
    from Cons.IH[OF this(1) Cons.prems(2) this(2) h]
    have "take m (slot_contents pool i) @ drop m (slot_contents pool i) @ acc2
        = take m (slot_contents pool i) @ got2 @ slot_contents p2 i"
      using pipe_read_effect[OF Cons.prems(1-3), of m] r by simp
    then show ?thesis
      using pipe_read_effect[OF Cons.prems(1-3), of m] r h Cons.prems(4) PRead
      by (simp only: append_assoc[symmetric] append_take_drop_id) auto
  qed
qed simp

section \<open>Properties\<close>

text \<open>C26: Over any interleaving of writes and reads on an allocated pipe, the bytes that were waiting
  followed by the bytes accepted from the writers are exactly the bytes handed to the readers
  followed by the bytes still waiting: nothing is lost, duplicated or reordered.\<close>

theorem pipe_fifo:
  assumes "pool_wf pool" "i < MAX_PIPES" "in_use (pool ! i)" "pipe_history i ops pool = (pool', acc, got)"
  shows "slot_contents pool i @ acc = got @ slot_contents pool' i"
  using assms by (rule pipe_history_balance)

theorem pipe_fifo_witness:
  "\<exists>pool' acc got. pipe_history 0 [PWrite [1, 2, 3], PRead 2, PWrite [4], PRead 9] (fst (alloc_pipe pool_init)) = (pool', acc, got)
     \<and> acc = got @ slot_contents pool' 0"
proof -
  have a: "alloc_pipe pool_init = (fst (alloc_pipe pool_init), Some 0)"
    by (simp add: alloc_pipe_def pool_init_def pipe_slot_new_def MAX_PIPES_def scan_def upt_rec numeral_eq_Suc)
  obtain pool' acc got where h:
    "pipe_history 0 [PWrite [1, 2, 3], PRead 2, PWrite [4], PRead 9] (fst (alloc_pipe pool_init)) = (pool', acc, got)"
    by (cases "pipe_history 0 [PWrite [1, 2, 3], PRead 2, PWrite [4], PRead 9] (fst (alloc_pipe pool_init))") auto
  note A = alloc_pipe_Some[OF pool_init_wf a]
  from pipe_fifo[OF alloc_pipe_wf[OF pool_init_wf] A(1,3) h] A(4) h show ?thesis by simp
qed

end
