(* ===== verification/RamFs.thy ===== *)
theory RamFs
  imports Prelude
begin

text \<open>
  \<^verbatim>\<open>kernel/src/vfs/ramfs.rs\<close>: the in-memory file system, 64 inodes with fixed name and data
  arrays.  Paths are the bytes of the Rust string slices.  An inode keeps its whole arrays
  (\<^verbatim>\<open>name\<close>, \<^verbatim>\<open>data\<close>) beside the lengths that say which prefix is meaningful, because the
  code never clears the rest.  The octal modes 644, 755 and 777 of the sources are the words
  \<open>0x1A4\<close>, \<open>0x1ED\<close> and \<open>0x1FF\<close>.  Every operation returns the new file system and the code's
  boolean or option.
\<close>

section \<open>Inodes\<close>

definition MAX_INODES :: nat where "MAX_INODES = 64"
definition MAX_NAME :: nat where "MAX_NAME = 64"
definition MAX_DATA :: nat where "MAX_DATA = 4096"

datatype inode_kind = File | Dir

record inode =
  i_used :: bool
  i_kind :: inode_kind
  i_name :: bytes
  i_name_len :: nat
  i_parent :: nat
  i_uid :: u16
  i_gid :: u16
  i_mode :: u16
  i_data :: bytes
  i_size :: nat

type_synonym ramfs = "inode list"

definition inode_empty :: inode where
  "inode_empty =
     \<lparr>i_used = False, i_kind = File, i_name = replicate MAX_NAME 0, i_name_len = 0,
      i_parent = 0, i_uid = 0, i_gid = 0, i_mode = 0x1A4,
      i_data = replicate MAX_DATA 0, i_size = 0\<rparr>"

definition set_name :: "bytes \<Rightarrow> inode \<Rightarrow> inode" where
  "set_name b n =
     (let k = min (length b) MAX_NAME
      in n\<lparr>i_name := copy_into (i_name n) 0 (take k b), i_name_len := k\<rparr>)"

definition name_eq :: "inode \<Rightarrow> bytes \<Rightarrow> bool" where
  "name_eq n b \<longleftrightarrow> i_name_len n = length b \<and> take (i_name_len n) (i_name n) = b"

definition ramfs_new :: ramfs where
  "ramfs_new = replicate MAX_INODES inode_empty"

definition init_root :: "ramfs \<Rightarrow> ramfs" where
  "init_root fs =
     upd_nth 0 (\<lambda>r. r\<lparr>i_used := True, i_kind := Dir, i_name := (i_name r)[0 := 0x2F], i_name_len := 1,
                      i_parent := 0, i_uid := 0, i_gid := 0, i_mode := 0x1ED\<rparr>) fs"

definition ramfs_alloc :: "ramfs \<Rightarrow> ramfs \<times> nat option" where
  "ramfs_alloc fs =
     (case scan (\<lambda>i. \<not> i_used (fs ! i)) 1 MAX_INODES of
        Some i \<Rightarrow> (fs[i := inode_empty\<lparr>i_used := True\<rparr>], Some i)
      | None \<Rightarrow> (fs, None))"

section \<open>Paths\<close>

definition slash :: u8 where "slash = 0x2F"
definition dot :: bytes where "dot = [0x2E]"
definition dotdot :: bytes where "dotdot = [0x2E, 0x2E]"

text \<open>\<^verbatim>\<open>str::split('/')\<close>.\<close>

fun split_slash :: "bytes \<Rightarrow> bytes list" where
  "split_slash [] = [[]]"
| "split_slash (c # cs) =
     (if c = slash then [] # split_slash cs
      else case split_slash cs of p # ps \<Rightarrow> (c # p) # ps | [] \<Rightarrow> [[c]])"

definition trim_start_slash :: "bytes \<Rightarrow> bytes" where
  "trim_start_slash p = dropWhile (\<lambda>c. c = slash) p"

definition trim_end_slash :: "bytes \<Rightarrow> bytes" where
  "trim_end_slash p = rev (dropWhile (\<lambda>c. c = slash) (rev p))"

definition lookup_in :: "ramfs \<Rightarrow> nat \<Rightarrow> bytes \<Rightarrow> nat option" where
  "lookup_in fs parent name =
     (if name = dot then Some parent
      else if name = dotdot then Some (i_parent (fs ! parent))
      else scan (\<lambda>i. i_used (fs ! i) \<and> i_parent (fs ! i) = parent \<and> i \<noteq> parent \<and> name_eq (fs ! i) name)
             0 MAX_INODES)"

text \<open>The loop of \<^verbatim>\<open>resolve\<close> over the components; \<open>None\<close> is its \<^verbatim>\<open>?\<close>.\<close>

fun resolve_parts :: "ramfs \<Rightarrow> nat \<Rightarrow> bytes list \<Rightarrow> nat option" where
  "resolve_parts fs cur [] = Some cur"
| "resolve_parts fs cur (part # parts) =
     (if part = [] \<or> part = dot then resolve_parts fs cur parts
      else case lookup_in fs cur part of
             None \<Rightarrow> None
           | Some cur' \<Rightarrow> resolve_parts fs cur' parts)"

definition resolve :: "ramfs \<Rightarrow> bytes \<Rightarrow> nat \<Rightarrow> nat option" where
  "resolve fs path cwd =
     (let cur = (if path \<noteq> [] \<and> hd path = slash then 0 else cwd);
          stripped = trim_start_slash path
      in if stripped = [] then Some cur else resolve_parts fs cur (split_slash stripped))"

text \<open>\<^verbatim>\<open>rfind('/')\<close> and the two slices around it.\<close>

definition split_parent :: "bytes \<Rightarrow> bytes \<times> bytes" where
  "split_parent path0 =
     (let path = trim_end_slash path0 in
      if slash \<in> set path
      then let name = rev (takeWhile (\<lambda>c. c \<noteq> slash) (rev path));
               sep = length path - length name - 1
           in (if sep = 0 then [slash] else take sep path, name)
      else ([], path))"

text \<open>The directory that \<^verbatim>\<open>write\<close>, \<^verbatim>\<open>mkdir\<close>, \<^verbatim>\<open>touch\<close> and \<^verbatim>\<open>rename\<close> create an
  entry in: \<^verbatim>\<open>self.resolve(if pp.is_empty() { "." } else { pp }, cwd)\<close>.\<close>

definition resolve_parent :: "ramfs \<Rightarrow> bytes \<Rightarrow> nat \<Rightarrow> nat option" where
  "resolve_parent fs pp cwd = resolve fs (if pp = [] then dot else pp) cwd"

section \<open>Permissions\<close>

definition perm :: "ramfs \<Rightarrow> nat \<Rightarrow> u16 \<Rightarrow> u16 \<Rightarrow> u16 \<Rightarrow> bool" where
  "perm fs idx uid gid op \<longleftrightarrow>
     (if uid = 0 then True
      else let n = fs ! idx;
               bits = (if i_uid n = uid then drop_bit 6 (i_mode n)
                       else if i_gid n = gid then drop_bit 3 (i_mode n)
                       else i_mode n)
           in bits AND op \<noteq> 0)"

section \<open>Operations\<close>

text \<open>The assignments that fill a freshly allocated inode.\<close>

definition fill_inode :: "nat \<Rightarrow> inode_kind \<Rightarrow> nat \<Rightarrow> u16 \<Rightarrow> u16 \<Rightarrow> u16 \<Rightarrow> bytes \<Rightarrow> ramfs \<Rightarrow> ramfs" where
  "fill_inode i k parent uid gid mode name fs =
     upd_nth i (\<lambda>n. set_name name
       (n\<lparr>i_kind := k, i_parent := parent, i_uid := uid, i_gid := gid, i_mode := mode\<rparr>)) fs"

definition ramfs_store :: "nat \<Rightarrow> bytes \<Rightarrow> ramfs \<Rightarrow> ramfs" where
  "ramfs_store idx data fs =
     (let len = min (length data) MAX_DATA
      in upd_nth idx (\<lambda>n. n\<lparr>i_data := copy_into (i_data n) 0 (take len data), i_size := len\<rparr>) fs)"

definition ramfs_write :: "bytes \<Rightarrow> nat \<Rightarrow> bytes \<Rightarrow> u16 \<Rightarrow> u16 \<Rightarrow> ramfs \<Rightarrow> ramfs \<times> bool" where
  "ramfs_write path cwd data uid gid fs =
     (case resolve fs path cwd of
        Some i \<Rightarrow>
          if i_kind (fs ! i) = Dir then (fs, False)
          else if \<not> perm fs i uid gid 2 then (fs, False)
          else (ramfs_store i data fs, True)
      | None \<Rightarrow>
          (case split_parent path of
             (pp, name) \<Rightarrow>
               (case resolve_parent fs pp cwd of
                  None \<Rightarrow> (fs, False)
                | Some parent \<Rightarrow>
                    if \<not> perm fs parent uid gid 2 then (fs, False)
                    else case ramfs_alloc fs of
                           (fs1, None) \<Rightarrow> (fs1, False)
                         | (fs1, Some i) \<Rightarrow>
                             (ramfs_store i data (fill_inode i File parent uid gid 0x1A4 name fs1), True))))"

definition read_at :: "ramfs \<Rightarrow> bytes \<Rightarrow> nat \<Rightarrow> u16 \<Rightarrow> u16 \<Rightarrow> bytes option" where
  "read_at fs path cwd uid gid =
     (case resolve fs path cwd of
        None \<Rightarrow> None
      | Some idx \<Rightarrow>
          if i_kind (fs ! idx) = Dir then None
          else if \<not> perm fs idx uid gid 4 then None
          else Some (take (i_size (fs ! idx)) (i_data (fs ! idx))))"

definition read_bytes :: "ramfs \<Rightarrow> nat \<Rightarrow> bytes" where
  "read_bytes fs i = take (i_size (fs ! i)) (i_data (fs ! i))"

definition ramfs_mkdir :: "bytes \<Rightarrow> nat \<Rightarrow> u16 \<Rightarrow> u16 \<Rightarrow> u16 \<Rightarrow> ramfs \<Rightarrow> ramfs \<times> bool" where
  "ramfs_mkdir path cwd uid gid mode fs =
     (case split_parent path of
        (pp, name) \<Rightarrow>
          (case resolve_parent fs pp cwd of
             None \<Rightarrow> (fs, False)
           | Some parent \<Rightarrow>
               if i_kind (fs ! parent) \<noteq> Dir then (fs, False)
               else if \<not> perm fs parent uid gid 2 then (fs, False)
               else if lookup_in fs parent name \<noteq> None then (fs, False)
               else case ramfs_alloc fs of
                      (fs1, None) \<Rightarrow> (fs1, False)
                    | (fs1, Some i) \<Rightarrow>
                        (fill_inode i Dir parent uid gid (mode AND 0x1FF) name fs1, True)))"

definition ramfs_rmdir :: "bytes \<Rightarrow> nat \<Rightarrow> u16 \<Rightarrow> u16 \<Rightarrow> ramfs \<Rightarrow> ramfs \<times> bool" where
  "ramfs_rmdir path cwd uid gid fs =
     (case resolve fs path cwd of
        None \<Rightarrow> (fs, False)
      | Some idx \<Rightarrow>
          if idx = 0 then (fs, False)
          else if i_kind (fs ! idx) \<noteq> Dir then (fs, False)
          else if scan (\<lambda>i. i \<noteq> idx \<and> i_used (fs ! i) \<and> i_parent (fs ! i) = idx) 0 MAX_INODES \<noteq> None
            then (fs, False)
          else if \<not> perm fs (i_parent (fs ! idx)) uid gid 2 then (fs, False)
          else (upd_nth idx (\<lambda>n. n\<lparr>i_used := False\<rparr>) fs, True))"

definition ramfs_touch :: "bytes \<Rightarrow> nat \<Rightarrow> u16 \<Rightarrow> u16 \<Rightarrow> ramfs \<Rightarrow> ramfs \<times> bool" where
  "ramfs_touch path cwd uid gid fs =
     (if resolve fs path cwd \<noteq> None then (fs, True)
      else case split_parent path of
        (pp, name) \<Rightarrow>
          (case resolve_parent fs pp cwd of
             None \<Rightarrow> (fs, False)
           | Some parent \<Rightarrow>
               if \<not> perm fs parent uid gid 2 then (fs, False)
               else case ramfs_alloc fs of
                      (fs1, None) \<Rightarrow> (fs1, False)
                    | (fs1, Some i) \<Rightarrow>
                        (fill_inode i File parent uid gid 0x1A4 name fs1, True)))"

definition ramfs_unlink :: "bytes \<Rightarrow> nat \<Rightarrow> u16 \<Rightarrow> u16 \<Rightarrow> ramfs \<Rightarrow> ramfs \<times> bool" where
  "ramfs_unlink path cwd uid gid fs =
     (case resolve fs path cwd of
        None \<Rightarrow> (fs, False)
      | Some idx \<Rightarrow>
          if idx = 0 then (fs, False)
          else if i_kind (fs ! idx) = Dir then (fs, False)
          else if uid \<noteq> 0 \<and> i_uid (fs ! idx) \<noteq> uid \<and> \<not> perm fs (i_parent (fs ! idx)) uid gid 2
            then (fs, False)
          else (upd_nth idx (\<lambda>n. n\<lparr>i_used := False\<rparr>) fs, True))"

definition ramfs_chmod :: "bytes \<Rightarrow> nat \<Rightarrow> u16 \<Rightarrow> u16 \<Rightarrow> ramfs \<Rightarrow> ramfs \<times> bool" where
  "ramfs_chmod path cwd mode caller_uid fs =
     (case resolve fs path cwd of
        None \<Rightarrow> (fs, False)
      | Some idx \<Rightarrow>
          if caller_uid \<noteq> 0 \<and> i_uid (fs ! idx) \<noteq> caller_uid then (fs, False)
          else (upd_nth idx (\<lambda>n. n\<lparr>i_mode := mode AND 0x1FF\<rparr>) fs, True))"

definition ramfs_chown :: "bytes \<Rightarrow> nat \<Rightarrow> u16 \<Rightarrow> u16 \<Rightarrow> u16 \<Rightarrow> ramfs \<Rightarrow> ramfs \<times> bool" where
  "ramfs_chown path cwd new_uid new_gid caller_uid fs =
     (if caller_uid \<noteq> 0 then (fs, False)
      else case resolve fs path cwd of
        None \<Rightarrow> (fs, False)
      | Some idx \<Rightarrow> (upd_nth idx (\<lambda>n. n\<lparr>i_uid := new_uid, i_gid := new_gid\<rparr>) fs, True))"

text \<open>The callback loops: the children in the order in which the callback sees them.\<close>

definition dir_children :: "ramfs \<Rightarrow> nat \<Rightarrow> nat list" where
  "dir_children fs d = filter (\<lambda>i. i_used (fs ! i) \<and> i_parent (fs ! i) = d \<and> i \<noteq> d) [0..<MAX_INODES]"

definition list_dir_indexed :: "ramfs \<Rightarrow> nat \<Rightarrow> nat list" where
  "list_dir_indexed fs d =
     (if d \<ge> MAX_INODES \<or> \<not> i_used (fs ! d) then []
      else if i_kind (fs ! d) \<noteq> Dir then []
      else dir_children fs d)"

definition list_dir :: "ramfs \<Rightarrow> bytes \<Rightarrow> nat \<Rightarrow> inode list" where
  "list_dir fs path cwd =
     (case resolve fs path cwd of
        None \<Rightarrow> []
      | Some d \<Rightarrow> if i_kind (fs ! d) \<noteq> Dir then [] else map ((!) fs) (dir_children fs d))"

text \<open>\<^verbatim>\<open>inode_path\<close>: the walk to the root (at most 16 levels), then the components written
  into the caller's buffer from the top down; the result is the new buffer and the length.\<close>

fun path_stack :: "ramfs \<Rightarrow> nat \<Rightarrow> nat \<Rightarrow> nat list" where
  "path_stack fs 0 idx = []"
| "path_stack fs (Suc depth) idx =
     (if idx = 0 \<or> \<not> i_used (fs ! idx) then []
      else idx # (if i_parent (fs ! idx) = idx then [] else path_stack fs depth (i_parent (fs ! idx))))"

definition put_component :: "ramfs \<Rightarrow> nat \<Rightarrow> bytes \<times> nat \<Rightarrow> bytes \<times> nat" where
  "put_component fs i st =
     (case st of (buf, pos) \<Rightarrow>
        let (buf1, pos1) = (if pos < length buf then (buf[pos := slash], pos + 1) else (buf, pos));
            n = fs ! i;
            clen = min (i_name_len n) (length buf1 - pos1)
        in (copy_into buf1 pos1 (take clen (i_name n)), pos1 + clen))"

definition inode_path :: "ramfs \<Rightarrow> nat \<Rightarrow> bytes \<Rightarrow> bytes \<times> nat" where
  "inode_path fs idx buf =
     (if idx = 0 then (if buf \<noteq> [] then buf[0 := slash] else buf, 1)
      else fold (put_component fs) (rev (path_stack fs 16 idx)) (buf, 0))"

definition is_dir :: "ramfs \<Rightarrow> bytes \<Rightarrow> nat \<Rightarrow> bool option" where
  "is_dir fs path cwd = map_option (\<lambda>idx. i_kind (fs ! idx) = Dir) (resolve fs path cwd)"

definition get_inode :: "ramfs \<Rightarrow> nat \<Rightarrow> inode option" where
  "get_inode fs idx = (if idx < MAX_INODES \<and> i_used (fs ! idx) then Some (fs ! idx) else None)"

definition open_check :: "ramfs \<Rightarrow> bytes \<Rightarrow> nat \<Rightarrow> u16 \<Rightarrow> u16 \<Rightarrow> bool \<Rightarrow> nat option" where
  "open_check fs path cwd uid gid wr =
     (case resolve fs path cwd of
        None \<Rightarrow> None
      | Some idx \<Rightarrow>
          if i_kind (fs ! idx) = Dir then None
          else if \<not> perm fs idx uid gid (if wr then 2 else 4) then None
          else Some idx)"

text \<open>\<^verbatim>\<open>inode_read\<close> into a buffer of length \<open>len\<close>: the bytes it copies to the front.\<close>

definition inode_read :: "ramfs \<Rightarrow> nat \<Rightarrow> nat \<Rightarrow> nat \<Rightarrow> bytes" where
  "inode_read fs idx offset len =
     (if idx \<ge> MAX_INODES \<or> \<not> i_used (fs ! idx) \<or> i_kind (fs ! idx) = Dir then []
      else let start = min offset (i_size (fs ! idx));
               avail = i_size (fs ! idx) - start;
               n = min len avail
           in slice start (start + n) (i_data (fs ! idx)))"

definition inode_write :: "nat \<Rightarrow> nat \<Rightarrow> bytes \<Rightarrow> ramfs \<Rightarrow> ramfs \<times> nat" where
  "inode_write idx offset data fs =
     (if idx \<ge> MAX_INODES \<or> \<not> i_used (fs ! idx) \<or> i_kind (fs ! idx) = Dir then (fs, 0)
      else let end_pos = min (offset + length data) MAX_DATA;
               n = end_pos - offset
           in if n = 0 then (fs, 0)
              else (upd_nth idx (\<lambda>i. i\<lparr>i_data := copy_into (i_data i) offset (take n data),
                                       i_size := max end_pos (i_size i)\<rparr>) fs, n))"

definition ramfs_rename :: "bytes \<Rightarrow> bytes \<Rightarrow> nat \<Rightarrow> u16 \<Rightarrow> u16 \<Rightarrow> ramfs \<Rightarrow> ramfs \<times> bool" where
  "ramfs_rename src dst cwd uid gid fs =
     (case resolve fs src cwd of
        None \<Rightarrow> (fs, False)
      | Some src_idx \<Rightarrow>
          if src_idx = 0 then (fs, False)
          else if \<not> perm fs (i_parent (fs ! src_idx)) uid gid 2 then (fs, False)
          else case split_parent dst of
            (dst_pp, dst_name) \<Rightarrow>
              (case resolve_parent fs dst_pp cwd of
                 None \<Rightarrow> (fs, False)
               | Some dst_parent \<Rightarrow>
                   if \<not> perm fs dst_parent uid gid 2 then (fs, False)
                   else let move = (\<lambda>f. upd_nth src_idx (\<lambda>n. set_name dst_name (n\<lparr>i_parent := dst_parent\<rparr>)) f)
                        in case lookup_in fs dst_parent dst_name of
                             Some dst_idx \<Rightarrow>
                               if dst_idx = src_idx then (fs, True)
                               else if i_kind (fs ! dst_idx) = Dir then (fs, False)
                               else (move (upd_nth dst_idx (\<lambda>n. n\<lparr>i_used := False\<rparr>) fs), True)
                           | None \<Rightarrow> (move fs, True)))"

section \<open>The structural invariant\<close>

text \<open>Array lengths as declared, recorded lengths within them, parents within the table, and the
  root directory in slot 0.\<close>

definition inode_wf :: "inode \<Rightarrow> bool" where
  "inode_wf n \<longleftrightarrow> length (i_name n) = MAX_NAME \<and> i_name_len n \<le> MAX_NAME
     \<and> length (i_data n) = MAX_DATA \<and> i_size n \<le> MAX_DATA \<and> i_parent n < MAX_INODES"

definition fs_wf :: "ramfs \<Rightarrow> bool" where
  "fs_wf fs \<longleftrightarrow> length fs = MAX_INODES \<and> list_all inode_wf fs
     \<and> i_used (fs ! 0) \<and> i_kind (fs ! 0) = Dir \<and> i_parent (fs ! 0) = 0"

lemma ramfs_consts [simp]: "0 < MAX_INODES" "0 < MAX_NAME" "0 < MAX_DATA" "1 < MAX_INODES"
  by (simp_all add: MAX_INODES_def MAX_NAME_def MAX_DATA_def)

lemma fs_wfD:
  assumes "fs_wf fs"
  shows "length fs = MAX_INODES" "i < MAX_INODES \<Longrightarrow> inode_wf (fs ! i)"
    "i < MAX_INODES \<Longrightarrow> i_parent (fs ! i) < MAX_INODES"
    "i_used (fs ! 0)" "i_kind (fs ! 0) = Dir" "i_parent (fs ! 0) = 0"
  using assms by (auto simp: fs_wf_def list_all_length inode_wf_def)

lemma inode_empty_wf [simp]: "inode_wf inode_empty" "inode_wf (inode_empty\<lparr>i_used := True\<rparr>)"
  by (simp_all add: inode_wf_def inode_empty_def)

lemma set_name_wf [wf_intros]: "inode_wf n \<Longrightarrow> inode_wf (set_name b n)"
  by (simp add: inode_wf_def set_name_def Let_def copy_into_def)

lemma set_name_frame [simp, frame_simps]:
  "i_used (set_name b n) = i_used n" "i_kind (set_name b n) = i_kind n" "i_parent (set_name b n) = i_parent n"
  "i_uid (set_name b n) = i_uid n" "i_gid (set_name b n) = i_gid n" "i_mode (set_name b n) = i_mode n"
  "i_data (set_name b n) = i_data n" "i_size (set_name b n) = i_size n"
  by (simp_all add: set_name_def Let_def)

lemma ramfs_new_wf: "length ramfs_new = MAX_INODES" "list_all inode_wf ramfs_new"
  by (simp_all add: ramfs_new_def list_all_length)

lemma init_root_wf [wf_intros]: "fs_wf (init_root ramfs_new)"
  using ramfs_new_wf unfolding fs_wf_def init_root_def
  by (auto simp: inode_wf_def list_all_length MAX_NAME_def intro!: list_all_upd_nth)

text \<open>Updating one inode keeps the invariant when it keeps the inode well formed and, for the
  root, the root's fields.\<close>

lemma upd_nth_fs_wf:
  assumes "fs_wf fs" "i < MAX_INODES \<Longrightarrow> inode_wf (fs ! i) \<Longrightarrow> inode_wf (f (fs ! i))"
    "i = 0 \<Longrightarrow> i_used (f (fs ! 0)) \<and> i_kind (f (fs ! 0)) = Dir \<and> i_parent (f (fs ! 0)) = 0"
  shows "fs_wf (upd_nth i f fs)"
  using assms by (auto simp: fs_wf_def list_all_length intro: list_all_upd_nth)

lemma update_fs_wf:
  assumes "fs_wf fs" "inode_wf n" "0 < i"
  shows "fs_wf (fs[i := n])"
  using assms by (auto simp: fs_wf_def intro: list_all_update)

section \<open>Path resolution\<close>

lemma lookup_in_bound: "fs_wf fs \<Longrightarrow> p < MAX_INODES \<Longrightarrow> lookup_in fs p name = Some i \<Longrightarrow> i < MAX_INODES"
  by (auto simp: lookup_in_def fs_wfD scan_Some split: if_splits)

lemma resolve_parts_bound:
  "fs_wf fs \<Longrightarrow> cur < MAX_INODES \<Longrightarrow> resolve_parts fs cur parts = Some i \<Longrightarrow> i < MAX_INODES"
  by (induction fs cur parts rule: resolve_parts.induct)
     (auto split: if_splits option.splits dest: lookup_in_bound)

lemma resolve_bound:
  assumes "fs_wf fs" "cwd < MAX_INODES" "resolve fs path cwd = Some i"
  shows "i < MAX_INODES"
proof -
  have "(if path \<noteq> [] \<and> hd path = slash then 0 else cwd) < MAX_INODES" using assms(2) by simp
  with assms resolve_parts_bound[OF assms(1)] show ?thesis
    by (auto simp: resolve_def Let_def split: if_splits)
qed

lemma resolve_parent_bound:
  "fs_wf fs \<Longrightarrow> cwd < MAX_INODES \<Longrightarrow> resolve_parent fs pp cwd = Some i \<Longrightarrow> i < MAX_INODES"
  by (simp add: resolve_parent_def resolve_bound)

lemma ramfs_alloc_Some:
  assumes "ramfs_alloc fs = (fs', Some i)"
  shows "0 < i" "i < MAX_INODES" "\<not> i_used (fs ! i)" "fs' = fs[i := inode_empty\<lparr>i_used := True\<rparr>]"
  using assms by (auto simp: ramfs_alloc_def split: option.splits dest: scan_SomeD)

lemma ramfs_alloc_None: "ramfs_alloc fs = (fs', None) \<Longrightarrow> fs' = fs"
  by (auto simp: ramfs_alloc_def split: option.splits)

lemma ramfs_alloc_wf [wf_intros]: "fs_wf fs \<Longrightarrow> ramfs_alloc fs = (fs', r) \<Longrightarrow> fs_wf fs'"
  using ramfs_alloc_Some(1,4) ramfs_alloc_None by (cases r) (blast intro: update_fs_wf inode_empty_wf)+

lemma fill_inode_wf [wf_intros]:
  "fs_wf fs \<Longrightarrow> 0 < i \<Longrightarrow> parent < MAX_INODES \<Longrightarrow> fs_wf (fill_inode i k parent uid gid mode name fs)"
  unfolding fill_inode_def by (intro upd_nth_fs_wf set_name_wf) (auto simp: inode_wf_def)

lemma ramfs_store_wf [wf_intros]: "fs_wf fs \<Longrightarrow> fs_wf (ramfs_store i data fs)"
  unfolding ramfs_store_def Let_def
  by (rule upd_nth_fs_wf) (auto simp: inode_wf_def fs_wfD copy_into_def)

section \<open>Every operation keeps the invariant\<close>

lemma ramfs_write_wf [wf_intros]:
  assumes "fs_wf fs" "cwd < MAX_INODES"
  shows "fs_wf (fst (ramfs_write path cwd data uid gid fs))"
  using assms unfolding ramfs_write_def
  by (auto simp: resolve_parent_bound split: option.splits prod.splits
      intro!: ramfs_store_wf fill_inode_wf dest: ramfs_alloc_wf ramfs_alloc_Some(1))

lemma ramfs_mkdir_wf [wf_intros]:
  assumes "fs_wf fs" "cwd < MAX_INODES"
  shows "fs_wf (fst (ramfs_mkdir path cwd uid gid mode fs))"
  using assms unfolding ramfs_mkdir_def
  by (auto simp: resolve_parent_bound split: option.splits prod.splits
      intro!: fill_inode_wf dest: ramfs_alloc_wf ramfs_alloc_Some(1))

lemma ramfs_touch_wf [wf_intros]:
  assumes "fs_wf fs" "cwd < MAX_INODES"
  shows "fs_wf (fst (ramfs_touch path cwd uid gid fs))"
  using assms unfolding ramfs_touch_def
  by (auto simp: resolve_parent_bound split: option.splits prod.splits
      intro!: fill_inode_wf dest: ramfs_alloc_wf ramfs_alloc_Some(1))

lemma ramfs_rmdir_wf [wf_intros]: "fs_wf fs \<Longrightarrow> fs_wf (fst (ramfs_rmdir path cwd uid gid fs))"
  unfolding ramfs_rmdir_def by (auto intro!: upd_nth_fs_wf simp: inode_wf_def split: option.splits)

lemma ramfs_unlink_wf [wf_intros]: "fs_wf fs \<Longrightarrow> fs_wf (fst (ramfs_unlink path cwd uid gid fs))"
  unfolding ramfs_unlink_def by (auto intro!: upd_nth_fs_wf simp: inode_wf_def split: option.splits)

lemma ramfs_chmod_wf [wf_intros]: "fs_wf fs \<Longrightarrow> fs_wf (fst (ramfs_chmod path cwd mode uid fs))"
  unfolding ramfs_chmod_def by (auto intro!: upd_nth_fs_wf simp: inode_wf_def fs_wfD split: option.splits)

lemma ramfs_chown_wf [wf_intros]: "fs_wf fs \<Longrightarrow> fs_wf (fst (ramfs_chown path cwd u g uid fs))"
  unfolding ramfs_chown_def by (auto intro!: upd_nth_fs_wf simp: inode_wf_def fs_wfD split: option.splits)

lemma inode_write_wf [wf_intros]: "fs_wf fs \<Longrightarrow> fs_wf (fst (inode_write i off data fs))"
  unfolding inode_write_def Let_def
  by (auto intro!: upd_nth_fs_wf simp: inode_wf_def fs_wfD copy_into_def)

lemma ramfs_rename_wf [wf_intros]:
  assumes wf: "fs_wf fs" and c: "cwd < MAX_INODES"
  shows "fs_wf (fst (ramfs_rename src dst cwd uid gid fs))"
proof -
  have move: "fs_wf (upd_nth i (\<lambda>n. set_name nm (n\<lparr>i_parent := p\<rparr>)) f)" if "fs_wf f" "i \<noteq> 0" "p < MAX_INODES" for i p nm f
    using that by (intro upd_nth_fs_wf set_name_wf) (auto simp: inode_wf_def)
  have drop: "fs_wf (upd_nth i (\<lambda>n. n\<lparr>i_used := False\<rparr>) fs)" if "i_kind (fs ! i) \<noteq> Dir" for i
    using that wf by (intro upd_nth_fs_wf) (auto simp: inode_wf_def fs_wfD)
  show ?thesis
    using wf c unfolding ramfs_rename_def
    by (auto simp: Let_def split: option.splits prod.splits intro!: move drop dest: resolve_parent_bound)
qed

section \<open>A refused operation changes nothing\<close>

lemmas refused_defs = ramfs_write_def ramfs_mkdir_def ramfs_touch_def ramfs_rmdir_def ramfs_unlink_def
  ramfs_chmod_def ramfs_chown_def ramfs_rename_def

lemma refused_unchanged:
  "ramfs_write path cwd data uid gid fs = (fs', False) \<Longrightarrow> fs' = fs"
  "ramfs_mkdir path cwd uid gid mode fs = (fs', False) \<Longrightarrow> fs' = fs"
  "ramfs_touch path cwd uid gid fs = (fs', False) \<Longrightarrow> fs' = fs"
  "ramfs_rmdir path cwd uid gid fs = (fs', False) \<Longrightarrow> fs' = fs"
  "ramfs_unlink path cwd uid gid fs = (fs', False) \<Longrightarrow> fs' = fs"
  "ramfs_chmod path cwd mode uid fs = (fs', False) \<Longrightarrow> fs' = fs"
  "ramfs_chown path cwd nu ng uid fs = (fs', False) \<Longrightarrow> fs' = fs"
  "ramfs_rename path dst cwd uid gid fs = (fs', False) \<Longrightarrow> fs' = fs"
  unfolding refused_defs
  by (auto simp: Let_def split: option.splits prod.splits if_splits dest!: ramfs_alloc_None)

section \<open>Inode reads and writes\<close>

lemma inode_write_count:
  "snd (inode_write i off data fs) \<le> length data"
  by (auto simp: inode_write_def Let_def)

lemma inode_rw:
  assumes wf: "fs_wf fs" and i: "i < MAX_INODES" "i_used (fs ! i)" "i_kind (fs ! i) = File"
    and w: "inode_write i off data fs = (fs', n)" and n: "0 < n"
  shows "inode_read fs' i off n = take n data" "off + n \<le> i_size (fs' ! i)" "i_used (fs' ! i)" "i_kind (fs' ! i) = File"
proof -
  have len: "length fs = MAX_INODES" and nw: "inode_wf (fs ! i)" using fs_wfD(1,2)[OF wf] i(1) by auto
  from w i n have n': "n = min (off + length data) MAX_DATA - off"
    and fs': "fs' = upd_nth i (\<lambda>m. m\<lparr>i_data := copy_into (i_data m) off (take n data),
                                i_size := max (min (off + length data) MAX_DATA) (i_size m)\<rparr>) fs"
    by (auto simp: inode_write_def Let_def split: if_splits)
  have on: "off + n = min (off + length data) MAX_DATA" and nl: "n \<le> length data" using n n' by auto
  show sz: "off + n \<le> i_size (fs' ! i)" "i_used (fs' ! i)" "i_kind (fs' ! i) = File"
    using fs' i len on by auto
  have "i_data (fs' ! i) = copy_into (i_data (fs ! i)) off (take n data)" using fs' i len by simp
  moreover have "off + length (take n data) \<le> length (i_data (fs ! i))"
    using on nl nw by (simp add: inode_wf_def min_absorb2)
  ultimately have "slice off (off + n) (i_data (fs' ! i)) = take n data"
    using slice_copy_into[of off "take n data" "i_data (fs ! i)"] nl by (simp add: min_absorb2)
  moreover have "min off (i_size (fs' ! i)) = off" "min n (i_size (fs' ! i) - off) = n" using sz(1) by auto
  ultimately show "inode_read fs' i off n = take n data"
    using sz i(1) by (simp add: inode_read_def Let_def)
qed

section \<open>Resolution as a walk over components\<close>

text \<open>Empty components and \<^verbatim>\<open>.\<close> do not move; so a path is its list of proper components.\<close>

definition comps :: "bytes \<Rightarrow> bytes list" where
  "comps p = filter (\<lambda>c. c \<noteq> [] \<and> c \<noteq> dot) (split_slash p)"

definition path_start :: "bytes \<Rightarrow> nat \<Rightarrow> nat" where
  "path_start p cwd = (if p \<noteq> [] \<and> hd p = slash then 0 else cwd)"

lemma resolve_parts_filter:
  "resolve_parts fs cur (filter (\<lambda>c. c \<noteq> [] \<and> c \<noteq> dot) parts) = resolve_parts fs cur parts"
  by (induction fs cur parts rule: resolve_parts.induct) (auto split: option.splits)

lemma resolve_parts_append:
  "resolve_parts fs cur (xs @ ys) = Option.bind (resolve_parts fs cur xs) (\<lambda>c. resolve_parts fs c ys)"
  by (induction fs cur xs rule: resolve_parts.induct) (auto split: option.splits)

lemma split_slash_ne [simp]: "split_slash p \<noteq> []"
  by (induction p) (auto split: list.splits)

lemma split_slash_append: "split_slash (a @ slash # b) = split_slash a @ split_slash b"
  by (induction a) (auto split: list.splits)

lemma split_slash_plain: "slash \<notin> set a \<Longrightarrow> split_slash a = [a]"
  by (induction a) auto

lemma comps_append: "comps (a @ slash # b) = comps a @ comps b"
  by (simp add: comps_def split_slash_append)

lemma comps_Nil [simp]: "comps [] = []" "comps dot = []"
  by (simp_all add: comps_def dot_def slash_def)

lemma comps_plain: "slash \<notin> set a \<Longrightarrow> comps a = (if a = [] \<or> a = dot then [] else [a])"
  by (simp add: comps_def split_slash_plain)

lemma comps_slash_Cons [simp]: "comps (slash # p) = comps p"
  using comps_append[of "[]" p] by simp

lemma comps_snoc_slash [simp]: "comps (p @ [slash]) = comps p"
  using comps_append[of p "[]"] by simp

lemma comps_trim_start: "comps (trim_start_slash p) = comps p"
  unfolding trim_start_slash_def by (induction p) auto

lemma comps_trim_end: "comps (trim_end_slash p) = comps p"
proof (induction p rule: rev_induct)
  case (snoc c p)
  then show ?case by (cases "c = slash") (simp_all add: trim_end_slash_def)
qed (simp add: trim_end_slash_def)

lemma resolve_comps: "resolve fs path cwd = resolve_parts fs (path_start path cwd) (comps path)"
proof -
  have "resolve_parts fs c (split_slash (trim_start_slash path)) = resolve_parts fs c (comps path)" for c
    using resolve_parts_filter[of fs c "split_slash (trim_start_slash path)"] comps_trim_start[of path]
    by (simp add: comps_def)
  moreover have "comps path = []" if "trim_start_slash path = []"
    using comps_trim_start[of path] that by simp
  ultimately show ?thesis by (auto simp: resolve_def path_start_def Let_def)
qed

lemma trim_end_start:
  assumes "trim_end_slash p \<noteq> []"
  shows "path_start (trim_end_slash p) cwd = path_start p cwd"
proof -
  have "p = trim_end_slash p @ rev (takeWhile (\<lambda>c. c = slash) (rev p))"
    unfolding trim_end_slash_def by (metis rev_append rev_rev_ident takeWhile_dropWhile_id)
  then have "hd p = hd (trim_end_slash p)" "p \<noteq> []" using assms by (metis hd_append2, auto simp: trim_end_slash_def)
  then show ?thesis using assms by (simp add: path_start_def)
qed

lemma split_parent_slash:
  assumes "slash \<in> set (trim_end_slash p)"
  obtains pre name where "trim_end_slash p = pre @ slash # name" "slash \<notin> set name"
    "split_parent p = (if pre = [] then [slash] else pre, name)"
proof -
  obtain pre name where pn: "trim_end_slash p = pre @ slash # name" "slash \<notin> set name"
    using assms split_list_last by metis
  have "takeWhile (\<lambda>c. c \<noteq> slash) (rev (trim_end_slash p)) = rev name"
    using pn by (subst pn(1)) (auto simp: takeWhile_tail takeWhile_append2)
  with pn assms have "split_parent p = (if pre = [] then [slash] else pre, name)"
    by (simp add: split_parent_def Let_def)
  with pn that show ?thesis by blast
qed

lemma resolve_via_parent:
  assumes "trim_end_slash path \<noteq> []" and sp: "split_parent path = (pp, name)"
  shows "resolve fs path cwd = Option.bind (resolve_parent fs pp cwd) (\<lambda>d. resolve_parts fs d (comps name))"
    and "slash \<notin> set name"
proof -
  let ?t = "trim_end_slash path"
  have r: "resolve fs path cwd = resolve_parts fs (path_start ?t cwd) (comps ?t)"
    using resolve_comps comps_trim_end trim_end_start[OF assms(1)] by metis
  have "(resolve fs path cwd = Option.bind (resolve_parent fs pp cwd) (\<lambda>d. resolve_parts fs d (comps name)))
      \<and> slash \<notin> set name"
  proof (cases "slash \<in> set ?t")
    case True
    then obtain pre name' where pn: "?t = pre @ slash # name'" "slash \<notin> set name'"
      "split_parent path = (if pre = [] then [slash] else pre, name')"
      using split_parent_slash by blast
    with sp have eq: "pp = (if pre = [] then [slash] else pre)" "name = name'" by auto
    have "path_start pp cwd = path_start ?t cwd" using eq pn(1) by (simp add: path_start_def)
    moreover have "comps pp = comps pre" using eq comps_slash_Cons[of "[]"] by simp
    moreover have "resolve_parent fs pp cwd = resolve fs pp cwd" using eq by (simp add: resolve_parent_def)
    ultimately show ?thesis using r pn eq by (simp add: resolve_comps comps_append resolve_parts_append)
  next
    case False
    with sp have "pp = []" "name = ?t" by (auto simp: split_parent_def Let_def)
    moreover have "path_start ?t cwd = cwd" using False assms(1) hd_in_set by (fastforce simp: path_start_def)
    moreover have "resolve fs dot cwd = Some cwd" by (simp add: resolve_comps path_start_def dot_def slash_def comps_Nil(2)[unfolded dot_def])
    ultimately show ?thesis using r False by (simp add: resolve_parent_def)
  qed
  then show "resolve fs path cwd = Option.bind (resolve_parent fs pp cwd) (\<lambda>d. resolve_parts fs d (comps name))"
    and "slash \<notin> set name" by auto
qed

section \<open>Writing a file and reading it back\<close>

text \<open>The walk reads only the link fields of the inodes.\<close>

definition same_links :: "ramfs \<Rightarrow> ramfs \<Rightarrow> bool" where
  "same_links fs fs' \<longleftrightarrow> (\<forall>j < MAX_INODES. i_used (fs' ! j) = i_used (fs ! j) \<and> i_parent (fs' ! j) = i_parent (fs ! j)
     \<and> i_name (fs' ! j) = i_name (fs ! j) \<and> i_name_len (fs' ! j) = i_name_len (fs ! j))"

lemma scan_cong: "(\<And>j. lo \<le> j \<Longrightarrow> j < hi \<Longrightarrow> P j = Q j) \<Longrightarrow> scan P lo hi = scan Q lo hi"
  unfolding scan_def by (rule find_cong) auto

lemma same_links_lookup: "same_links fs fs' \<Longrightarrow> c < MAX_INODES \<Longrightarrow> lookup_in fs' c part = lookup_in fs c part"
  by (auto simp: lookup_in_def same_links_def name_eq_def intro!: scan_cong)

lemma same_links_resolve_parts:
  "same_links fs fs' \<Longrightarrow> fs_wf fs \<Longrightarrow> c < MAX_INODES \<Longrightarrow> resolve_parts fs' c parts = resolve_parts fs c parts"
proof (induction fs c parts rule: resolve_parts.induct)
  case (2 fs cur part parts)
  then show ?case by (auto simp: same_links_lookup split: option.splits dest: lookup_in_bound)
qed simp

lemma same_links_resolve:
  assumes "same_links fs fs'" "fs_wf fs" "cwd < MAX_INODES"
  shows "resolve fs' path cwd = resolve fs path cwd"
  unfolding resolve_comps using assms by (intro same_links_resolve_parts) (auto simp: path_start_def)

text \<open>The directory tree is closed: the parent of a used inode is used.\<close>

definition parents_used :: "ramfs \<Rightarrow> bool" where
  "parents_used fs \<longleftrightarrow> (\<forall>i < MAX_INODES. i_used (fs ! i) \<longrightarrow> i_used (fs ! i_parent (fs ! i)))"

lemma lookup_in_used:
  "fs_wf fs \<Longrightarrow> parents_used fs \<Longrightarrow> c < MAX_INODES \<Longrightarrow> i_used (fs ! c) \<Longrightarrow> lookup_in fs c part = Some x \<Longrightarrow> i_used (fs ! x)"
  by (auto simp: lookup_in_def parents_used_def scan_Some split: if_splits)

text \<open>\<open>fs'\<close> is \<open>fs\<close> with one more entry, \<open>nm\<close> in directory \<open>d\<close>, in the slot \<open>i\<close> that was free.\<close>

definition added :: "ramfs \<Rightarrow> nat \<Rightarrow> nat \<Rightarrow> bytes \<Rightarrow> ramfs \<Rightarrow> bool" where
  "added fs i d nm fs' \<longleftrightarrow> i < MAX_INODES \<and> \<not> i_used (fs ! i) \<and> (\<forall>j. j < MAX_INODES \<longrightarrow> j \<noteq> i \<longrightarrow> fs' ! j = fs ! j)
     \<and> i_used (fs' ! i) \<and> i_parent (fs' ! i) = d \<and> (\<forall>b. name_eq (fs' ! i) b \<longleftrightarrow> b = nm)"

lemma added_lookup_old:
  assumes "added fs i d nm fs'" "c < MAX_INODES" "c \<noteq> i" "(c, part) \<noteq> (d, nm)"
  shows "lookup_in fs' c part = lookup_in fs c part"
proof -
  have "fs' ! c = fs ! c" using assms by (simp add: added_def)
  moreover have "(i_used (fs' ! j) \<and> i_parent (fs' ! j) = c \<and> j \<noteq> c \<and> name_eq (fs' ! j) part) =
      (i_used (fs ! j) \<and> i_parent (fs ! j) = c \<and> j \<noteq> c \<and> name_eq (fs ! j) part)" if "j < MAX_INODES" for j
    using assms that by (cases "j = i") (auto simp: added_def)
  ultimately show ?thesis by (auto simp: lookup_in_def intro!: scan_cong)
qed

lemma added_lookup_new:
  assumes "added fs i d nm fs'" "i \<noteq> d" "lookup_in fs d nm = None"
  shows "lookup_in fs' d nm = Some i"
proof -
  have nd: "nm \<noteq> dot" "nm \<noteq> dotdot" using assms(3) by (auto simp: lookup_in_def split: if_splits)
  have "\<not> (i_used (fs ! j) \<and> i_parent (fs ! j) = d \<and> j \<noteq> d \<and> name_eq (fs ! j) nm)" if "j < MAX_INODES" for j
    using assms(3) nd that by (auto simp: lookup_in_def scan_None)
  with assms nd show ?thesis by (auto simp: lookup_in_def scan_Some added_def)
qed

lemma added_resolve_parts:
  "added fs i d nm fs' \<Longrightarrow> lookup_in fs d nm = None \<Longrightarrow> fs_wf fs \<Longrightarrow> parents_used fs \<Longrightarrow>
   c < MAX_INODES \<Longrightarrow> i_used (fs ! c) \<Longrightarrow> resolve_parts fs c parts = Some x \<Longrightarrow>
   resolve_parts fs' c parts = Some x \<and> i_used (fs ! x)"
proof (induction fs c parts rule: resolve_parts.induct)
  case (2 fs cur part parts)
  show ?case
  proof (cases "part = [] \<or> part = dot")
    case False
    with 2(9) obtain c' where c': "lookup_in fs cur part = Some c'" "resolve_parts fs c' parts = Some x"
      by (auto split: option.splits)
    have "cur \<noteq> i" using 2(3,8) by (auto simp: added_def)
    moreover have "(cur, part) \<noteq> (d, nm)" using c'(1) 2(4) by auto
    ultimately have "lookup_in fs' cur part = Some c'" using added_lookup_old 2(3,7) c'(1) by metis
    moreover have "c' < MAX_INODES" "i_used (fs ! c')"
      using lookup_in_bound lookup_in_used 2(5-8) c'(1) by blast+
    ultimately show ?thesis using 2(2)[OF False c'(1)] 2(3-6) c'(2) False by simp
  qed (use 2 in simp)
qed auto

lemma fill_inode_added:
  assumes wf: "fs_wf fs" and al: "ramfs_alloc fs = (fs1, Some i)" and nm: "length nm \<le> MAX_NAME"
  shows "added fs i d nm (ramfs_store i data (fill_inode i k d uid gid mode nm fs1))"
proof -
  have i: "i < MAX_INODES" "\<not> i_used (fs ! i)" "fs1 = fs[i := inode_empty\<lparr>i_used := True\<rparr>]" "length fs = MAX_INODES"
    using ramfs_alloc_Some[OF al] fs_wfD(1)[OF wf] by auto
  have "name_eq (ramfs_store i data (fill_inode i k d uid gid mode nm fs1) ! i) b \<longleftrightarrow> b = nm" for b
    using i nm by (auto simp: ramfs_store_def fill_inode_def Let_def name_eq_def set_name_def inode_empty_def)
  then show ?thesis using i by (auto simp: added_def ramfs_store_def fill_inode_def Let_def)
qed

lemma write_existing_read:
  assumes wf: "fs_wf fs" "cwd < MAX_INODES" and r: "resolve fs path cwd = Some i" "i_kind (fs ! i) \<noteq> Dir"
    and p: "perm fs i uid gid 4"
  shows "read_at (ramfs_store i data fs) path cwd uid gid = Some (take MAX_DATA data)"
proof -
  have i: "i < MAX_INODES" using resolve_bound[OF wf r(1)] .
  have len: "length fs = MAX_INODES" using wf fs_wfD by blast
  have "same_links fs (ramfs_store i data fs)"
    using len by (auto simp: same_links_def ramfs_store_def Let_def)
  then have "resolve (ramfs_store i data fs) path cwd = Some i" using same_links_resolve wf r(1) by simp
  moreover have "ramfs_store i data fs ! i =
      (fs ! i)\<lparr>i_data := copy_into (i_data (fs ! i)) 0 (take (min (length data) MAX_DATA) data),
              i_size := min (length data) MAX_DATA\<rparr>"
    using i len by (simp add: ramfs_store_def Let_def)
  moreover from this have "perm (ramfs_store i data fs) i uid gid 4" using p by (auto simp: perm_def Let_def split: if_splits)
  ultimately show ?thesis using r(2) by (simp add: read_at_def min_def)
qed

lemma write_create_read:
  assumes wf: "fs_wf fs" "parents_used fs" and c: "cwd < MAX_INODES" "i_used (fs ! cwd)"
    and r: "resolve fs path cwd = None" and sp: "split_parent path = (pp, nm)" "length nm \<le> MAX_NAME"
    and d: "resolve_parent fs pp cwd = Some d" and al: "ramfs_alloc fs = (fs1, Some i)"
  shows "read_at (ramfs_store i data (fill_inode i File d uid gid 0x1A4 nm fs1)) path cwd uid gid = Some (take MAX_DATA data)"
proof -
  let ?fs' = "ramfs_store i data (fill_inode i File d uid gid 0x1A4 nm fs1)"
  have t: "trim_end_slash path \<noteq> []"
  proof
    assume "trim_end_slash path = []"
    then have "comps path = []" using comps_trim_end[of path] by simp
    with r show False by (simp add: resolve_comps)
  qed
  note via = resolve_via_parent[OF t sp(1)]
  have nm: "comps nm = [nm]" "nm \<noteq> []" "nm \<noteq> dot" and none: "lookup_in fs d nm = None"
    using via(1)[of fs cwd] r d comps_plain[OF via(2)] by (auto split: if_splits option.splits)
  have add: "added fs i d nm ?fs'" using fill_inode_added[OF wf(1) al sp(2)] .
  have ds: "resolve_parts fs (path_start q cwd) (comps q) = Some d" if "q = (if pp = [] then dot else pp)" for q
    using d that by (simp add: resolve_parent_def resolve_comps)
  have start: "path_start q cwd < MAX_INODES" "i_used (fs ! path_start q cwd)" for q
    using c fs_wfD(4)[OF wf(1)] by (simp_all add: path_start_def)
  have d': "resolve_parent ?fs' pp cwd = Some d" and du: "i_used (fs ! d)"
    using added_resolve_parts[OF add none wf start ds] by (auto simp: resolve_parent_def resolve_comps)
  have i: "i < MAX_INODES" "i \<noteq> d" using ramfs_alloc_Some(2,3)[OF al] du by auto
  then have res: "resolve ?fs' path cwd = Some i"
    using via(1)[of ?fs' cwd] d' nm added_lookup_new[OF add i(2) none] by simp
  have "length fs1 = MAX_INODES" using ramfs_alloc_Some(4)[OF al] fs_wfD(1)[OF wf(1)] by simp
  then have "i_kind (?fs' ! i) = File" "i_uid (?fs' ! i) = uid" "i_mode (?fs' ! i) = 0x1A4"
    "take (i_size (?fs' ! i)) (i_data (?fs' ! i)) = take MAX_DATA data"
    using i(1) by (simp_all add: ramfs_store_def fill_inode_def Let_def min_def)
  with res show ?thesis by (simp add: read_at_def perm_def)
qed

lemma ramfs_write_read:
  assumes wf: "fs_wf fs" "parents_used fs" and c: "cwd < MAX_INODES" "i_used (fs ! cwd)"
    and w: "ramfs_write path cwd data uid gid fs = (fs', True)"
    and nm: "length (snd (split_parent path)) \<le> MAX_NAME"
    and rd: "\<And>i. resolve fs path cwd = Some i \<Longrightarrow> perm fs i uid gid 4"
  shows "read_at fs' path cwd uid gid = Some (take MAX_DATA data)"
proof (cases "resolve fs path cwd")
  case None
  with w nm wf c show ?thesis
    by (auto simp: ramfs_write_def split: prod.splits option.splits if_splits intro: write_create_read)
next
  case (Some i)
  with w rd wf c show ?thesis by (auto simp: ramfs_write_def write_existing_read split: if_splits)
qed

section \<open>Properties\<close>

text \<open>The freshly initialised file system, used in the concrete instances.\<close>

lemma root_fs:
  "fs_wf (init_root ramfs_new)" "length (init_root ramfs_new) = MAX_INODES"
  "0 < i \<Longrightarrow> i < MAX_INODES \<Longrightarrow> init_root ramfs_new ! i = inode_empty"
  "i_used (init_root ramfs_new ! 0)" "i_kind (init_root ramfs_new ! 0) = Dir"
  by (simp_all add: init_root_wf) (simp_all add: init_root_def ramfs_new_def)

lemma root_fs_parents: "parents_used (init_root ramfs_new)"
  unfolding parents_used_def using root_fs(3,4) fs_wfD(6)[OF root_fs(1)] by (metis inode_empty_def inode.select_convs(1) neq0_conv)

lemma root_fs_lookup: "nm \<noteq> dot \<Longrightarrow> nm \<noteq> dotdot \<Longrightarrow> lookup_in (init_root ramfs_new) 0 nm = None"
  by (auto simp: lookup_in_def scan_None root_fs(3) inode_empty_def)

lemma root_fs_alloc: "ramfs_alloc (init_root ramfs_new) = ((init_root ramfs_new)[1 := inode_empty\<lparr>i_used := True\<rparr>], Some 1)"
proof -
  have "scan (\<lambda>i. \<not> i_used (init_root ramfs_new ! i)) 1 MAX_INODES = Some 1"
    using root_fs(3)[of 1] by (simp add: scan_Some MAX_INODES_def inode_empty_def)
  then show ?thesis by (simp add: ramfs_alloc_def)
qed

lemma root_fs_write:
  "resolve (init_root ramfs_new) [slash, 0x61] 0 = None" "split_parent [slash, 0x61] = ([slash], [0x61])"
  "snd (ramfs_write [slash, 0x61] 0 data 0 0 (init_root ramfs_new))"
proof -
  show r: "resolve (init_root ramfs_new) [slash, 0x61] 0 = None"
    by (simp add: resolve_def trim_start_slash_def Let_def slash_def root_fs_lookup dot_def dotdot_def)
  show p: "split_parent [slash, 0x61] = ([slash], [0x61])"
    by (simp add: split_parent_def trim_end_slash_def slash_def Let_def)
  have "resolve_parent (init_root ramfs_new) [slash] 0 = Some 0"
    by (simp add: resolve_parent_def resolve_def trim_start_slash_def slash_def)
  then show "snd (ramfs_write [slash, 0x61] 0 data 0 0 (init_root ramfs_new))"
    using r p by (simp add: ramfs_write_def root_fs_alloc perm_def)
qed

text \<open>C9: A file written by path is read back by the same path with the data stored (cut at the 4096 bytes
  an inode holds), whether the write created the file or replaced it.  The name has to fit an
  inode, the reader has to be allowed to read a file that existed, and directories have to exist.\<close>

theorem write_read_roundtrip:
  assumes "fs_wf fs" "parents_used fs" "cwd < MAX_INODES" "i_used (fs ! cwd)"
    "ramfs_write path cwd data uid gid fs = (fs', True)" "length (snd (split_parent path)) \<le> MAX_NAME"
    "\<And>i. resolve fs path cwd = Some i \<Longrightarrow> perm fs i uid gid 4"
  shows "read_at fs' path cwd uid gid = Some (take MAX_DATA data)"
  using assms by (rule ramfs_write_read)

theorem write_read_roundtrip_witness:
  "read_at (fst (ramfs_write [slash, 0x61] 0 [1, 2, 3] 0 0 (init_root ramfs_new))) [slash, 0x61] 0 0 0 = Some [1, 2, 3]"
proof -
  have "ramfs_write [slash, 0x61] 0 [1, 2, 3] 0 0 (init_root ramfs_new)
      = (fst (ramfs_write [slash, 0x61] 0 [1, 2, 3] 0 0 (init_root ramfs_new)), True)"
    using root_fs_write(3)[of "[1, 2, 3]"] by (simp add: prod_eq_iff)
  then show ?thesis
    using write_read_roundtrip[of "init_root ramfs_new" 0 "[slash, 0x61]" "[1, 2, 3]" 0 0] root_fs(1,4) root_fs_parents root_fs_write(1,2)
    by (simp add: MAX_NAME_def MAX_DATA_def)
qed

text \<open>A write through an open descriptor at an offset is read back at that offset, and the file then
  covers the bytes written.\<close>

theorem inode_write_read_roundtrip:
  assumes "fs_wf fs" "i < MAX_INODES" "i_used (fs ! i)" "i_kind (fs ! i) = File"
    "inode_write i off data fs = (fs', n)" "0 < n"
  shows "inode_read fs' i off n = take n data \<and> off + n \<le> i_size (fs' ! i)"
  using inode_rw[OF assms] by simp

theorem inode_write_read_roundtrip_witness:
  "inode_read (fst (inode_write 1 2 [7, 8] (fst (ramfs_touch [slash, 0x61] 0 0 0 (init_root ramfs_new))))) 1 2 2 = [7, 8]"
proof -
  let ?f = "fst (ramfs_touch [slash, 0x61] 0 0 0 (init_root ramfs_new))"
  have "resolve_parent (init_root ramfs_new) [slash] 0 = Some 0"
    by (simp add: resolve_parent_def resolve_def trim_start_slash_def slash_def)
  then have f: "?f ! 1 = set_name [0x61] (inode_empty\<lparr>i_used := True, i_kind := File, i_parent := 0, i_uid := 0, i_gid := 0, i_mode := 0x1A4\<rparr>)"
    using root_fs_write(1,2) root_fs(2)
    by (simp add: ramfs_touch_def root_fs_alloc perm_def fill_inode_def MAX_INODES_def)
  have wf: "fs_wf ?f" by (rule ramfs_touch_wf) (simp_all add: root_fs(1))
  have fl: "i_used (?f ! 1)" "i_kind (?f ! 1) = File" unfolding f by (simp_all add: set_name_def Let_def)
  have "inode_write 1 2 [7, 8] ?f = (fst (inode_write 1 2 [7, 8] ?f), 2)"
    using fl by (simp add: inode_write_def MAX_DATA_def Let_def MAX_INODES_def)
  from inode_write_read_roundtrip[OF wf _ fl this] show ?thesis by (simp add: MAX_INODES_def)
qed

end
