(* ===== verification/Process.thy ===== *)
theory Process
  imports Ipc RamFs
begin

text \<open>
  \<^verbatim>\<open>kernel/src/process/mod.rs\<close>: signal masks, the per-task file descriptor table and the
  task record.  The operations that release pipe ends take the pipe pool and return it.
  The first section is the interface between descriptors and the pool: holding a descriptor is
  holding references to pipe ends, and opening, duplicating and closing whole tables adds and
  subtracts exactly the references that the table holds.
\<close>

section \<open>Reference-counted resources\<close>

locale handle_counts =
  fixes acquire :: "'h \<Rightarrow> 'p \<Rightarrow> 'p"
    and release :: "'h \<Rightarrow> 'p \<Rightarrow> 'p"
    and weight :: "'h \<Rightarrow> 'e \<Rightarrow> nat"
    and count :: "'p \<Rightarrow> 'e \<Rightarrow> nat"
    and limit :: nat
    and invar :: "'p \<Rightarrow> bool"
  assumes acquire_invar: "invar p \<Longrightarrow> invar (acquire h p)"
    and release_invar: "invar p \<Longrightarrow> invar (release h p)"
    and acquire_count: "invar p \<Longrightarrow> (\<And>e. weight h e \<noteq> 0 \<Longrightarrow> count p e \<noteq> 0) \<Longrightarrow>
      (\<And>e. count p e + weight h e \<le> limit) \<Longrightarrow> count (acquire h p) e = count p e + weight h e"
    and release_count: "invar p \<Longrightarrow> (\<And>e. weight h e \<le> count p e) \<Longrightarrow>
      count (release h p) e = count p e - weight h e"
begin

lemma release_all_aux:
  "invar p \<Longrightarrow> \<forall>e. (\<Sum>h\<leftarrow>hs. weight h e) \<le> count p e \<Longrightarrow>
   invar (fold release hs p) \<and> (\<forall>e. count (fold release hs p) e = count p e - (\<Sum>h\<leftarrow>hs. weight h e))"
proof (induction hs arbitrary: p)
  case (Cons h hs)
  have "weight h e \<le> count p e" for e using Cons.prems(2)[rule_format, of e] by simp
  then have c: "count (release h p) e = count p e - weight h e" for e
    using release_count[OF Cons.prems(1)] by blast
  have "(\<Sum>h\<leftarrow>hs. weight h e) \<le> count (release h p) e" for e
    using Cons.prems(2)[rule_format, of e] by (simp add: c)
  then show ?case using Cons.IH[of "release h p"] release_invar[OF Cons.prems(1)] by (simp add: c)
qed simp

lemma release_all:
  assumes "invar p" "\<And>e. (\<Sum>h\<leftarrow>hs. weight h e) \<le> count p e"
  shows "invar (fold release hs p)" "count (fold release hs p) e = count p e - (\<Sum>h\<leftarrow>hs. weight h e)"
  using release_all_aux[of p hs] assms by auto

lemma acquire_all_aux:
  "invar p \<Longrightarrow> \<forall>e. (\<Sum>h\<leftarrow>hs. weight h e) \<noteq> 0 \<longrightarrow> count p e \<noteq> 0 \<Longrightarrow>
   \<forall>e. count p e + (\<Sum>h\<leftarrow>hs. weight h e) \<le> limit \<Longrightarrow>
   invar (fold acquire hs p) \<and> (\<forall>e. count (fold acquire hs p) e = count p e + (\<Sum>h\<leftarrow>hs. weight h e))"
proof (induction hs arbitrary: p)
  case (Cons h hs)
  have c: "count (acquire h p) e = count p e + weight h e" for e
  proof (rule acquire_count[OF Cons.prems(1)])
    show "weight h e \<noteq> 0 \<Longrightarrow> count p e \<noteq> 0" for e using Cons.prems(2) by simp
    show "count p e + weight h e \<le> limit" for e using Cons.prems(3)[rule_format, of e] by simp
  qed
  have "\<forall>e. (\<Sum>h\<leftarrow>hs. weight h e) \<noteq> 0 \<longrightarrow> count (acquire h p) e \<noteq> 0"
    "\<forall>e. count (acquire h p) e + (\<Sum>h\<leftarrow>hs. weight h e) \<le> limit"
    using Cons.prems by (auto simp: c add.assoc)
  with Cons.IH[OF acquire_invar[OF Cons.prems(1)]] show ?case by (simp add: c add.assoc)
qed simp

lemma acquire_all:
  assumes "invar p" "\<And>e. (\<Sum>h\<leftarrow>hs. weight h e) \<noteq> 0 \<Longrightarrow> count p e \<noteq> 0"
    "\<And>e. count p e + (\<Sum>h\<leftarrow>hs. weight h e) \<le> limit"
  shows "invar (fold acquire hs p)" "count (fold acquire hs p) e = count p e + (\<Sum>h\<leftarrow>hs. weight h e)"
  using acquire_all_aux[of p hs] assms by auto

text \<open>Duplicating a whole table and closing the copy again restores every counter.\<close>

lemma acquire_release_all:
  assumes "invar p" "\<And>e. (\<Sum>h\<leftarrow>hs. weight h e) \<noteq> 0 \<Longrightarrow> count p e \<noteq> 0"
    "\<And>e. count p e + (\<Sum>h\<leftarrow>hs. weight h e) \<le> limit"
  shows "count (fold release hs (fold acquire hs p)) e = count p e"
  using acquire_all[OF assms] release_all[of "fold acquire hs p" hs] by simp

end

section \<open>Signals\<close>

definition SIGHUP :: u8 where "SIGHUP = 1"
definition SIGINT :: u8 where "SIGINT = 2"
definition SIGQUIT :: u8 where "SIGQUIT = 3"
definition SIGABRT :: u8 where "SIGABRT = 6"
definition SIGKILL :: u8 where "SIGKILL = 9"
definition SIGTERM :: u8 where "SIGTERM = 15"
definition SIGCHLD :: u8 where "SIGCHLD = 17"

lemmas signal_defs = SIGHUP_def SIGINT_def SIGQUIT_def SIGABRT_def SIGKILL_def SIGTERM_def SIGCHLD_def

definition sig_bit :: "u8 \<Rightarrow> u32" where
  "sig_bit sig = (if sig = 0 \<or> sig > 31 then 0 else push_bit (unat sig - 1) 1)"

section \<open>File descriptors\<close>

definition MAX_FDS :: nat where "MAX_FDS = 16"

datatype fd_entry =
    Empty
  | Stdin
  | Stdout
  | Stderr
  | VfsFile (vf_inode: nat) (vf_offset: u64) (vf_writable: bool)
  | VfsDir (vd_inode: nat) (vd_pos: nat)
  | PipeRead nat
  | PipeWrite nat
  | SocketPair nat nat
  | DevNull
  | DevZero
  | DevUrandom

type_synonym fd_table = "fd_entry list"

definition fdt_new :: fd_table where
  "fdt_new = (replicate MAX_FDS Empty)[0 := Stdin, 1 := Stdout, 2 := Stderr]"

definition fdt_alloc :: "fd_entry \<Rightarrow> fd_table \<Rightarrow> fd_table \<times> nat option" where
  "fdt_alloc entry t =
     (case scan (\<lambda>i. t ! i = Empty) 3 MAX_FDS of
        Some i \<Rightarrow> (t[i := entry], Some i)
      | None \<Rightarrow> (t, None))"

definition fdt_get :: "nat \<Rightarrow> fd_table \<Rightarrow> fd_entry option" where
  "fdt_get fd t =
     (if fd \<ge> MAX_FDS then None
      else if t ! fd = Empty then None else Some (t ! fd))"

definition fdt_set_offset :: "nat \<Rightarrow> u64 \<Rightarrow> fd_table \<Rightarrow> fd_table" where
  "fdt_set_offset fd new_offset t =
     (if fd < length t
      then (case t ! fd of VfsFile inode _ w \<Rightarrow> t[fd := VfsFile inode new_offset w] | _ \<Rightarrow> t)
      else t)"

definition fdt_set_dir_pos :: "nat \<Rightarrow> nat \<Rightarrow> fd_table \<Rightarrow> fd_table" where
  "fdt_set_dir_pos fd new_pos t =
     (if fd < length t
      then (case t ! fd of VfsDir inode _ \<Rightarrow> t[fd := VfsDir inode new_pos] | _ \<Rightarrow> t)
      else t)"

text \<open>The match that \<^verbatim>\<open>alloc_at\<close> and \<^verbatim>\<open>close_all\<close> share, and its counterpart in
  \<^verbatim>\<open>spawn_fork\<close>.\<close>

definition release_fd :: "fd_entry \<Rightarrow> pool \<Rightarrow> pool" where
  "release_fd e pool =
     (case e of
        PipeRead i \<Rightarrow> close_pipe_read i pool
      | PipeWrite i \<Rightarrow> close_pipe_write i pool
      | SocketPair r w \<Rightarrow> close_pipe_write w (close_pipe_read r pool)
      | _ \<Rightarrow> pool)"

definition inherit_fd :: "fd_entry \<Rightarrow> pool \<Rightarrow> pool" where
  "inherit_fd e pool =
     (case e of
        PipeRead i \<Rightarrow> dup_pipe_read i pool
      | PipeWrite i \<Rightarrow> dup_pipe_write i pool
      | SocketPair r w \<Rightarrow> dup_pipe_write w (dup_pipe_read r pool)
      | _ \<Rightarrow> pool)"

definition fdt_alloc_at :: "nat \<Rightarrow> fd_entry \<Rightarrow> fd_table \<Rightarrow> pool \<Rightarrow> fd_table \<times> pool \<times> nat option" where
  "fdt_alloc_at fd entry t pool =
     (if fd \<ge> MAX_FDS then (t, pool, None)
      else (t[fd := entry], release_fd (t ! fd) pool, Some fd))"

definition fdt_close :: "nat \<Rightarrow> fd_table \<Rightarrow> fd_table \<times> fd_entry option" where
  "fdt_close fd t =
     (if fd \<ge> MAX_FDS then (t, None)
      else if t ! fd = Empty then (t, None)
      else (t[fd := Empty], Some (t ! fd)))"

definition fdt_close_all :: "fd_table \<Rightarrow> pool \<Rightarrow> fd_table \<times> pool" where
  "fdt_close_all t pool =
     fold (\<lambda>i (t, pool). (t[i := Empty], release_fd (t ! i) pool)) [0..<MAX_FDS] (t, pool)"

section \<open>Tasks\<close>

datatype task_state = Ready | Running | Blocked | Zombie

record cpu_context =
  c_regs :: "u64 list"
  c_ip :: u64
  c_sp :: u64
  c_flags :: u64

definition context_zero :: cpu_context where
  "context_zero = \<lparr>c_regs = replicate 16 0, c_ip = 0, c_sp = 0, c_flags = 0\<rparr>"

record task =
  pid :: u64
  ppid :: u64
  t_state :: task_state
  t_context :: cpu_context
  kernel_sp :: u64
  stack_top :: u64
  exit_code :: u32
  is_user :: bool
  page_table_phys :: u64
  pending_signals :: u32
  waiting_for_pid :: u64
  heap_brk :: u64
  t_fds :: fd_table
  t_cwd :: nat
  t_fs_base :: u64

definition task_idle :: task where
  "task_idle =
     \<lparr>pid = 0, ppid = 0, t_state = Ready, t_context = context_zero,
      kernel_sp = 0, stack_top = 0, exit_code = 0, is_user = False, page_table_phys = 0,
      pending_signals = 0, waiting_for_pid = 0, heap_brk = 0, t_fds = fdt_new, t_cwd = 0, t_fs_base = 0\<rparr>"

text \<open>The three constructors take \<^verbatim>\<open>NEXT_PID\<close> and return its successor beside the task.\<close>

definition task_new :: "u64 \<Rightarrow> u64 \<Rightarrow> u64 \<Rightarrow> task \<times> u64" where
  "task_new ip sp next_pid =
     (\<lparr>pid = next_pid, ppid = 0, t_state = Ready, t_context = context_zero\<lparr>c_ip := ip, c_sp := sp\<rparr>,
       kernel_sp = 0, stack_top = 0, exit_code = 0, is_user = False, page_table_phys = 0,
       pending_signals = 0, waiting_for_pid = 0, heap_brk = 0, t_fds = fdt_new, t_cwd = 0, t_fs_base = 0\<rparr>,
      next_pid + 1)"

definition task_new_kernel :: "u64 \<Rightarrow> u64 \<Rightarrow> u64 \<Rightarrow> u64 \<Rightarrow> task \<times> u64" where
  "task_new_kernel ksp tos parent next_pid =
     (\<lparr>pid = next_pid, ppid = parent, t_state = Ready, t_context = context_zero,
       kernel_sp = ksp, stack_top = tos, exit_code = 0, is_user = False, page_table_phys = 0,
       pending_signals = 0, waiting_for_pid = 0, heap_brk = 0, t_fds = fdt_new, t_cwd = 0, t_fs_base = 0\<rparr>,
      next_pid + 1)"

definition task_new_user :: "u64 \<Rightarrow> u64 \<Rightarrow> u64 \<Rightarrow> u64 \<Rightarrow> u64 \<Rightarrow> task \<times> u64" where
  "task_new_user ksp tos pt parent next_pid =
     (\<lparr>pid = next_pid, ppid = parent, t_state = Ready, t_context = context_zero,
       kernel_sp = ksp, stack_top = tos, exit_code = 0, is_user = True, page_table_phys = pt,
       pending_signals = 0, waiting_for_pid = 0, heap_brk = 0, t_fds = fdt_new, t_cwd = 0, t_fs_base = 0\<rparr>,
      next_pid + 1)"

definition task_exit :: "u32 \<Rightarrow> task \<Rightarrow> pool \<Rightarrow> task \<times> pool" where
  "task_exit code t pool =
     (case fdt_close_all (t_fds t) pool of
        (fds, pool1) \<Rightarrow> (t\<lparr>t_fds := fds, exit_code := code, t_state := Zombie\<rparr>, pool1))"

definition raise_signal :: "u8 \<Rightarrow> task \<Rightarrow> task \<times> bool" where
  "raise_signal sig t =
     (if sig_bit sig = 0 then (t, False)
      else (t\<lparr>pending_signals := pending_signals t OR sig_bit sig\<rparr>, True))"

definition take_signal :: "u8 \<Rightarrow> task \<Rightarrow> task \<times> bool" where
  "take_signal sig t =
     (if pending_signals t AND sig_bit sig \<noteq> 0
      then (t\<lparr>pending_signals := pending_signals t AND NOT (sig_bit sig)\<rparr>, True)
      else (t, False))"

section \<open>The descriptor table\<close>

text \<open>Inode and pipe numbers held by descriptors are inside their tables.\<close>

fun fd_ok :: "fd_entry \<Rightarrow> bool" where
  "fd_ok (VfsFile i _ _) = (i < MAX_INODES)"
| "fd_ok (VfsDir i _) = (i < MAX_INODES)"
| "fd_ok (PipeRead i) = (i < MAX_PIPES)"
| "fd_ok (PipeWrite i) = (i < MAX_PIPES)"
| "fd_ok (SocketPair r w) = (r < MAX_PIPES \<and> w < MAX_PIPES)"
| "fd_ok _ = True"

definition fdt_wf :: "fd_table \<Rightarrow> bool" where
  "fdt_wf t \<longleftrightarrow> length t = MAX_FDS \<and> list_all fd_ok t"

lemma MAX_FDS_gt [simp]: "3 < MAX_FDS" "0 < MAX_FDS" "Suc 0 < MAX_FDS" "2 < MAX_FDS"
  by (simp_all add: MAX_FDS_def)

lemma fdt_wf_empty [simp]: "fdt_wf (replicate MAX_FDS Empty)"
  by (simp add: fdt_wf_def list_all_length)

lemma fdt_new_wf [wf_intros, simp]: "fdt_wf fdt_new"
proof -
  have "list_all fd_ok (replicate MAX_FDS Empty)" by (simp add: list_all_length)
  then show ?thesis unfolding fdt_wf_def fdt_new_def by (auto intro!: list_all_update)
qed

lemma fdt_get_ok: "fdt_wf t \<Longrightarrow> fdt_get fd t = Some e \<Longrightarrow> fd_ok e"
  by (auto simp: fdt_get_def fdt_wf_def list_all_length split: if_splits)

lemma fdt_alloc_Some:
  assumes "fdt_alloc entry t = (t', Some fd)"
  shows "3 \<le> fd" "fd < MAX_FDS" "t ! fd = Empty" "t' = t[fd := entry]"
    "\<And>j. 3 \<le> j \<Longrightarrow> j < fd \<Longrightarrow> t ! j \<noteq> Empty"
  using assms by (auto simp: fdt_alloc_def scan_Some split: option.splits)

lemma fdt_alloc_None:
  "fdt_alloc entry t = (t', None) \<longleftrightarrow> t' = t \<and> (\<forall>i. 3 \<le> i \<longrightarrow> i < MAX_FDS \<longrightarrow> t ! i \<noteq> Empty)"
  by (auto simp: fdt_alloc_def scan_None scan_Some split: option.splits)

lemma fdt_alloc_wf [wf_intros]: "fdt_wf t \<Longrightarrow> fd_ok e \<Longrightarrow> fdt_wf (fst (fdt_alloc e t))"
  by (simp add: fdt_alloc_def fdt_wf_def list_all_update split: option.splits)

lemma fdt_close_wf [wf_intros]: "fdt_wf t \<Longrightarrow> fdt_wf (fst (fdt_close fd t))"
  by (simp add: fdt_close_def fdt_wf_def list_all_update)

lemma fdt_alloc_at_wf [wf_intros]: "fdt_wf t \<Longrightarrow> fd_ok e \<Longrightarrow> fdt_wf (fst (fdt_alloc_at fd e t pool))"
  by (simp add: fdt_alloc_at_def fdt_wf_def list_all_update)

lemma fdt_set_wf [wf_intros]:
  assumes "fdt_wf t"
  shows "fdt_wf (fdt_set_offset fd off t)" "fdt_wf (fdt_set_dir_pos fd p t)"
proof -
  have "fd_ok (t ! fd)" if "fd < length t" using assms that by (simp add: fdt_wf_def list_all_length)
  with assms show "fdt_wf (fdt_set_offset fd off t)" "fdt_wf (fdt_set_dir_pos fd p t)"
    by (auto simp: fdt_set_offset_def fdt_set_dir_pos_def fdt_wf_def intro!: list_all_update split: fd_entry.splits)
qed

text \<open>The loop of \<^verbatim>\<open>close_all\<close> empties every slot and releases the entries in order.\<close>

lemma close_loop:
  "n \<le> length t \<Longrightarrow>
   fold (\<lambda>i (t, pool). (t[i := Empty], release_fd (t ! i) pool)) [0..<n] (t, pool) =
     (replicate n Empty @ drop n t, fold release_fd (take n t) pool)"
proof (induction n)
  case (Suc n)
  then have n: "n < length t" by simp
  then have "(replicate n Empty @ drop n t)[n := Empty] = replicate (Suc n) Empty @ drop (Suc n) t"
    by (simp add: list_update_append replicate_append_same[symmetric] Cons_nth_drop_Suc[symmetric])
  moreover have "(replicate n Empty @ drop n t) ! n = t ! n" using n by (simp add: nth_append)
  ultimately show ?case using Suc n by (simp add: take_Suc_conv_app_nth)
qed simp

lemma fdt_close_all_eq:
  "fdt_wf t \<Longrightarrow> fdt_close_all t pool = (replicate MAX_FDS Empty, fold release_fd t pool)"
  unfolding fdt_close_all_def fdt_wf_def using close_loop[of MAX_FDS t pool] by simp

section \<open>Descriptors as references to pipe ends\<close>

datatype pipe_end = REnd nat | WEnd nat

fun fd_weight :: "fd_entry \<Rightarrow> pipe_end \<Rightarrow> nat" where
  "fd_weight (PipeRead i) e = (if e = REnd i then 1 else 0)"
| "fd_weight (PipeWrite i) e = (if e = WEnd i then 1 else 0)"
| "fd_weight (SocketPair r w) e = (if e = REnd r \<or> e = WEnd w then 1 else 0)"
| "fd_weight _ e = 0"

fun end_count :: "pool \<Rightarrow> pipe_end \<Rightarrow> nat" where
  "end_count pool (REnd i) = (if i < MAX_PIPES then read_count (pool ! i) else 0)"
| "end_count pool (WEnd i) = (if i < MAX_PIPES then write_count (pool ! i) else 0)"

lemma end_count_close:
  assumes "pool_wf pool"
  shows "end_count (close_pipe_read i pool) e = end_count pool e - (if e = REnd i then 1 else 0)"
    and "end_count (close_pipe_write i pool) e = end_count pool e - (if e = WEnd i then 1 else 0)"
proof -
  have oob: "close_pipe_read i pool = pool" "close_pipe_write i pool = pool" if "\<not> i < MAX_PIPES"
    using that by (simp_all add: close_pipe_read_def close_pipe_write_def)
  show "end_count (close_pipe_read i pool) e = end_count pool e - (if e = REnd i then 1 else 0)"
    using close_pipe_counts[OF assms, of i] oob by (cases "i < MAX_PIPES"; cases e) auto
  show "end_count (close_pipe_write i pool) e = end_count pool e - (if e = WEnd i then 1 else 0)"
    using close_pipe_counts[OF assms, of i] oob by (cases "i < MAX_PIPES"; cases e) auto
qed

lemma end_count_dup:
  assumes "pool_wf pool"
  shows "end_count pool (REnd i) \<noteq> 0 \<Longrightarrow> end_count pool (REnd i) < 255 \<Longrightarrow>
      end_count (dup_pipe_read i pool) e = end_count pool e + (if e = REnd i then 1 else 0)"
    and "end_count pool (WEnd i) \<noteq> 0 \<Longrightarrow> end_count pool (WEnd i) < 255 \<Longrightarrow>
      end_count (dup_pipe_write i pool) e = end_count pool e + (if e = WEnd i then 1 else 0)"
  using dup_pipe_counts[OF assms, of i] by (cases e; auto split: if_splits)+

lemma release_fd_wf [wf_intros]: "pool_wf pool \<Longrightarrow> pool_wf (release_fd e pool)"
  by (simp add: release_fd_def close_pipe_read_wf close_pipe_write_wf split: fd_entry.split)

lemma inherit_fd_wf [wf_intros]: "pool_wf pool \<Longrightarrow> pool_wf (inherit_fd e pool)"
  by (simp add: inherit_fd_def dup_pipe_read_wf dup_pipe_write_wf split: fd_entry.split)

interpretation fds: handle_counts inherit_fd release_fd fd_weight end_count 255 pool_wf
proof unfold_locales
  fix p h e assume p: "pool_wf p"
  show "pool_wf (inherit_fd h p)" using p by (rule inherit_fd_wf)
  show "pool_wf (release_fd h p)" using p by (rule release_fd_wf)
  show "end_count (release_fd h p) e = end_count p e - fd_weight h e"
    using p by (cases h) (auto simp: release_fd_def end_count_close close_pipe_read_wf)
  assume pos: "\<And>e. fd_weight h e \<noteq> 0 \<Longrightarrow> end_count p e \<noteq> 0"
    and cap: "\<And>e. end_count p e + fd_weight h e \<le> 255"
  have less: "fd_weight h e \<noteq> 0 \<Longrightarrow> end_count p e < 255" for e using cap[of e] by simp
  show "end_count (inherit_fd h p) e = end_count p e + fd_weight h e"
  proof (cases h)
    case (SocketPair r w)
    have "end_count (dup_pipe_read r p) (WEnd w) = end_count p (WEnd w)"
      using end_count_dup(1)[OF p, of r "WEnd w"] pos[of "REnd r"] less[of "REnd r"] SocketPair by simp
    with SocketPair p pos[of "REnd r"] pos[of "WEnd w"] less[of "REnd r"] less[of "WEnd w"] show ?thesis
      by (auto simp: inherit_fd_def end_count_dup dup_pipe_read_wf)
  next
    case (PipeRead i)
    with p pos[of "REnd i"] less[of "REnd i"] show ?thesis by (simp add: inherit_fd_def end_count_dup)
  next
    case (PipeWrite i)
    with p pos[of "WEnd i"] less[of "WEnd i"] show ?thesis by (simp add: inherit_fd_def end_count_dup)
  qed (simp_all add: inherit_fd_def)
qed

section \<open>Signals and exit\<close>

lemma bit_sig_bit: "bit (sig_bit s) n \<longleftrightarrow> s \<noteq> 0 \<and> s \<le> 31 \<and> n = unat s - 1"
proof (cases "s = 0 \<or> 31 < s")
  case False
  then have "0 < unat s" "unat s \<le> 31" by (auto simp: word_less_nat_alt unat_gt_0 not_less)
  with False show ?thesis by (auto simp: sig_bit_def bit_simps)
qed (auto simp: sig_bit_def)

lemma sig_bit_and_0: "x AND sig_bit s = 0 \<longleftrightarrow> \<not> (s \<noteq> 0 \<and> s \<le> 31 \<and> bit x (unat s - 1))"
  for x :: u32
proof -
  have "n < 32" if "bit x n" for n using bit_imp_le_length[OF that] by simp
  then have "x AND sig_bit s = 0 \<longleftrightarrow> (\<forall>n. \<not> (bit x n \<and> bit (sig_bit s) n))"
    by (auto simp: bit_eq_iff bit_and_iff)
  then show ?thesis by (simp add: bit_sig_bit) blast
qed

definition pending :: "task \<Rightarrow> u8 \<Rightarrow> bool" where
  "pending t s \<longleftrightarrow> pending_signals t AND sig_bit s \<noteq> 0"

lemma pending_raise:
  assumes "s \<noteq> 0" "s \<le> 31"
  shows "pending (fst (raise_signal s t)) s' \<longleftrightarrow> pending t s' \<or> s' = s"
proof -
  have n: "sig_bit s \<noteq> 0" using bit_sig_bit[of s "unat s - 1"] assms by force
  have inj: "unat s' - 1 = unat s - 1 \<longleftrightarrow> s' = s" if "s' \<noteq> 0"
    using that assms by (metis One_nat_def Suc_pred unat_gt_0 word_unat_eq_iff)
  from n inj assms show ?thesis
    by (auto simp: pending_def raise_signal_def sig_bit_and_0 bit_or_iff bit_sig_bit)
qed

lemma take_signal_result: "snd (take_signal s t) \<longleftrightarrow> pending t s"
  by (simp add: take_signal_def pending_def)

lemma pending_take: "pending (fst (take_signal s t)) s' \<longleftrightarrow> pending t s' \<and> s' \<noteq> s"
proof -
  have inj: "s' = s \<longleftrightarrow> unat s' - 1 = unat s - 1" if "s \<noteq> 0" "s' \<noteq> 0"
    using that by (metis One_nat_def Suc_pred unat_gt_0 word_unat_eq_iff)
  show ?thesis
    by (auto simp: pending_def take_signal_def sig_bit_and_0 bit_and_iff bit_not_iff bit_sig_bit inj
        dest: bit_imp_le_length)
qed

lemma signal_frame [simp, frame_simps]:
  "pid (fst (raise_signal s t)) = pid t" "t_state (fst (raise_signal s t)) = t_state t"
  "ppid (fst (raise_signal s t)) = ppid t" "t_fds (fst (raise_signal s t)) = t_fds t"
  "pid (fst (take_signal s t)) = pid t" "t_state (fst (take_signal s t)) = t_state t"
  "ppid (fst (take_signal s t)) = ppid t" "t_fds (fst (take_signal s t)) = t_fds t"
  by (simp_all add: raise_signal_def take_signal_def)

lemma task_exit_effect:
  assumes "fdt_wf (t_fds t)"
  shows "t_state (fst (task_exit c t pool)) = Zombie" "exit_code (fst (task_exit c t pool)) = c"
    "t_fds (fst (task_exit c t pool)) = replicate MAX_FDS Empty"
    "snd (task_exit c t pool) = fold release_fd (t_fds t) pool"
    "pid (fst (task_exit c t pool)) = pid t" "ppid (fst (task_exit c t pool)) = ppid t"
  using assms by (simp_all add: task_exit_def fdt_close_all_eq)

section \<open>Properties\<close>

text \<open>Raising a signal makes that signal pending and no other; taking a signal reports whether it was
  pending and clears that signal only.\<close>

theorem signals_independent:
  assumes "s \<noteq> 0" "s \<le> 31"
  shows "(pending (fst (raise_signal s t)) s' \<longleftrightarrow> pending t s' \<or> s' = s)
    \<and> (snd (take_signal s t) \<longleftrightarrow> pending t s) \<and> (pending (fst (take_signal s t)) s' \<longleftrightarrow> pending t s' \<and> s' \<noteq> s)"
  using pending_raise[OF assms] pending_take[of s t] by (simp add: take_signal_def pending_def)

theorem signals_independent_witness:
  "pending (fst (raise_signal SIGTERM task_idle)) SIGTERM \<and> snd (take_signal SIGTERM (fst (raise_signal SIGTERM task_idle)))"
  using signals_independent[of SIGTERM task_idle SIGTERM] signals_independent[of SIGTERM "fst (raise_signal SIGTERM task_idle)"]
  by (simp add: SIGTERM_def)

text \<open>A child that inherits a descriptor table and exits gives back every pipe reference it took: the
  counters of all pipe ends are what they were before the fork, as long as no counter overflows.\<close>

theorem fork_exit_refcounts:
  assumes "pool_wf p" "\<And>e. (\<Sum>fd\<leftarrow>fds. fd_weight fd e) \<noteq> 0 \<Longrightarrow> end_count p e \<noteq> 0"
    "\<And>e. end_count p e + (\<Sum>fd\<leftarrow>fds. fd_weight fd e) \<le> 255"
  shows "end_count (fold release_fd fds (fold inherit_fd fds p)) e = end_count p e"
  using assms by (rule fds.acquire_release_all)

theorem fork_exit_refcounts_witness:
  "end_count (fold release_fd [PipeRead 0, Stdin, PipeWrite 0] (fold inherit_fd [PipeRead 0, Stdin, PipeWrite 0] (fst (alloc_pipe pool_init)))) (REnd 0) = 1"
proof -
  have a: "alloc_pipe pool_init = (fst (alloc_pipe pool_init), Some 0)"
    by (simp add: alloc_pipe_def pool_init_def pipe_slot_new_def MAX_PIPES_def scan_def upt_rec numeral_eq_Suc)
  note A = alloc_pipe_Some[OF pool_init_wf a]
  have c: "end_count (fst (alloc_pipe pool_init)) e = (if e = REnd 0 \<or> e = WEnd 0 then 1 else 0)" for e
  proof (cases e)
    case (REnd i)
    then show ?thesis using A(1,5) A(7)[of i] by (cases "i = 0") (auto simp: pool_init_def pipe_slot_new_def)
  next
    case (WEnd i)
    then show ?thesis using A(1,6) A(7)[of i] by (cases "i = 0") (auto simp: pool_init_def pipe_slot_new_def)
  qed
  have "end_count (fold release_fd [PipeRead 0, Stdin, PipeWrite 0] (fold inherit_fd [PipeRead 0, Stdin, PipeWrite 0]
      (fst (alloc_pipe pool_init)))) (REnd 0) = end_count (fst (alloc_pipe pool_init)) (REnd 0)"
    by (rule fork_exit_refcounts) (auto simp: c alloc_pipe_wf split: if_splits)
  then show ?thesis unfolding c by simp
qed

end
