(* ===== verification/Fs.thy ===== *)
theory Fs
  imports RamFs
begin

text \<open>
  \<^verbatim>\<open>kernel/src/fs/mod.rs\<close> and the trait of \<^verbatim>\<open>kernel/src/vfs/mod.rs\<close>: the global file
  system behind its interface.  The trait is a locale: what the rest of the kernel may rely on
  is that every call keeps the structural invariant and that a refused call changes nothing.
  The calls that change the file system are collected in one datatype, so that a history of
  the file system is a list of calls.
\<close>

section \<open>The trait\<close>

locale file_system =
  fixes exec :: "'op \<Rightarrow> 'fs \<Rightarrow> 'fs \<times> bool"
    and valid_op :: "'op \<Rightarrow> bool"
    and invar :: "'fs \<Rightarrow> bool"
  assumes exec_invar: "valid_op op \<Longrightarrow> invar fs \<Longrightarrow> invar (fst (exec op fs))"
    and exec_refused: "\<not> snd (exec op fs) \<Longrightarrow> fst (exec op fs) = fs"
begin

definition run :: "'op list \<Rightarrow> 'fs \<Rightarrow> 'fs" where
  "run ops fs = fold (\<lambda>op. fst \<circ> exec op) ops fs"

lemma run_invar: "list_all valid_op ops \<Longrightarrow> invar fs \<Longrightarrow> invar (run ops fs)"
  unfolding run_def by (induction ops arbitrary: fs) (auto simp: exec_invar)

text \<open>Only the accepted calls matter.\<close>

lemma run_accepted:
  "run (op # ops) fs = (if snd (exec op fs) then run ops (fst (exec op fs)) else run ops fs)"
  by (simp add: run_def exec_refused)

end

section \<open>The calls\<close>

datatype fs_call =
    WriteFile bytes nat bytes u16 u16
  | Mkdir bytes nat u16 u16 u16
  | Rmdir bytes nat u16 u16
  | Touch bytes nat u16 u16
  | Unlink bytes nat u16 u16
  | Rename bytes bytes nat u16 u16
  | Chmod bytes nat u16 u16
  | Chown bytes nat u16 u16 u16

fun fs_exec :: "fs_call \<Rightarrow> ramfs \<Rightarrow> ramfs \<times> bool" where
  "fs_exec (WriteFile path cwd data uid gid) fs = ramfs_write path cwd data uid gid fs"
| "fs_exec (Mkdir path cwd uid gid mode) fs = ramfs_mkdir path cwd uid gid mode fs"
| "fs_exec (Rmdir path cwd uid gid) fs = ramfs_rmdir path cwd uid gid fs"
| "fs_exec (Touch path cwd uid gid) fs = ramfs_touch path cwd uid gid fs"
| "fs_exec (Unlink path cwd uid gid) fs = ramfs_unlink path cwd uid gid fs"
| "fs_exec (Rename src dst cwd uid gid) fs = ramfs_rename src dst cwd uid gid fs"
| "fs_exec (Chmod path cwd mode caller_uid) fs = ramfs_chmod path cwd mode caller_uid fs"
| "fs_exec (Chown path cwd nu ng caller_uid) fs = ramfs_chown path cwd nu ng caller_uid fs"

fun call_cwd :: "fs_call \<Rightarrow> nat" where
  "call_cwd (WriteFile _ cwd _ _ _) = cwd"
| "call_cwd (Mkdir _ cwd _ _ _) = cwd"
| "call_cwd (Rmdir _ cwd _ _) = cwd"
| "call_cwd (Touch _ cwd _ _) = cwd"
| "call_cwd (Unlink _ cwd _ _) = cwd"
| "call_cwd (Rename _ _ cwd _ _) = cwd"
| "call_cwd (Chmod _ cwd _ _) = cwd"
| "call_cwd (Chown _ cwd _ _ _) = cwd"

text \<open>\<^verbatim>\<open>fs::init\<close>; the program image installed as \<^verbatim>\<open>/bin/hello\<close> is the argument.\<close>

definition fs_init :: "bytes \<Rightarrow> ramfs \<Rightarrow> ramfs" where
  "fs_init hello fs =
     fold (\<lambda>c. fst \<circ> fs_exec c)
       [Mkdir (ascii ''/etc'') 0 0 0 0x1ED,
        Mkdir (ascii ''/home'') 0 0 0 0x1ED,
        Mkdir (ascii ''/tmp'') 0 0 0 0x1FF,
        WriteFile (ascii ''/etc/hostname'') 0 (ascii ''ferrugem'' @ [0x0A]) 0 0,
        WriteFile (ascii ''/etc/motd'') 0 (ascii ''Welcome to Ferrugem!'' @ [0x0A]) 0 0,
        Mkdir (ascii ''/home/ferrugem'') 0 1000 1000 0x1ED,
        Mkdir (ascii ''/bin'') 0 0 0 0x1ED,
        WriteFile (ascii ''/bin/hello'') 0 hello 0 0]
       (init_root fs)"

definition fs_write :: "bytes \<Rightarrow> bytes \<Rightarrow> ramfs \<Rightarrow> ramfs \<times> bool" where
  "fs_write path data fs = ramfs_write path 0 data 0 0 fs"

definition fs_read :: "ramfs \<Rightarrow> bytes \<Rightarrow> bytes option" where
  "fs_read fs path = read_at fs path 0 0 0"

text \<open>The closures of the stat functions receive the inode; the model returns it.\<close>

definition stat_at :: "ramfs \<Rightarrow> bytes \<Rightarrow> nat \<Rightarrow> inode option" where
  "stat_at fs path cwd =
     (case resolve fs path cwd of None \<Rightarrow> None | Some idx \<Rightarrow> get_inode fs idx)"

definition stat_inode_by_idx :: "ramfs \<Rightarrow> nat \<Rightarrow> inode option" where
  "stat_inode_by_idx fs idx = get_inode fs idx"

definition open_dir :: "ramfs \<Rightarrow> bytes \<Rightarrow> nat \<Rightarrow> nat option" where
  "open_dir fs path cwd = (if is_dir fs path cwd = Some True then resolve fs path cwd else None)"

definition inode_size :: "ramfs \<Rightarrow> nat \<Rightarrow> nat" where
  "inode_size fs idx = (case get_inode fs idx of Some n \<Rightarrow> i_size n | None \<Rightarrow> 0)"

section \<open>The RAM file system implements the trait\<close>

lemma fs_exec_wf [wf_intros]: "fs_wf fs \<Longrightarrow> call_cwd c < MAX_INODES \<Longrightarrow> fs_wf (fst (fs_exec c fs))"
  by (cases c) (simp_all add: ramfs_write_wf ramfs_mkdir_wf ramfs_rmdir_wf ramfs_touch_wf ramfs_unlink_wf
      ramfs_rename_wf ramfs_chmod_wf ramfs_chown_wf)

lemma fs_exec_refused: "\<not> snd (fs_exec c fs) \<Longrightarrow> fst (fs_exec c fs) = fs"
  by (cases c) (metis fs_exec.simps prod.collapse refused_unchanged)+

interpretation ramfs: file_system fs_exec "\<lambda>c. call_cwd c < MAX_INODES" fs_wf
  by unfold_locales (auto intro: fs_exec_wf fs_exec_refused)

lemma fs_init_wf [wf_intros]: "fs_wf (fs_init hello ramfs_new)"
  unfolding fs_init_def ramfs.run_def[symmetric] by (rule ramfs.run_invar) (simp_all add: init_root_wf)

lemma open_dir_Some:
  assumes "fs_wf fs" "cwd < MAX_INODES" "open_dir fs path cwd = Some d"
  shows "d < MAX_INODES" "i_kind (fs ! d) = Dir"
  using assms resolve_bound by (auto simp: open_dir_def is_dir_def split: if_splits)

section \<open>Properties\<close>



text \<open>A call that the file system refuses leaves it exactly as it was, so a history is equivalent to
  the sequence of its accepted calls.\<close>

theorem refused_calls_skipped:
  "fold (\<lambda>c. fst \<circ> fs_exec c) (c # calls) fs =
    (if snd (fs_exec c fs) then fold (\<lambda>c. fst \<circ> fs_exec c) calls (fst (fs_exec c fs))
     else fold (\<lambda>c. fst \<circ> fs_exec c) calls fs)"
  by (rule ramfs.run_accepted[unfolded ramfs.run_def])

end
