(* ===== verification/MemMap.thy ===== *)
theory MemMap
  imports Prelude
begin

text \<open>
  \<^verbatim>\<open>kernel/src/memory/mmap.rs\<close>: the architecture-neutral physical memory map that the
  boot-loader parsers fill in, and the choice of the region the frame allocator manages.
\<close>

definition MAX_REGIONS :: nat where
  "MAX_REGIONS = 32"

datatype region_kind = Usable | Reserved

record memory_region =
  mr_base :: nat
  mr_size :: nat
  mr_kind :: region_kind

record memory_map =
  mm_regions :: "memory_region list"
  mm_count :: nat

definition region_zero :: memory_region where
  "region_zero = \<lparr>mr_base = 0, mr_size = 0, mr_kind = Reserved\<rparr>"

definition usize_max :: nat where
  "usize_max = 2 ^ 64 - 1"

text \<open>\<^verbatim>\<open>end\<close> uses \<^verbatim>\<open>saturating_add\<close>.\<close>

definition region_end :: "memory_region \<Rightarrow> nat" where
  "region_end r = min (mr_base r + mr_size r) usize_max"

definition mmap_empty :: memory_map where
  "mmap_empty = \<lparr>mm_regions = replicate MAX_REGIONS region_zero, mm_count = 0\<rparr>"

definition mmap_add :: "nat \<Rightarrow> nat \<Rightarrow> region_kind \<Rightarrow> memory_map \<Rightarrow> memory_map" where
  "mmap_add base sz kind m =
     (if sz > 0 \<and> mm_count m < MAX_REGIONS
      then m\<lparr>mm_regions := (mm_regions m)[mm_count m := \<lparr>mr_base = base, mr_size = sz, mr_kind = kind\<rparr>],
             mm_count := mm_count m + 1\<rparr>
      else m)"

definition mmap_iter :: "memory_map \<Rightarrow> memory_region list" where
  "mmap_iter m = take (mm_count m) (mm_regions m)"

text \<open>The body of the loop of \<^verbatim>\<open>largest_usable\<close>: \<open>best\<close> is the local variable.\<close>

definition largest_step :: "nat \<Rightarrow> memory_region \<Rightarrow> memory_region option \<Rightarrow> memory_region option" where
  "largest_step min_base r best =
     (if mr_kind r \<noteq> Usable then best
      else let base = (if mr_base r < min_base then min_base else mr_base r) in
        if base \<ge> region_end r then best
        else let sz = region_end r - base;
                 trimmed = \<lparr>mr_base = base, mr_size = sz, mr_kind = Usable\<rparr>
             in (case best of
                   None \<Rightarrow> Some trimmed
                 | Some b \<Rightarrow> if sz > mr_size b then Some trimmed else best))"

definition largest_usable :: "memory_map \<Rightarrow> nat \<Rightarrow> memory_region option" where
  "largest_usable m min_base = fold (largest_step min_base) (mmap_iter m) None"

section \<open>Well-formed maps\<close>

definition mmap_wf :: "memory_map \<Rightarrow> bool" where
  "mmap_wf m \<longleftrightarrow> length (mm_regions m) = MAX_REGIONS \<and> mm_count m \<le> MAX_REGIONS"

lemma mmap_empty_wf [wf_intros]: "mmap_wf mmap_empty"
  by (simp add: mmap_wf_def mmap_empty_def)

lemma mmap_add_wf [wf_intros]: "mmap_wf m \<Longrightarrow> mmap_wf (mmap_add base sz kind m)"
  by (simp add: mmap_wf_def mmap_add_def)

lemma mmap_iter_add:
  assumes "mmap_wf m"
  shows "mmap_iter (mmap_add base sz kind m) =
    (if sz > 0 \<and> mm_count m < MAX_REGIONS
     then mmap_iter m @ [\<lparr>mr_base = base, mr_size = sz, mr_kind = kind\<rparr>] else mmap_iter m)"
  using assms by (auto simp: mmap_iter_def mmap_add_def mmap_wf_def take_Suc_conv_app_nth)

section \<open>The largest usable region\<close>

text \<open>The part of a usable region at or above \<open>min_base\<close> is \<open>{max base min_base ..< end}\<close>;
  \<open>usable_size\<close> is its length.\<close>

definition usable_size :: "nat \<Rightarrow> memory_region \<Rightarrow> nat" where
  "usable_size min_base r = (if mr_kind r = Usable then region_end r - max (mr_base r) min_base else 0)"

definition best_of :: "nat \<Rightarrow> memory_region list \<Rightarrow> memory_region option \<Rightarrow> bool" where
  "best_of min_base rs best \<longleftrightarrow>
     (case best of
        None \<Rightarrow> \<forall>r \<in> set rs. usable_size min_base r = 0
      | Some b \<Rightarrow> mr_kind b = Usable \<and> 0 < mr_size b \<and> min_base \<le> mr_base b
          \<and> (\<exists>r \<in> set rs. mr_kind r = Usable \<and> mr_base r \<le> mr_base b \<and> mr_base b + mr_size b = region_end r)
          \<and> (\<forall>r \<in> set rs. usable_size min_base r \<le> mr_size b))"

lemma largest_step_best_of:
  "best_of min_base rs best \<Longrightarrow> best_of min_base (rs @ [r]) (largest_step min_base r best)"
  by (cases best)
     (auto simp: best_of_def largest_step_def usable_size_def Let_def max_def not_less not_le
        split: if_splits)

lemma fold_largest_best_of:
  "best_of min_base done_rs best \<Longrightarrow> best_of min_base (done_rs @ rs) (fold (largest_step min_base) rs best)"
proof (induction rs arbitrary: done_rs best)
  case (Cons r rs)
  from Cons.IH[OF largest_step_best_of[OF Cons.prems, of r]] show ?case by simp
qed simp

lemma largest_usable_best_of: "best_of min_base (mmap_iter m) (largest_usable m min_base)"
  using fold_largest_best_of[of min_base "[]" None "mmap_iter m"]
  by (simp add: largest_usable_def best_of_def)

section \<open>Properties\<close>

text \<open>\<^verbatim>\<open>largest_usable\<close> returns a usable range at or above the base it was given that lies inside one
  recorded region and is at least as long as the usable part of every recorded region; it returns
  nothing exactly when no region has a usable part there.\<close>

theorem largest_usable_largest:
  "case largest_usable m min_base of
     None \<Rightarrow> \<forall>r \<in> set (mmap_iter m). usable_size min_base r = 0
   | Some b \<Rightarrow> mr_kind b = Usable \<and> 0 < mr_size b \<and> min_base \<le> mr_base b
       \<and> (\<exists>r \<in> set (mmap_iter m). mr_kind r = Usable \<and> mr_base r \<le> mr_base b \<and> mr_base b + mr_size b = region_end r)
       \<and> (\<forall>r \<in> set (mmap_iter m). usable_size min_base r \<le> mr_size b)"
  using largest_usable_best_of[of min_base m] by (simp add: best_of_def)

theorem largest_usable_largest_witness:
  "largest_usable (mmap_add 0x100000 0x7F00000 Usable (mmap_add 0 0x9F000 Usable mmap_empty)) 0x100000
     = Some \<lparr>mr_base = 0x100000, mr_size = 0x7F00000, mr_kind = Usable\<rparr>
   \<and> list_all (\<lambda>r. usable_size 0x100000 r \<le> 0x7F00000)
        (mmap_iter (mmap_add 0x100000 0x7F00000 Usable (mmap_add 0 0x9F000 Usable mmap_empty)))"
proof -
  let ?m = "mmap_add 0x100000 0x7F00000 Usable (mmap_add 0 0x9F000 Usable mmap_empty)"
  have "mmap_iter ?m = [\<lparr>mr_base = 0, mr_size = 0x9F000, mr_kind = Usable\<rparr>,
      \<lparr>mr_base = 0x100000, mr_size = 0x7F00000, mr_kind = Usable\<rparr>]"
    by (simp add: mmap_iter_add mmap_add_wf mmap_empty_wf)
       (simp add: mmap_iter_def mmap_empty_def mmap_add_def MAX_REGIONS_def)
  then have "largest_usable ?m 0x100000 = Some \<lparr>mr_base = 0x100000, mr_size = 0x7F00000, mr_kind = Usable\<rparr>"
    by (simp add: largest_usable_def largest_step_def region_end_def usize_max_def)
  with largest_usable_largest[where m = ?m and min_base = "0x100000"] show ?thesis by (simp add: list_all_iff)
qed

end
