(* ===== verification/Bitmap.thy ===== *)
theory Bitmap
  imports MemMap
begin

text \<open>
  \<^verbatim>\<open>kernel/src/memory/bitmap.rs\<close>: the physical frame allocator.  The statics
  \<^verbatim>\<open>BITMAP\<close>, \<^verbatim>\<open>MEM_BASE\<close>, \<^verbatim>\<open>TOTAL_FRAMES\<close> and \<^verbatim>\<open>FREE_FRAMES\<close> form the record;
  the bitmap keeps its 64-bit words, so the word-skipping search is the code's own.  The main
  results: the search is first fit (equivalent to a bit-by-bit reference), an allocation
  claims exactly the returned run of free frames, freeing it undoes that, and
  \<^verbatim>\<open>FREE_FRAMES\<close> always counts the clear bits.
\<close>

definition MAX_FRAMES :: nat where
  "MAX_FRAMES = 2 ^ 20"

record pmm =
  bitmap :: "u64 list"
  mem_base :: nat
  total_frames :: nat
  free_frames_n :: nat

text \<open>The state of the statics before initialisation.\<close>

definition pmm_bss :: pmm where
  "pmm_bss = \<lparr>bitmap = replicate (MAX_FRAMES div 64) 0, mem_base = 0, total_frames = 0, free_frames_n = 0\<rparr>"

text \<open>The test \<^verbatim>\<open>BITMAP[w] & (1 << b) == 0\<close>.\<close>

definition frame_clear :: "u64 list \<Rightarrow> nat \<Rightarrow> bool" where
  "frame_clear bm f \<longleftrightarrow> bm ! (f div 64) AND push_bit (f mod 64) 1 = 0"

definition mark_used :: "nat \<Rightarrow> pmm \<Rightarrow> pmm" where
  "mark_used frame s =
     (let w = frame div 64; b = frame mod 64 in
      if bitmap s ! w AND push_bit b 1 = 0
      then s\<lparr>bitmap := (bitmap s)[w := bitmap s ! w OR push_bit b 1],
             free_frames_n := free_frames_n s - 1\<rparr>
      else s)"

lemma less_next_word: "f < (f div 64 + 1) * (64::nat)"
  using dividend_less_div_times[of 64 f] by simp

text \<open>The search loop of \<^verbatim>\<open>alloc_frames\<close>; its locals are \<^verbatim>\<open>run_start\<close>,
  \<^verbatim>\<open>run_len\<close> and \<^verbatim>\<open>f\<close>.\<close>

function alloc_scan :: "u64 list \<Rightarrow> nat \<Rightarrow> nat \<Rightarrow> nat \<Rightarrow> nat \<Rightarrow> nat \<Rightarrow> nat option" where
  "alloc_scan bm tot n run_start run_len f =
     (if f < tot then
        let word = f div 64 in
        if bm ! word = - 1 then
          let run_start = (word + 1) * 64 in alloc_scan bm tot n run_start 0 run_start
        else if bm ! word AND push_bit (f mod 64) 1 = 0 then
          let run_start = (if run_len = 0 then f else run_start); run_len = run_len + 1 in
          if run_len = n then Some run_start
          else alloc_scan bm tot n run_start run_len (f + 1)
        else alloc_scan bm tot n run_start 0 (f + 1)
      else None)"
  by pat_completeness auto
termination
proof (relation "measure (\<lambda>(bm, tot, n, rs, rl, f). tot - f)", goal_cases)
  case (2 bm tot n rs rl f word rs')
  with less_next_word[of f] show ?case by simp
qed auto

declare alloc_scan.simps [simp del]

definition alloc_frames :: "nat \<Rightarrow> pmm \<Rightarrow> pmm \<times> nat option" where
  "alloc_frames n s =
     (if n = 0 then (s, Some 0)
      else case alloc_scan (bitmap s) (total_frames s) n 0 0 0 of
        Some run_start \<Rightarrow> (fold (\<lambda>i. mark_used (run_start + i)) [0..<n] s, Some run_start)
      | None \<Rightarrow> (s, None))"

definition alloc_frame :: "pmm \<Rightarrow> pmm \<times> nat option" where
  "alloc_frame s = alloc_frames 1 s"

text \<open>The body of the loop of \<^verbatim>\<open>free_frames\<close>.\<close>

definition free_one :: "nat \<Rightarrow> pmm \<Rightarrow> pmm" where
  "free_one f s =
     (if f < total_frames s then
        let w = f div 64; b = f mod 64 in
        if bitmap s ! w AND push_bit b 1 \<noteq> 0
        then s\<lparr>bitmap := (bitmap s)[w := bitmap s ! w AND NOT (push_bit b 1)],
               free_frames_n := free_frames_n s + 1\<rparr>
        else s
      else s)"

definition free_frames :: "nat \<Rightarrow> nat \<Rightarrow> pmm \<Rightarrow> pmm" where
  "free_frames first n s = fold (\<lambda>i. free_one (first + i)) [0..<n] s"

definition free_frame :: "nat \<Rightarrow> pmm \<Rightarrow> pmm" where
  "free_frame frame s = free_frames frame 1 s"

definition frame_to_addr :: "pmm \<Rightarrow> nat \<Rightarrow> nat" where
  "frame_to_addr s frame = mem_base s + frame * 4096"

text \<open>\<^verbatim>\<open>addr - MEM_BASE\<close> on \<^verbatim>\<open>usize\<close>, which wraps in the release build when the address
  lies below the base.\<close>

definition addr_to_frame :: "pmm \<Rightarrow> nat \<Rightarrow> nat" where
  "addr_to_frame s addr = ((addr + 2 ^ 64 - mem_base s) mod 2 ^ 64) div 4096"

definition free_count :: "pmm \<Rightarrow> nat" where
  "free_count s = free_frames_n s"

definition total_count :: "pmm \<Rightarrow> nat" where
  "total_count s = total_frames s"

section \<open>Initialisation\<close>

text \<open>The conditional compilation on the target; the constants of the selected aarch64 board
  are arguments of its constructor.\<close>

datatype target = X86_64 | Riscv64 | Aarch64 (board_ram_base: nat) (board_ram_fallback_size: nat)

definition pmm_min_base :: "target \<Rightarrow> nat" where
  "pmm_min_base t = (case t of X86_64 \<Rightarrow> 0x100000 | Riscv64 \<Rightarrow> 0x80000000 | Aarch64 base _ \<Rightarrow> base)"

definition init_fallback :: "target \<Rightarrow> pmm \<Rightarrow> pmm" where
  "init_fallback t s =
     (let tot = (case t of X86_64 \<Rightarrow> (127 * 1024 * 1024) div 4096
                  | Riscv64 \<Rightarrow> (128 * 1024 * 1024) div 4096
                  | Aarch64 _ sz \<Rightarrow> sz div 4096)
      in s\<lparr>mem_base := pmm_min_base t, total_frames := tot, free_frames_n := tot\<rparr>)"

definition init_from_mmap :: "target \<Rightarrow> nat \<Rightarrow> memory_map \<Rightarrow> pmm \<Rightarrow> pmm" where
  "init_from_mmap t kend m s =
     (case largest_usable m (pmm_min_base t) of
        None \<Rightarrow> init_fallback t s
      | Some region \<Rightarrow>
          let frames = min (mr_size region div 4096) MAX_FRAMES;
              s1 = s\<lparr>mem_base := mr_base region, total_frames := frames, free_frames_n := frames\<rparr>
          in if kend > mr_base region
             then let used = min ((kend - mr_base region + 4095) div 4096) frames
                  in fold mark_used [0..<used] s1
             else s1)"

section \<open>Reading the bitmap\<close>

definition frame_used :: "u64 list \<Rightarrow> nat \<Rightarrow> bool" where
  "frame_used bm f \<longleftrightarrow> bit (bm ! (f div 64)) (f mod 64)"

lemmas bit_test = and_exp_eq_0_iff_not_bit

lemma frame_clear_iff [simp]: "frame_clear bm f \<longleftrightarrow> \<not> frame_used bm f"
  by (simp add: frame_clear_def frame_used_def bit_test)

lemma div64_less: "f < m * 64 \<Longrightarrow> f div 64 < (m::nat)"
  by (simp add: div_less_iff_less_mult)

lemma frame_used_set:
  assumes "f div 64 < length bm" "g div 64 < length bm"
  shows "frame_used (bm[f div 64 := bm ! (f div 64) OR push_bit (f mod 64) 1]) g \<longleftrightarrow> g = f \<or> frame_used bm g"
proof (cases "g div 64 = f div 64")
  case True
  then have "g = f \<longleftrightarrow> g mod 64 = f mod 64" by (metis div_mult_mod_eq)
  with True assms show ?thesis by (auto simp: frame_used_def bit_simps)
next
  case False
  then show ?thesis by (auto simp: frame_used_def)
qed

lemma frame_used_clear:
  assumes "f div 64 < length bm" "g div 64 < length bm"
  shows "frame_used (bm[f div 64 := bm ! (f div 64) AND NOT (push_bit (f mod 64) 1)]) g \<longleftrightarrow> g \<noteq> f \<and> frame_used bm g"
proof (cases "g div 64 = f div 64")
  case True
  then have "g = f \<longleftrightarrow> g mod 64 = f mod 64" by (metis div_mult_mod_eq)
  with True assms show ?thesis by (auto simp: frame_used_def bit_simps)
next
  case False
  then show ?thesis by (auto simp: frame_used_def)
qed

section \<open>The invariant\<close>

definition free_set :: "pmm \<Rightarrow> nat set" where
  "free_set s = {f. f < total_frames s \<and> \<not> frame_used (bitmap s) f}"

definition pmm_wf :: "pmm \<Rightarrow> bool" where
  "pmm_wf s \<longleftrightarrow> length (bitmap s) = MAX_FRAMES div 64 \<and> total_frames s \<le> MAX_FRAMES
     \<and> free_frames_n s = card (free_set s)"

lemma finite_free_set [simp]: "finite (free_set s)"
  by (simp add: free_set_def)

lemma pmm_wf_word: "pmm_wf s \<Longrightarrow> f < total_frames s \<Longrightarrow> f div 64 < length (bitmap s)"
  by (auto simp: pmm_wf_def MAX_FRAMES_def intro!: div64_less)

lemma mark_used_frame [frame_simps, simp]:
  "total_frames (mark_used f s) = total_frames s" "mem_base (mark_used f s) = mem_base s"
  "length (bitmap (mark_used f s)) = length (bitmap s)"
  by (simp_all add: mark_used_def Let_def)

lemma mark_used_frame_used:
  assumes "f div 64 < length (bitmap s)" "g div 64 < length (bitmap s)"
  shows "frame_used (bitmap (mark_used f s)) g \<longleftrightarrow> g = f \<or> frame_used (bitmap s) g"
proof (cases "frame_used (bitmap s) f")
  case True
  then show ?thesis by (auto simp: mark_used_def Let_def bit_test frame_used_def)
next
  case False
  then show ?thesis
    using frame_used_set[OF assms] by (simp add: mark_used_def Let_def bit_test frame_used_def)
qed

lemma free_set_mark_used:
  assumes "pmm_wf s" "f < total_frames s"
  shows "free_set (mark_used f s) = free_set s - {f}"
  using mark_used_frame_used[OF pmm_wf_word[OF assms] pmm_wf_word[OF assms(1)]]
  by (auto simp: free_set_def)

lemma mark_used_wf [wf_intros]:
  assumes "pmm_wf s" "f < total_frames s"
  shows "pmm_wf (mark_used f s)"
proof -
  have "free_frames_n (mark_used f s) = card (free_set s - {f})"
  proof (cases "frame_used (bitmap s) f")
    case True
    then show ?thesis using assms
      by (auto simp: mark_used_def Let_def bit_test frame_used_def pmm_wf_def free_set_def)
  next
    case False
    then have "f \<in> free_set s" using assms by (simp add: free_set_def)
    with False show ?thesis using assms
      by (simp add: mark_used_def Let_def bit_test frame_used_def pmm_wf_def)
  qed
  then show ?thesis
    using assms by (simp add: pmm_wf_def free_set_mark_used)
qed

lemma mark_run:
  assumes "pmm_wf s" "start + n \<le> total_frames s"
  shows "pmm_wf (fold (\<lambda>i. mark_used (start + i)) [0..<n] s)
    \<and> total_frames (fold (\<lambda>i. mark_used (start + i)) [0..<n] s) = total_frames s
    \<and> mem_base (fold (\<lambda>i. mark_used (start + i)) [0..<n] s) = mem_base s
    \<and> free_set (fold (\<lambda>i. mark_used (start + i)) [0..<n] s) = free_set s - {start..<start + n}"
  using assms(2)
proof (induction n)
  case 0
  with assms(1) show ?case by simp
next
  case (Suc n)
  then have IH: "pmm_wf (fold (\<lambda>i. mark_used (start + i)) [0..<n] s)"
    "total_frames (fold (\<lambda>i. mark_used (start + i)) [0..<n] s) = total_frames s"
    "mem_base (fold (\<lambda>i. mark_used (start + i)) [0..<n] s) = mem_base s"
    "free_set (fold (\<lambda>i. mark_used (start + i)) [0..<n] s) = free_set s - {start..<start + n}" by auto
  from Suc.prems IH(2) have "start + n < total_frames (fold (\<lambda>i. mark_used (start + i)) [0..<n] s)" by simp
  with IH mark_used_wf[OF IH(1)] free_set_mark_used[OF IH(1)] show ?case by auto
qed

lemma free_one_noop: "\<not> (f < total_frames s \<and> frame_used (bitmap s) f) \<Longrightarrow> free_one f s = s"
  by (auto simp: free_one_def Let_def bit_test frame_used_def)

lemma free_one_used:
  "f < total_frames s \<Longrightarrow> frame_used (bitmap s) f \<Longrightarrow>
     free_one f s = s\<lparr>bitmap := (bitmap s)[f div 64 := bitmap s ! (f div 64) AND NOT (push_bit (f mod 64) 1)],
                     free_frames_n := free_frames_n s + 1\<rparr>"
  by (simp add: free_one_def Let_def bit_test frame_used_def)

lemma free_one_frame [frame_simps, simp]:
  "total_frames (free_one f s) = total_frames s" "mem_base (free_one f s) = mem_base s"
  "length (bitmap (free_one f s)) = length (bitmap s)"
  by (cases "f < total_frames s \<and> frame_used (bitmap s) f"; simp add: free_one_noop free_one_used)+

lemma free_one_free_set:
  assumes "pmm_wf s"
  shows "free_set (free_one f s) = free_set s \<union> ({f} \<inter> {..<total_frames s})"
proof (cases "f < total_frames s \<and> frame_used (bitmap s) f")
  case True
  then have "frame_used (bitmap (free_one f s)) g \<longleftrightarrow> g \<noteq> f \<and> frame_used (bitmap s) g"
    if "g < total_frames s" for g
    using frame_used_clear[OF pmm_wf_word[OF assms, of f] pmm_wf_word[OF assms that]]
    by (simp add: free_one_used)
  with True show ?thesis by (auto simp: free_set_def)
next
  case False
  then show ?thesis unfolding free_one_noop[OF False] by (auto simp: free_set_def)
qed

lemma free_one_wf [wf_intros]:
  assumes "pmm_wf s"
  shows "pmm_wf (free_one f s)"
proof (cases "f < total_frames s \<and> frame_used (bitmap s) f")
  case True
  then have "f \<notin> free_set s" by (simp add: free_set_def)
  then have "card (free_set (free_one f s)) = Suc (card (free_set s))"
    using True by (simp add: free_one_free_set[OF assms])
  moreover have "free_frames_n (free_one f s) = Suc (free_frames_n s)"
    using True by (simp add: free_one_used)
  ultimately show ?thesis
    using assms by (simp add: pmm_wf_def)
next
  case False
  with assms show ?thesis by (simp add: free_one_noop)
qed

lemma free_frames_effect:
  assumes "pmm_wf s"
  shows "pmm_wf (free_frames first n s) \<and> total_frames (free_frames first n s) = total_frames s
    \<and> mem_base (free_frames first n s) = mem_base s
    \<and> free_set (free_frames first n s) = free_set s \<union> ({first..<first + n} \<inter> {..<total_frames s})"
proof (induction n)
  case 0
  with assms show ?case by (simp add: free_frames_def)
next
  case (Suc n)
  have "free_frames first (Suc n) s = free_one (first + n) (free_frames first n s)"
    by (simp add: free_frames_def)
  moreover have "A \<union> {first..<first + n} \<inter> B \<union> {first + n} \<inter> B = A \<union> {first..<first + Suc n} \<inter> B" for A B
    by auto
  ultimately show ?case
    using Suc.IH free_one_free_set[of "free_frames first n s" "first + n"]
      free_one_wf[of "free_frames first n s" "first + n"] by simp
qed

section \<open>First fit\<close>

text \<open>The reference: the lowest frame at which \<open>n\<close> consecutive free frames begin.\<close>

definition run_free :: "u64 list \<Rightarrow> nat \<Rightarrow> nat \<Rightarrow> nat \<Rightarrow> bool" where
  "run_free bm tot n start \<longleftrightarrow> start + n \<le> tot \<and> (\<forall>k < n. \<not> frame_used bm (start + k))"

definition first_fit :: "u64 list \<Rightarrow> nat \<Rightarrow> nat \<Rightarrow> nat option" where
  "first_fit bm tot n = scan (run_free bm tot n) 0 tot"

text \<open>What the search knows at frame \<open>f\<close>: the frames of the current run are free, and no run
  starts before it.\<close>

definition scan_inv :: "u64 list \<Rightarrow> nat \<Rightarrow> nat \<Rightarrow> nat \<Rightarrow> nat \<Rightarrow> nat \<Rightarrow> bool" where
  "scan_inv bm tot n run_start run_len f \<longleftrightarrow>
     run_len < n \<and> (run_len > 0 \<longrightarrow> run_start + run_len = f)
     \<and> (\<forall>k < run_len. \<not> frame_used bm (run_start + k))
     \<and> (\<forall>s < (if run_len = 0 then f else run_start). \<not> run_free bm tot n s)"

lemma all_ones_used: "bm ! (f div 64) = - 1 \<Longrightarrow> frame_used bm f"
  by (simp add: frame_used_def)

lemma no_run_through: "frame_used bm f \<Longrightarrow> s \<le> f \<Longrightarrow> f < s + n \<Longrightarrow> \<not> run_free bm tot n s"
  unfolding run_free_def by (metis le_add_diff_inverse nat_add_left_cancel_less)

lemma scan_inv_used:
  assumes inv: "scan_inv bm tot n rs rl f" and u: "\<And>g. f \<le> g \<Longrightarrow> g < f' \<Longrightarrow> frame_used bm g"
    and ff: "f < f'"
  shows "scan_inv bm tot n rs' 0 f'"
proof -
  have "\<not> run_free bm tot n s" if s: "s < f'" for s
  proof (cases "s < (if rl = 0 then f else rs)")
    case True
    with inv show ?thesis by (auto simp: scan_inv_def)
  next
    case False
    show ?thesis
    proof (cases "s \<le> f")
      case True
      with False inv have "f < s + n" by (auto simp: scan_inv_def split: if_splits)
      with True u[of f] ff no_run_through show ?thesis by blast
    next
      case False
      with u[of s] s inv no_run_through[of bm s s n tot] show ?thesis by (auto simp: scan_inv_def)
    qed
  qed
  with inv show ?thesis by (simp add: scan_inv_def)
qed

lemma scan_inv_free:
  assumes "scan_inv bm tot n rs rl f" "\<not> frame_used bm f"
  shows "Suc rl \<noteq> n \<Longrightarrow> scan_inv bm tot n (if rl = 0 then f else rs) (Suc rl) (Suc f)"
    and "Suc rl = n \<Longrightarrow> f < tot \<Longrightarrow> run_free bm tot n (if rl = 0 then f else rs)"
  using assms by (auto simp: scan_inv_def run_free_def less_Suc_eq)

lemma alloc_scan_first_fit_inv:
  "scan_inv bm tot n rs rl f \<Longrightarrow> alloc_scan bm tot n rs rl f = first_fit bm tot n"
proof (induction bm tot n rs rl f rule: alloc_scan.induct)
  case (1 bm tot n rs rl f)
  note step = alloc_scan.simps[of bm tot n rs rl f]
  show ?case
  proof (cases "f < tot")
    case False
    have "\<not> run_free bm tot n s" for s
    proof (cases "s < (if rl = 0 then f else rs)")
      case True
      with "1.prems" show ?thesis by (auto simp: scan_inv_def)
    next
      case False
      with \<open>\<not> f < tot\<close> "1.prems" have "\<not> s + n \<le> tot" by (auto simp: scan_inv_def split: if_splits)
      then show ?thesis by (simp add: run_free_def)
    qed
    then have "first_fit bm tot n = None" by (simp add: first_fit_def scan_None)
    with False step show ?thesis by simp
  next
    case True
    consider (full) "bm ! (f div 64) = - 1"
      | (free) "bm ! (f div 64) \<noteq> - 1" "\<not> frame_used bm f"
      | (used) "bm ! (f div 64) \<noteq> - 1" "frame_used bm f" by blast
    then show ?thesis
    proof cases
      case full
      have "frame_used bm g" if "f \<le> g" "g < (f div 64 + 1) * 64" for g
      proof -
        have "g div 64 = f div 64"
          using div_le_mono[OF that(1), of 64] div64_less[OF that(2)] by linarith
        with full show ?thesis by (simp add: all_ones_used)
      qed
      moreover have "f < (f div 64 + 1) * 64" by (rule less_next_word)
      ultimately have "scan_inv bm tot n ((f div 64 + 1) * 64) 0 ((f div 64 + 1) * 64)"
        using scan_inv_used[OF "1.prems"] by blast
      with "1.IH"(1)[OF True refl full refl] step True full show ?thesis by (simp add: Let_def)
    next
      case free
      let ?rs = "if rl = 0 then f else rs"
      have clear: "bm ! (f div 64) AND push_bit (f mod 64) 1 = 0"
        using free(2) by (simp add: frame_used_def bit_test)
      show ?thesis
      proof (cases "Suc rl = n")
        case n: True
        have "run_free bm tot n ?rs" using scan_inv_free(2)[OF "1.prems" free(2) n True] .
        moreover have "\<not> run_free bm tot n s" if "s < ?rs" for s
          using "1.prems" that by (auto simp: scan_inv_def)
        moreover have "?rs < tot" using "1.prems" True by (auto simp: scan_inv_def)
        ultimately have "first_fit bm tot n = Some ?rs" by (auto simp: first_fit_def scan_Some)
        with step True free(1) clear n show ?thesis by (simp add: Let_def)
      next
        case n: False
        then have "alloc_scan bm tot n ?rs (rl + 1) (f + 1) = first_fit bm tot n"
          using "1.IH"(2)[OF True refl free(1) clear refl refl] scan_inv_free(1)[OF "1.prems" free(2)]
          by simp
        with step True free(1) clear n show ?thesis by (simp add: Let_def)
      qed
    next
      case used
      have "scan_inv bm tot n rs 0 (f + 1)"
        using scan_inv_used[OF "1.prems", of "f + 1"] used(2) by (simp add: le_less_Suc_eq)
      moreover have "bm ! (f div 64) AND push_bit (f mod 64) 1 \<noteq> 0"
        using used(2) by (simp add: frame_used_def bit_test)
      ultimately show ?thesis using "1.IH"(3)[OF True refl used(1)] step True used(1) by (simp add: Let_def)
    qed
  qed
qed

lemma alloc_scan_first_fit: "0 < n \<Longrightarrow> alloc_scan bm tot n 0 0 0 = first_fit bm tot n"
  by (rule alloc_scan_first_fit_inv) (simp add: scan_inv_def)

lemma first_fit_Some:
  "first_fit bm tot n = Some start \<Longrightarrow> run_free bm tot n start"
  by (simp add: first_fit_def scan_Some)

lemma alloc_frames_Some:
  assumes "pmm_wf s" "0 < n" "alloc_frames n s = (s', Some start)"
  shows "pmm_wf s'" "start + n \<le> total_frames s" "{start..<start + n} \<subseteq> free_set s"
    "free_set s' = free_set s - {start..<start + n}" "total_frames s' = total_frames s" "mem_base s' = mem_base s"
proof -
  from assms(2,3) have ff: "first_fit (bitmap s) (total_frames s) n = Some start"
    and s': "s' = fold (\<lambda>i. mark_used (start + i)) [0..<n] s"
    by (auto simp: alloc_frames_def alloc_scan_first_fit split: option.splits)
  from first_fit_Some[OF ff] have rf: "start + n \<le> total_frames s"
    and "\<forall>k<n. \<not> frame_used (bitmap s) (start + k)" by (auto simp: run_free_def)
  then show "{start..<start + n} \<subseteq> free_set s"
    by (auto simp: free_set_def dest!: le_Suc_ex)
  show "start + n \<le> total_frames s" by (rule rf)
  from mark_run[OF assms(1) rf] s'
  show "pmm_wf s'" "free_set s' = free_set s - {start..<start + n}" "total_frames s' = total_frames s"
    "mem_base s' = mem_base s" by auto
qed

lemma alloc_frames_wf [wf_intros]:
  assumes "pmm_wf s"
  shows "pmm_wf (fst (alloc_frames n s))"
proof (cases "n = 0")
  case True
  with assms show ?thesis by (simp add: alloc_frames_def)
next
  case False
  show ?thesis
  proof (cases "snd (alloc_frames n s)")
    case None
    with False have "fst (alloc_frames n s) = s" by (auto simp: alloc_frames_def split: option.splits)
    with assms show ?thesis by simp
  next
    case (Some start)
    with False alloc_frames_Some(1)[OF assms, of n "fst (alloc_frames n s)" start] show ?thesis
      by (metis neq0_conv prod.collapse)
  qed
qed

section \<open>Initialisation from the memory map\<close>

lemma free_set_bss:
  assumes "tot \<le> MAX_FRAMES"
  shows "free_set (pmm_bss\<lparr>mem_base := b, total_frames := tot, free_frames_n := n\<rparr>) = {..<tot}"
  using assms div64_less[of _ "MAX_FRAMES div 64"]
  by (auto simp: free_set_def pmm_bss_def frame_used_def MAX_FRAMES_def)

lemma pmm_bss_wf:
  "tot \<le> MAX_FRAMES \<Longrightarrow> pmm_wf (pmm_bss\<lparr>mem_base := b, total_frames := tot, free_frames_n := tot\<rparr>)"
  by (simp add: pmm_wf_def free_set_bss) (simp add: pmm_bss_def)

definition target_ok :: "target \<Rightarrow> bool" where
  "target_ok t \<longleftrightarrow> (case t of Aarch64 base sz \<Rightarrow> 0 < base \<and> sz div 4096 \<le> MAX_FRAMES | _ \<Rightarrow> True)"

lemma pmm_min_base_pos: "target_ok t \<Longrightarrow> 0 < pmm_min_base t"
  by (auto simp: target_ok_def pmm_min_base_def split: target.splits)

lemma init_fallback_effect:
  assumes "target_ok t"
  shows "pmm_wf (init_fallback t pmm_bss)" "mem_base (init_fallback t pmm_bss) = pmm_min_base t"
    "free_set (init_fallback t pmm_bss) = {..<total_frames (init_fallback t pmm_bss)}"
proof -
  let ?tot = "case t of X86_64 \<Rightarrow> (127 * 1024 * 1024) div 4096 | Riscv64 \<Rightarrow> (128 * 1024 * 1024) div 4096
    | Aarch64 _ sz \<Rightarrow> sz div 4096"
  have tot: "?tot \<le> MAX_FRAMES"
    using assms by (simp add: target_ok_def MAX_FRAMES_def split: target.splits)
  have eq: "init_fallback t pmm_bss = pmm_bss\<lparr>mem_base := pmm_min_base t, total_frames := ?tot, free_frames_n := ?tot\<rparr>"
    by (simp add: init_fallback_def Let_def)
  show "pmm_wf (init_fallback t pmm_bss)" "mem_base (init_fallback t pmm_bss) = pmm_min_base t"
    "free_set (init_fallback t pmm_bss) = {..<total_frames (init_fallback t pmm_bss)}"
    unfolding eq using pmm_bss_wf[OF tot] free_set_bss[OF tot] by simp_all
qed

lemma init_from_mmap_effect:
  assumes r: "largest_usable m (pmm_min_base t) = Some r"
  shows "pmm_wf (init_from_mmap t kend m pmm_bss)" "mem_base (init_from_mmap t kend m pmm_bss) = mr_base r"
    "total_frames (init_from_mmap t kend m pmm_bss) = min (mr_size r div 4096) MAX_FRAMES"
    "free_set (init_from_mmap t kend m pmm_bss) =
       {(if kend > mr_base r then (kend - mr_base r + 4095) div 4096 else 0)..<min (mr_size r div 4096) MAX_FRAMES}"
proof -
  define n where "n = min (mr_size r div 4096) MAX_FRAMES"
  define u where "u = (if kend > mr_base r then min ((kend - mr_base r + 4095) div 4096) n else 0)"
  define s where "s = pmm_bss\<lparr>mem_base := mr_base r, total_frames := n, free_frames_n := n\<rparr>"
  have n: "n \<le> MAX_FRAMES" by (simp add: n_def)
  have wf: "pmm_wf s" and fs: "free_set s = {..<n}" and tot: "total_frames s = n" "mem_base s = mr_base r"
    unfolding s_def using pmm_bss_wf[OF n] free_set_bss[OF n] by simp_all
  have eq: "init_from_mmap t kend m pmm_bss = fold mark_used [0..<u] s"
    using r by (simp add: init_from_mmap_def Let_def u_def n_def s_def)
  have "0 + u \<le> total_frames s" by (simp add: u_def tot)
  note M = mark_run[OF wf this, unfolded add_0 fs tot]
  show "pmm_wf (init_from_mmap t kend m pmm_bss)" "mem_base (init_from_mmap t kend m pmm_bss) = mr_base r"
    "total_frames (init_from_mmap t kend m pmm_bss) = min (mr_size r div 4096) MAX_FRAMES"
    unfolding eq n_def[symmetric] using M by blast+
  have "{..<n} - {0..<u} = {(if kend > mr_base r then (kend - mr_base r + 4095) div 4096 else 0)..<n}"
    by (auto simp: u_def)
  then show "free_set (init_from_mmap t kend m pmm_bss) =
       {(if kend > mr_base r then (kend - mr_base r + 4095) div 4096 else 0)..<min (mr_size r div 4096) MAX_FRAMES}"
    unfolding eq n_def[symmetric] using M by simp
qed

section \<open>Properties\<close>

lemma alloc_frames_first_fit_eq:
  "0 < n \<Longrightarrow> snd (alloc_frames n s) = first_fit (bitmap s) (total_frames s) n"
  by (simp add: alloc_frames_def alloc_scan_first_fit split: option.split)

lemma alloc_frames_refused: "snd (alloc_frames n s) = None \<Longrightarrow> fst (alloc_frames n s) = s"
  by (auto simp: alloc_frames_def split: option.splits)

text \<open>C7: The word-skipping search of the frame allocator is first fit: it returns the lowest run of
  \<open>n\<close> free frames, and refuses only when no such run exists, leaving the state unchanged.  A
  success claims exactly the frames of the run, all of them free before, and the free-frame
  counter stays the number of clear bits.\<close>

theorem alloc_frames_spec:
  assumes wf: "pmm_wf s" and n: "0 < n"
  shows "case alloc_frames n s of
      (s', None) \<Rightarrow> s' = s \<and> (\<forall>g. \<not> run_free (bitmap s) (total_frames s) n g)
    | (s', Some start) \<Rightarrow> run_free (bitmap s) (total_frames s) n start
        \<and> (\<forall>g < start. \<not> run_free (bitmap s) (total_frames s) n g)
        \<and> free_set s' = free_set s - {start..<start + n} \<and> {start..<start + n} \<subseteq> free_set s
        \<and> free_frames_n s' = free_frames_n s - n \<and> pmm_wf s'"
proof -
  obtain s' r where a: "alloc_frames n s = (s', r)" by fastforce
  have ff: "r = scan (run_free (bitmap s) (total_frames s) n) 0 (total_frames s)"
    using alloc_frames_first_fit_eq[OF n, of s] a by (simp add: first_fit_def)
  show ?thesis
  proof (cases r)
    case None
    have "\<not> run_free (bitmap s) (total_frames s) n g" for g
      using ff[symmetric] None n by (cases "g < total_frames s") (simp_all add: scan_None run_free_def)
    then show ?thesis using a None alloc_frames_refused[of n s] by simp
  next
    case (Some start)
    note A = alloc_frames_Some[OF wf n a[unfolded Some]]
    have "card (free_set s') = card (free_set s) - n"
      using A(3) unfolding A(4) by (subst card_Diff_subset) auto
    then have "free_frames_n s' = free_frames_n s - n" using wf A(1) by (simp add: pmm_wf_def)
    then show ?thesis using a Some A ff[symmetric] by (auto simp: scan_Some)
  qed
qed

theorem alloc_frames_spec_witness:
  "\<exists>s'. alloc_frames 3 (init_fallback X86_64 pmm_bss) = (s', Some 0)
     \<and> free_set s' = free_set (init_fallback X86_64 pmm_bss) - {0..<3} \<and> pmm_wf s'"
proof -
  let ?s = "init_fallback X86_64 pmm_bss"
  have wf: "pmm_wf ?s" by (rule init_fallback_effect) (simp add: target_ok_def)
  have fr: "free_set ?s = {..<32512}"
    using init_fallback_effect(3)[of X86_64] by (simp add: target_ok_def init_fallback_def)
  have run: "run_free (bitmap ?s) (total_frames ?s) 3 0"
  proof -
    have "k \<in> free_set ?s" if "k < 3" for k using that by (simp add: fr)
    moreover have "total_frames ?s = 32512" by (simp add: init_fallback_def)
    ultimately show ?thesis by (auto simp: run_free_def free_set_def)
  qed
  from alloc_frames_spec[OF wf, of 3] run show ?thesis
    by (auto split: prod.splits option.splits)
qed

text \<open>Giving back the run of frames an allocation returned restores the set of free frames and the
  free-frame counter.\<close>

theorem alloc_free_roundtrip:
  assumes "pmm_wf s" "0 < n" "alloc_frames n s = (s', Some start)"
  shows "free_set (free_frames start n s') = free_set s \<and> free_frames_n (free_frames start n s') = free_frames_n s"
proof -
  note A = alloc_frames_Some[OF assms] and F = free_frames_effect[OF alloc_frames_Some(1)[OF assms], of start n]
  have "free_set (free_frames start n s') = free_set s" using F A(2,3,4,5) by auto
  then show ?thesis using F assms(1) by (simp add: pmm_wf_def)
qed

theorem alloc_free_roundtrip_witness:
  "\<exists>s' start. alloc_frames 2 (init_fallback Riscv64 pmm_bss) = (s', Some start)
     \<and> free_set (free_frames start 2 s') = free_set (init_fallback Riscv64 pmm_bss)"
proof -
  let ?s = "init_fallback Riscv64 pmm_bss"
  have wf: "pmm_wf ?s" by (rule init_fallback_effect) (simp add: target_ok_def)
  have fr: "free_set ?s = {..<32768}"
    using init_fallback_effect(3)[of Riscv64] by (simp add: target_ok_def init_fallback_def)
  have tot: "total_frames ?s = 32768" by (simp add: init_fallback_def)
  have "k \<in> free_set ?s" if "k < 2" for k using that by (simp add: fr)
  then have "run_free (bitmap ?s) (total_frames ?s) 2 0" using tot by (auto simp: run_free_def free_set_def)
  then have "first_fit (bitmap ?s) (total_frames ?s) 2 = Some 0" using tot by (simp add: first_fit_def scan_Some)
  then have "snd (alloc_frames 2 ?s) = Some 0" by (simp add: alloc_frames_first_fit_eq)
  then obtain s' where "alloc_frames 2 ?s = (s', Some 0)" by (metis prod.collapse)
  with alloc_free_roundtrip[OF wf _ this] show ?thesis by auto
qed

end
