(* ===== verification/Memory.thy ===== *)
theory Memory
  imports Bitmap
begin

text \<open>
  \<^verbatim>\<open>kernel/src/memory\<close> above the bitmap: the early bump allocator
  (\<^verbatim>\<open>bump.rs\<close>), the page allocator and its initialisation (\<^verbatim>\<open>mod.rs\<close>), the slab caches
  (\<^verbatim>\<open>slab.rs\<close>) and the global allocator (\<^verbatim>\<open>heap.rs\<close>).  The free lists of the slab
  caches live in the free blocks themselves, so the state has an explicit store: the machine
  word found at an address of the identity-mapped memory.  The main result is that the free
  blocks of all size classes never overlap each other, nor any free frame, and that an
  allocation hands out a block that is disjoint from every block still free.
\<close>

section \<open>The bump allocator\<close>

record bump =
  b_start :: nat
  b_end :: nat
  b_current :: nat

definition bump_new :: "nat \<Rightarrow> nat \<Rightarrow> bump" where
  "bump_new start end_addr = \<lparr>b_start = start, b_end = end_addr, b_current = start\<rparr>"

definition bump_reset :: "bump \<Rightarrow> bump" where
  "bump_reset b = b\<lparr>b_current := b_start b\<rparr>"

text \<open>\<^verbatim>\<open>(x + 4095) & !4095\<close> on 64 bits.\<close>

definition page_align :: "nat \<Rightarrow> nat" where
  "page_align x = (x + 4095) mod 2 ^ 64 div 4096 * 4096"

definition bump_alloc :: "nat \<Rightarrow> bump \<Rightarrow> bump \<times> nat option" where
  "bump_alloc sz b =
     (let aligned = page_align (b_current b) in
      if aligned + sz > usize_max then (b, None)
      else if aligned + sz > b_end b then (b, None)
      else (b\<lparr>b_current := aligned + sz\<rparr>, Some aligned))"

definition bump_used :: "bump \<Rightarrow> nat" where
  "bump_used b = b_current b - b_start b"

section \<open>The page allocator\<close>

record cache =
  c_head :: nat
  block_size :: nat

record mem =
  m_pmm :: pmm
  m_bump :: bump
  bitmap_ready :: bool
  m_caches :: "cache list"
  heap_used :: nat
  heap_allocs :: nat
  m_store :: "nat \<Rightarrow> nat"

definition alloc_pages :: "nat \<Rightarrow> mem \<Rightarrow> mem \<times> nat option" where
  "alloc_pages pages m =
     (if bitmap_ready m then
        case alloc_frames pages (m_pmm m) of
          (p, None) \<Rightarrow> (m\<lparr>m_pmm := p\<rparr>, None)
        | (p, Some frame) \<Rightarrow> (m\<lparr>m_pmm := p\<rparr>, Some (frame_to_addr p frame))
      else case bump_alloc (pages * 4096 mod 2 ^ 64) (m_bump m) of
          (b, r) \<Rightarrow> (m\<lparr>m_bump := b\<rparr>, r))"

definition free_pages :: "nat \<Rightarrow> nat \<Rightarrow> mem \<Rightarrow> mem" where
  "free_pages addr pages m =
     (if bitmap_ready m
      then m\<lparr>m_pmm := free_frames (addr_to_frame (m_pmm m) addr) pages (m_pmm m)\<rparr>
      else m)"

section \<open>The slab caches\<close>

definition CLASSES :: "nat list" where
  "CLASSES = [8, 16, 32, 64, 128, 256, 512, 1024, 2048]"

definition SLAB_PAGES :: nat where
  "SLAB_PAGES = 1"

definition SLAB_SIZE :: nat where
  "SLAB_SIZE = SLAB_PAGES * 4096"

definition slab_init :: "mem \<Rightarrow> mem" where
  "slab_init m =
     m\<lparr>m_caches := fold (\<lambda>i. upd_nth i (\<lambda>c. c\<lparr>block_size := CLASSES ! i\<rparr>)) [0..<length CLASSES] (m_caches m)\<rparr>"

definition class_index :: "nat \<Rightarrow> nat option" where
  "class_index sz = scan (\<lambda>i. CLASSES ! i \<ge> sz) 0 (length CLASSES)"

text \<open>The linking loop of \<^verbatim>\<open>grow\<close>: block \<open>i\<close> points to the next one, the last to the old head.\<close>

definition link_blocks :: "nat \<Rightarrow> nat \<Rightarrow> nat \<Rightarrow> nat \<Rightarrow> (nat \<Rightarrow> nat) \<Rightarrow> nat \<Rightarrow> nat" where
  "link_blocks slab bs n old_head st =
     fold (\<lambda>i st. st(slab + i * bs := (if i + 1 < n then slab + (i + 1) * bs else old_head))) [0..<n] st"

definition slab_grow :: "nat \<Rightarrow> mem \<Rightarrow> mem \<times> bool" where
  "slab_grow idx m =
     (let bs = block_size (m_caches m ! idx) in
      case alloc_pages SLAB_PAGES m of
        (m1, None) \<Rightarrow> (m1, False)
      | (m1, Some slab) \<Rightarrow>
          let n = SLAB_SIZE div bs in
          (m1\<lparr>m_store := link_blocks slab bs n (c_head (m_caches m1 ! idx)) (m_store m1),
              m_caches := upd_nth idx (\<lambda>c. c\<lparr>c_head := slab\<rparr>) (m_caches m1)\<rparr>, True))"

text \<open>The pop at the end of \<^verbatim>\<open>alloc\<close>.\<close>

definition slab_pop :: "nat \<Rightarrow> mem \<Rightarrow> mem \<times> nat" where
  "slab_pop idx m =
     (let block = c_head (m_caches m ! idx) in
      (m\<lparr>m_caches := upd_nth idx (\<lambda>c. c\<lparr>c_head := m_store m block\<rparr>) (m_caches m)\<rparr>, block))"

text \<open>The null pointer is address 0.\<close>

definition slab_alloc :: "nat \<Rightarrow> mem \<Rightarrow> mem \<times> nat" where
  "slab_alloc sz0 m =
     (let sz = max sz0 8 in
      case class_index sz of
        None \<Rightarrow>
          (case alloc_pages ((sz + 4095) div 4096) m of
             (m1, r) \<Rightarrow> (m1, case r of None \<Rightarrow> 0 | Some a \<Rightarrow> a))
      | Some idx \<Rightarrow>
          if c_head (m_caches m ! idx) = 0
          then (case slab_grow idx m of
                  (m1, False) \<Rightarrow> (m1, 0)
                | (m1, True) \<Rightarrow> slab_pop idx m1)
          else slab_pop idx m)"

definition slab_dealloc :: "nat \<Rightarrow> nat \<Rightarrow> mem \<Rightarrow> mem" where
  "slab_dealloc ptr sz0 m =
     (if ptr = 0 then m
      else let sz = max sz0 8 in
        case class_index sz of
          None \<Rightarrow> free_pages ptr ((sz + 4095) div 4096) m
        | Some idx \<Rightarrow>
            m\<lparr>m_store := (m_store m)(ptr := c_head (m_caches m ! idx)),
              m_caches := upd_nth idx (\<lambda>c. c\<lparr>c_head := ptr\<rparr>) (m_caches m)\<rparr>)"

section \<open>The global allocator\<close>

text \<open>A \<^verbatim>\<open>Layout\<close> is its size and alignment.\<close>

definition heap_alloc :: "nat \<Rightarrow> nat \<Rightarrow> mem \<Rightarrow> mem \<times> nat" where
  "heap_alloc l_size l_align m =
     (let sz = max l_size l_align in
      case slab_alloc sz m of
        (m1, ptr) \<Rightarrow>
          (if ptr \<noteq> 0 then m1\<lparr>heap_used := heap_used m1 + sz, heap_allocs := heap_allocs m1 + 1\<rparr> else m1, ptr))"

definition heap_dealloc :: "nat \<Rightarrow> nat \<Rightarrow> nat \<Rightarrow> mem \<Rightarrow> mem" where
  "heap_dealloc ptr l_size l_align m =
     (let sz = max l_size l_align;
          m1 = m\<lparr>heap_used := heap_used m - sz, heap_allocs := heap_allocs m - 1\<rparr>
      in slab_dealloc ptr sz m1)"

definition heap_free_bytes :: "mem \<Rightarrow> nat" where
  "heap_free_bytes m = free_count (m_pmm m) * 4096"

record heap_stats =
  hs_used :: nat
  hs_free :: nat
  hs_total :: nat
  hs_allocs :: nat

definition get_heap_stats :: "mem \<Rightarrow> heap_stats" where
  "get_heap_stats m =
     \<lparr>hs_used = heap_used m, hs_free = heap_free_bytes m, hs_total = 0, hs_allocs = heap_allocs m\<rparr>"

text \<open>The statics at boot and \<^verbatim>\<open>memory::init\<close>; \<open>kend\<close> is the linker symbol
  \<^verbatim>\<open>_kernel_end\<close> and \<open>map\<close> the parsed memory map.  \<^verbatim>\<open>paging_init\<close>, which loads the
  architecture's page-table root, is not part of this state.\<close>

definition mem_boot :: "(nat \<Rightarrow> nat) \<Rightarrow> mem" where
  "mem_boot st =
     \<lparr>m_pmm = pmm_bss, m_bump = bump_new 0x100000 0x8000000, bitmap_ready = False,
      m_caches = replicate 9 \<lparr>c_head = 0, block_size = 0\<rparr>,
      heap_used = 0, heap_allocs = 0, m_store = st\<rparr>"

definition mem_init :: "target \<Rightarrow> nat \<Rightarrow> memory_map \<Rightarrow> mem \<Rightarrow> mem" where
  "mem_init t kend mm m =
     (let m1 = m\<lparr>m_pmm := init_from_mmap t kend mm (m_pmm m), bitmap_ready := True\<rparr>;
          limit = mem_base (m_pmm m1) + total_count (m_pmm m1) * 4096;
          m2 = m1\<lparr>m_bump := bump_new (page_align kend) limit\<rparr>
      in slab_init m2)"

section \<open>The bump allocator is monotone\<close>

definition bump_wf :: "bump \<Rightarrow> bool" where
  "bump_wf b \<longleftrightarrow> b_start b \<le> b_current b \<and> b_current b \<le> b_end b \<and> b_end b + 4095 \<le> usize_max"

lemma page_align_props:
  assumes "x + 4095 \<le> usize_max"
  shows "x \<le> page_align x" "page_align x < x + 4096" "4096 dvd page_align x"
proof -
  from assms have "page_align x = (x + 4095) div 4096 * 4096"
    by (simp add: page_align_def usize_max_def)
  then show "x \<le> page_align x" "page_align x < x + 4096"
    using div_mult_mod_eq[of "x + 4095" 4096] mod_less_divisor[of 4096 "x + 4095"] by linarith+
  show "4096 dvd page_align x" by (simp add: page_align_def)
qed

lemma bump_alloc_Some:
  assumes "bump_wf b" "bump_alloc sz b = (b', Some a)"
  shows "bump_wf b'" "4096 dvd a" "b_current b \<le> a" "a + sz \<le> b_end b" "b_current b' = a + sz"
proof -
  have "b_current b + 4095 \<le> usize_max" using assms(1) by (simp add: bump_wf_def)
  from page_align_props[OF this] assms
  show "bump_wf b'" "4096 dvd a" "b_current b \<le> a" "a + sz \<le> b_end b" "b_current b' = a + sz"
    by (auto simp: bump_alloc_def bump_wf_def Let_def split: if_splits)
qed

section \<open>Size classes\<close>

lemma class_index_Some:
  "class_index sz = Some i \<Longrightarrow> i < 9 \<and> sz \<le> CLASSES ! i \<and> (\<forall>j < i. CLASSES ! j < sz)"
  by (auto simp: class_index_def scan_Some CLASSES_def not_le)

lemma length_CLASSES [simp]: "length CLASSES = 9"
  by (simp add: CLASSES_def)

lemma CLASSES_props:
  assumes "i < 9"
  shows "CLASSES ! i dvd 4096" "8 \<le> CLASSES ! i" "CLASSES ! i \<le> 2048"
proof -
  have "list_all (\<lambda>c. c dvd 4096 \<and> 8 \<le> c \<and> c \<le> 2048) CLASSES" by (simp add: CLASSES_def)
  with assms show "CLASSES ! i dvd 4096" "8 \<le> CLASSES ! i" "CLASSES ! i \<le> 2048"
    by (auto simp: list_all_length)
qed

lemma class_index_None: "class_index sz = None \<longleftrightarrow> 2048 < sz"
proof -
  have "CLASSES ! 8 = 2048" by (simp add: CLASSES_def)
  then have "sz \<le> 2048 \<Longrightarrow> \<exists>i<9. sz \<le> CLASSES ! i" by (intro exI[of _ 8]) simp
  moreover have "2048 < sz \<Longrightarrow> \<forall>i<9. \<not> sz \<le> CLASSES ! i"
    using CLASSES_props(3) by (auto simp: not_le intro: le_less_trans)
  ultimately show ?thesis by (auto simp: class_index_def scan_None not_le[symmetric])
qed

section \<open>Free lists in the store\<close>

text \<open>\<open>chain st h xs\<close>: following the words stored in the blocks from \<open>h\<close> visits \<open>xs\<close> and ends
  at the null pointer.\<close>

fun chain :: "(nat \<Rightarrow> nat) \<Rightarrow> nat \<Rightarrow> nat list \<Rightarrow> bool" where
  "chain st h [] \<longleftrightarrow> h = 0"
| "chain st h (x # xs) \<longleftrightarrow> h = x \<and> x \<noteq> 0 \<and> chain st (st x) xs"

lemma chain_frame: "(\<And>x. x \<in> set xs \<Longrightarrow> st' x = st x) \<Longrightarrow> chain st' h xs \<longleftrightarrow> chain st h xs"
  by (induction xs arbitrary: h) auto

lemma chain_upd_notin [simp]: "a \<notin> set xs \<Longrightarrow> chain (st(a := v)) h xs \<longleftrightarrow> chain st h xs"
  by (rule chain_frame) auto

lemma chain_0: "chain st 0 xs \<longleftrightarrow> xs = []"
  by (cases xs) auto

text \<open>The blocks a new slab is carved into.\<close>

definition slab_blocks :: "nat \<Rightarrow> nat \<Rightarrow> nat \<Rightarrow> nat list" where
  "slab_blocks slab bs n = map (\<lambda>i. slab + i * bs) [0..<n]"

lemma link_blocks_other:
  "a \<notin> set (slab_blocks slab bs n) \<Longrightarrow> link_blocks slab bs n h st a = st a"
proof -
  have "a \<notin> (\<lambda>i. slab + i * bs) ` {0..<k} \<Longrightarrow>
    fold (\<lambda>i st. st(slab + i * bs := f i)) [0..<k] st a = st a" for f k
    by (induction k) (auto simp: atLeastLessThanSuc)
  from this[of n] show "a \<notin> set (slab_blocks slab bs n) \<Longrightarrow> link_blocks slab bs n h st a = st a"
    by (simp add: link_blocks_def slab_blocks_def)
qed

lemma link_blocks_at:
  assumes "0 < bs" "i < n"
  shows "link_blocks slab bs n h st (slab + i * bs) = (if i + 1 < n then slab + (i + 1) * bs else h)"
proof -
  have "i < k \<Longrightarrow> fold (\<lambda>i st. st(slab + i * bs := f i)) [0..<k] st (slab + i * bs) = f i" for f k
    using assms(1) by (induction k) (auto simp: less_Suc_eq)
  from this[OF assms(2)] show ?thesis by (simp add: link_blocks_def)
qed

lemma chain_link_blocks:
  assumes "0 < bs" "0 < n" "slab \<noteq> 0" "chain st h xs" "set xs \<inter> set (slab_blocks slab bs n) = {}"
  shows "chain (link_blocks slab bs n h st) slab (slab_blocks slab bs n @ xs)"
proof -
  let ?st = "link_blocks slab bs n h st"
  have tail: "chain ?st h xs"
    using assms(4,5) link_blocks_other[of _ slab bs n h st]
    by (subst chain_frame[where st = st]) auto
  have "k < n \<Longrightarrow> chain ?st (slab + (n - Suc k) * bs) (map (\<lambda>i. slab + i * bs) [n - Suc k..<n] @ xs)" for k
  proof (induction k)
    case 0
    then have "[n - Suc 0..<n] = [n - Suc 0]" by (simp add: upt_rec)
    with 0 tail assms(1,3) show ?case by (simp add: link_blocks_at)
  next
    case (Suc k)
    then have "[n - Suc (Suc k)..<n] = (n - Suc (Suc k)) # [n - Suc k..<n]"
      by (simp add: upt_conv_Cons Suc_diff_Suc)
    moreover have "?st (slab + (n - Suc (Suc k)) * bs) = slab + (n - Suc k) * bs"
      using Suc.prems assms(1) link_blocks_at[of bs "n - Suc (Suc k)" n slab h st]
      by (simp add: Suc_diff_Suc)
    ultimately show ?case using Suc assms(3) by simp
  qed
  from this[of "n - 1"] assms(2) show ?thesis by (simp add: slab_blocks_def)
qed

section \<open>The slab invariant\<close>

text \<open>Memory ranges of a block of class \<open>i\<close> and of the frames the bitmap holds free.\<close>

definition blk :: "nat \<Rightarrow> nat \<Rightarrow> nat set" where
  "blk i b = {b..<b + CLASSES ! i}"

definition free_mem :: "pmm \<Rightarrow> nat set" where
  "free_mem s = (\<Union>f \<in> free_set s. {mem_base s + f * 4096..<mem_base s + f * 4096 + 4096})"

text \<open>\<open>L ! i\<close> lists the free blocks of class \<open>i\<close>.\<close>

definition slab_inv :: "nat list list \<Rightarrow> mem \<Rightarrow> bool" where
  "slab_inv L m \<longleftrightarrow>
     bitmap_ready m \<and> pmm_wf (m_pmm m) \<and> 0 < mem_base (m_pmm m)
     \<and> length L = 9 \<and> length (m_caches m) = 9
     \<and> (\<forall>i < 9. block_size (m_caches m ! i) = CLASSES ! i
          \<and> chain (m_store m) (c_head (m_caches m ! i)) (L ! i) \<and> distinct (L ! i))
     \<and> (\<forall>i < 9. \<forall>b \<in> set (L ! i). blk i b \<inter> free_mem (m_pmm m) = {})
     \<and> (\<forall>i < 9. \<forall>j < 9. \<forall>b \<in> set (L ! i). \<forall>c \<in> set (L ! j). (i, b) \<noteq> (j, c) \<longrightarrow> blk i b \<inter> blk j c = {})"

lemma slab_invD:
  assumes "slab_inv L m"
  shows "bitmap_ready m" "pmm_wf (m_pmm m)" "0 < mem_base (m_pmm m)" "length L = 9" "length (m_caches m) = 9"
    "i < 9 \<Longrightarrow> block_size (m_caches m ! i) = CLASSES ! i"
    "i < 9 \<Longrightarrow> chain (m_store m) (c_head (m_caches m ! i)) (L ! i)"
    "i < 9 \<Longrightarrow> distinct (L ! i)"
    "i < 9 \<Longrightarrow> b \<in> set (L ! i) \<Longrightarrow> blk i b \<inter> free_mem (m_pmm m) = {}"
    "i < 9 \<Longrightarrow> j < 9 \<Longrightarrow> b \<in> set (L ! i) \<Longrightarrow> c \<in> set (L ! j) \<Longrightarrow> (i, b) \<noteq> (j, c) \<Longrightarrow> blk i b \<inter> blk j c = {}"
  using assms unfolding slab_inv_def by blast+

lemma blk_self: "i < 9 \<Longrightarrow> b \<in> blk i b"
  using CLASSES_props(2)[of i] by (simp add: blk_def)

lemma slab_pop_inv:
  assumes inv: "slab_inv L m" and i: "i < 9" and ne: "L ! i = b # bs"
  shows "snd (slab_pop i m) = b" "slab_inv (L[i := bs]) (fst (slab_pop i m))"
proof -
  note D = slab_invD[OF inv]
  from D(7)[OF i] ne show b: "snd (slab_pop i m) = b" by (simp add: slab_pop_def Let_def)
  have sub: "set (L[i := bs] ! j) \<subseteq> set (L ! j)" if "j < 9" for j
    using ne D(4) that by (cases "i = j") (auto simp: nth_list_update)
  show "slab_inv (L[i := bs]) (fst (slab_pop i m))"
    unfolding slab_inv_def
  proof (intro conjI allI impI ballI)
    fix j :: nat assume j: "j < 9"
    show "chain (m_store (fst (slab_pop i m))) (c_head (m_caches (fst (slab_pop i m)) ! j)) (L[i := bs] ! j)"
      using D(4,5) D(7)[OF i] D(7)[OF j] j ne by (simp add: slab_pop_def Let_def nth_list_update)
    show "distinct (L[i := bs] ! j)" using D(4) D(8)[OF i] D(8)[OF j] j ne by (cases "i = j") (auto simp: nth_list_update)
    show "block_size (m_caches (fst (slab_pop i m)) ! j) = CLASSES ! j"
      using D(5) D(6)[OF j] j by (simp add: slab_pop_def Let_def)
  next
    fix j c :: nat assume "j < 9" "c \<in> set (L[i := bs] ! j)"
    with sub D(9) show "blk j c \<inter> free_mem (m_pmm (fst (slab_pop i m))) = {}"
      by (fastforce simp: slab_pop_def Let_def)
  next
    fix j k c d :: nat assume "j < 9" "k < 9" "c \<in> set (L[i := bs] ! j)" "d \<in> set (L[i := bs] ! k)" "(j, c) \<noteq> (k, d)"
    with sub D(10) show "blk j c \<inter> blk k d = {}" by (meson subsetD)
  qed (use D(1-5) in \<open>simp_all add: slab_pop_def Let_def\<close>)
qed

lemma alloc_page:
  assumes "bitmap_ready m" "pmm_wf (m_pmm m)" "alloc_pages 1 m = (m', Some a)"
  shows "m' = m\<lparr>m_pmm := m_pmm m'\<rparr>" "pmm_wf (m_pmm m')" "mem_base (m_pmm m') = mem_base (m_pmm m)"
    "mem_base (m_pmm m) \<le> a" "{a..<a + 4096} \<subseteq> free_mem (m_pmm m)"
    "free_mem (m_pmm m') = free_mem (m_pmm m) - {a..<a + 4096}"
proof -
  from assms(1,3) obtain f where f: "alloc_frames 1 (m_pmm m) = (m_pmm m', Some f)"
    and m': "m' = m\<lparr>m_pmm := m_pmm m'\<rparr>" and a: "a = mem_base (m_pmm m') + f * 4096"
    by (auto simp: alloc_pages_def frame_to_addr_def split: prod.splits option.splits)
  note A = alloc_frames_Some[OF assms(2) zero_less_one f]
  show "m' = m\<lparr>m_pmm := m_pmm m'\<rparr>" "pmm_wf (m_pmm m')" "mem_base (m_pmm m') = mem_base (m_pmm m)"
    using m' A by auto
  show "mem_base (m_pmm m) \<le> a" using a A(6) by simp
  have "f \<in> free_set (m_pmm m)" using A(3) by simp
  then show "{a..<a + 4096} \<subseteq> free_mem (m_pmm m)" using a A(6) by (force simp: free_mem_def)
  have "g = f" if "x \<in> {mem_base (m_pmm m) + g * 4096..<mem_base (m_pmm m) + g * 4096 + 4096}"
    "x \<in> {a..<a + 4096}" for x g
    using that a A(6) by (cases g f rule: linorder_cases) auto
  moreover have "free_set (m_pmm m') = free_set (m_pmm m) - {f}"
    using A(4) by (simp add: atLeastLessThanSuc)
  ultimately show "free_mem (m_pmm m') = free_mem (m_pmm m) - {a..<a + 4096}"
    using a A(6) by (fastforce simp: free_mem_def)
qed

lemma slab_blocks_in:
  assumes "i < 9" "b \<in> set (slab_blocks slab (CLASSES ! i) (4096 div CLASSES ! i))"
  shows "blk i b \<subseteq> {slab..<slab + 4096}"
proof -
  from assms(2) obtain k where k: "k < 4096 div CLASSES ! i" "b = slab + k * CLASSES ! i"
    by (auto simp: slab_blocks_def)
  have "Suc k * CLASSES ! i \<le> 4096 div CLASSES ! i * CLASSES ! i"
    using k(1) by (intro mult_le_mono1) simp
  also have "\<dots> = 4096" using CLASSES_props(1)[OF assms(1)] by simp
  finally show ?thesis using k(2) by (auto simp: blk_def)
qed

lemma slab_blocks_disjoint:
  assumes "i < 9" "b \<in> set (slab_blocks slab (CLASSES ! i) n)" "c \<in> set (slab_blocks slab (CLASSES ! i) n)" "b \<noteq> c"
  shows "blk i b \<inter> blk i c = {}"
proof -
  from assms(2,3) obtain k l where k: "b = slab + k * CLASSES ! i" and l: "c = slab + l * CLASSES ! i"
    by (auto simp: slab_blocks_def)
  have "Suc k \<le> l \<or> Suc l \<le> k" using k l assms(4) by (auto simp: Suc_le_eq neq_iff)
  then have "Suc k * CLASSES ! i \<le> l * CLASSES ! i \<or> Suc l * CLASSES ! i \<le> k * CLASSES ! i"
    by (blast intro: mult_le_mono1)
  with k l show ?thesis by (auto simp: blk_def)
qed

lemma distinct_slab_blocks: "0 < bs \<Longrightarrow> distinct (slab_blocks slab bs n)"
  by (auto simp: slab_blocks_def distinct_map inj_on_def)

lemma slab_inv_add_blocks:
  assumes inv: "slab_inv L m" and i: "i < 9"
    and pm: "pmm_wf p" "mem_base p = mem_base (m_pmm m)"
    and new: "distinct bs" "\<And>b. b \<in> set bs \<Longrightarrow> blk i b \<subseteq> R"
      "\<And>b c. b \<in> set bs \<Longrightarrow> c \<in> set bs \<Longrightarrow> b \<noteq> c \<Longrightarrow> blk i b \<inter> blk i c = {}"
    and R: "\<And>j c. j < 9 \<Longrightarrow> c \<in> set (L ! j) \<Longrightarrow> blk j c \<inter> R = {}"
    and fm: "free_mem p \<subseteq> free_mem (m_pmm m) - R"
    and ch: "chain st h (bs @ L ! i)" "\<And>x. x \<notin> set bs \<Longrightarrow> st x = m_store m x"
  shows "slab_inv (L[i := bs @ L ! i])
    (m\<lparr>m_pmm := p, m_store := st, m_caches := upd_nth i (\<lambda>c. c\<lparr>c_head := h\<rparr>) (m_caches m)\<rparr>)"
proof -
  note D = slab_invD[OF inv]
  have notin: "c \<notin> set bs" if "j < 9" "c \<in> set (L ! j)" for j c
    using new(2)[of c] R[OF that] blk_self[OF i, of c] blk_self[OF that(1), of c] by blast
  have mem: "c \<in> set (L[i := bs @ L ! i] ! j) \<longleftrightarrow> c \<in> set (L ! j) \<or> j = i \<and> c \<in> set bs" if "j < 9" for j c
    using D(4) i that by (auto simp: nth_list_update)
  show ?thesis
    unfolding slab_inv_def
  proof (intro conjI allI impI ballI)
    fix j :: nat assume j: "j < 9"
    have "chain st h' (L ! j) \<longleftrightarrow> chain (m_store m) h' (L ! j)" for h'
      using notin[OF j] ch(2) by (intro chain_frame) blast
    then show "chain (m_store (m\<lparr>m_pmm := p, m_store := st, m_caches := upd_nth i (\<lambda>c. c\<lparr>c_head := h\<rparr>) (m_caches m)\<rparr>))
      (c_head (m_caches (m\<lparr>m_pmm := p, m_store := st, m_caches := upd_nth i (\<lambda>c. c\<lparr>c_head := h\<rparr>) (m_caches m)\<rparr>) ! j))
      (L[i := bs @ L ! i] ! j)"
      using D(4,5) D(7)[OF j] ch(1) i j by (auto simp: nth_list_update)
    show "distinct (L[i := bs @ L ! i] ! j)"
      using D(4) D(8)[OF j] D(8)[OF i] new(1) notin[OF i] i j by (auto simp: nth_list_update)
  next
    fix j c :: nat assume j: "j < 9" and c: "c \<in> set (L[i := bs @ L ! i] ! j)"
    show "blk j c \<inter> free_mem (m_pmm (m\<lparr>m_pmm := p, m_store := st, m_caches := upd_nth i (\<lambda>c. c\<lparr>c_head := h\<rparr>) (m_caches m)\<rparr>)) = {}"
      using c fm new(2)[of c] D(9)[OF j, of c] by (auto simp: mem[OF j])
  next
    fix j k c d :: nat assume jk: "j < 9" "k < 9" and cd: "c \<in> set (L[i := bs @ L ! i] ! j)" "d \<in> set (L[i := bs @ L ! i] ! k)"
      and ne: "(j, c) \<noteq> (k, d)"
    show "blk j c \<inter> blk k d = {}"
      using cd ne D(10)[OF jk, of c d] R[OF jk(1), of c] R[OF jk(2), of d] new(2)[of c] new(2)[of d] new(3)[of c d]
      by (auto simp: mem[OF jk(1)] mem[OF jk(2)])
  qed (use D(1-6) pm i in \<open>simp_all\<close>)
qed

lemma slab_grow_inv:
  assumes inv: "slab_inv L m" and i: "i < 9" and g: "slab_grow i m = (m', True)"
  shows "\<exists>slab. slab_inv (L[i := slab_blocks slab (CLASSES ! i) (4096 div CLASSES ! i) @ L ! i]) m'
    \<and> {slab..<slab + 4096} \<subseteq> free_mem (m_pmm m) \<and> free_mem (m_pmm m') = free_mem (m_pmm m) - {slab..<slab + 4096}"
proof -
  note D = slab_invD[OF inv]
  from g obtain m1 slab where a: "alloc_pages 1 m = (m1, Some slab)"
    and m': "m' = m1\<lparr>m_store := link_blocks slab (CLASSES ! i) (4096 div CLASSES ! i) (c_head (m_caches m1 ! i)) (m_store m1),
              m_caches := upd_nth i (\<lambda>c. c\<lparr>c_head := slab\<rparr>) (m_caches m1)\<rparr>"
    by (auto simp: slab_grow_def SLAB_PAGES_def SLAB_SIZE_def D(6)[OF i] Let_def split: prod.splits option.splits)
  note A = alloc_page[OF D(1,2) a]
  let ?n = "4096 div CLASSES ! i" and ?bs = "slab_blocks slab (CLASSES ! i) (4096 div CLASSES ! i)"
  have m1: "m_caches m1 = m_caches m" "m_store m1 = m_store m" by (subst A(1), simp)+
  have pos: "0 < CLASSES ! i" "0 < ?n"
    using CLASSES_props[OF i] by (auto simp: div_greater_zero_iff)
  have R: "blk j c \<inter> {slab..<slab + 4096} = {}" if "j < 9" "c \<in> set (L ! j)" for j c
    using D(9)[OF that] A(5) by blast
  have fresh: "set (L ! i) \<inter> set ?bs = {}"
  proof -
    have "blk i c \<subseteq> {slab..<slab + 4096}" if "c \<in> set ?bs" for c using slab_blocks_in[OF i that] .
    with R[OF i] blk_self[OF i] show ?thesis by blast
  qed
  have "slab \<noteq> 0" using A(4) D(3) by simp
  then have ch: "chain (link_blocks slab (CLASSES ! i) ?n (c_head (m_caches m ! i)) (m_store m)) slab (?bs @ L ! i)"
    using chain_link_blocks[OF pos _ D(7)[OF i] fresh] by simp
  have "slab_inv (L[i := ?bs @ L ! i])
    (m\<lparr>m_pmm := m_pmm m1, m_store := link_blocks slab (CLASSES ! i) ?n (c_head (m_caches m ! i)) (m_store m),
       m_caches := upd_nth i (\<lambda>c. c\<lparr>c_head := slab\<rparr>) (m_caches m)\<rparr>)"
    using slab_inv_add_blocks[OF inv i A(2,3) distinct_slab_blocks[OF pos(1)] slab_blocks_in[OF i]
        slab_blocks_disjoint[OF i] R _ ch link_blocks_other] A(6) by auto
  moreover have "m' = m\<lparr>m_pmm := m_pmm m1, m_store := link_blocks slab (CLASSES ! i) ?n (c_head (m_caches m ! i)) (m_store m),
       m_caches := upd_nth i (\<lambda>c. c\<lparr>c_head := slab\<rparr>) (m_caches m)\<rparr>"
    unfolding m' m1 by (subst A(1)) simp
  moreover have "m_pmm m' = m_pmm m1" unfolding m' by simp
  ultimately show ?thesis using A(5,6) by metis
qed

lemma slab_grow_False: "slab_inv L m \<Longrightarrow> slab_grow i m = (m', False) \<Longrightarrow> m' = m"
  using slab_invD(1)[of L m]
  by (auto simp: slab_grow_def alloc_pages_def SLAB_PAGES_def alloc_frames_def Let_def
      split: prod.splits option.splits)

section \<open>The set of free bytes\<close>

text \<open>The abstract state of the heap: the bytes of the free blocks and of the free frames.\<close>

definition free_bytes :: "nat list list \<Rightarrow> mem \<Rightarrow> nat set" where
  "free_bytes L m = (\<Union>i<9. \<Union>b\<in>set (L ! i). blk i b) \<union> free_mem (m_pmm m)"

lemma blocks_update:
  assumes "length L = 9" "i < 9"
  shows "(\<Union>j<9. \<Union>b\<in>set (L[i := bs] ! j). blk j b) =
    (\<Union>j\<in>{..<9} - {i}. \<Union>b\<in>set (L ! j). blk j b) \<union> (\<Union>b\<in>set bs. blk i b)"
proof -
  have "(\<Union>j<9. f j) = (\<Union>j\<in>{..<9} - {i}. f j) \<union> f i" for f :: "nat \<Rightarrow> nat set" using assms(2) by auto
  from this[of "\<lambda>j. \<Union>b\<in>set (L[i := bs] ! j). blk j b"] have "(\<Union>j<9. \<Union>b\<in>set (L[i := bs] ! j). blk j b) =
      (\<Union>j\<in>{..<9} - {i}. \<Union>b\<in>set (L[i := bs] ! j). blk j b) \<union> (\<Union>b\<in>set (L[i := bs] ! i). blk i b)" .
  then show ?thesis using assms by simp
qed

lemma blocks_split:
  "length L = 9 \<Longrightarrow> i < 9 \<Longrightarrow> (\<Union>j<9. \<Union>b\<in>set (L ! j). blk j b) =
    (\<Union>j\<in>{..<9} - {i}. \<Union>b\<in>set (L ! j). blk j b) \<union> (\<Union>b\<in>set (L ! i). blk i b)"
  using blocks_update[of L i "L ! i"] by simp

lemma free_bytes_pop:
  assumes inv: "slab_inv L m" and i: "i < 9" and ne: "L ! i = b # bs"
  shows "free_bytes (L[i := bs]) (fst (slab_pop i m)) = free_bytes L m - blk i b" "blk i b \<subseteq> free_bytes L m"
proof -
  note D = slab_invD[OF inv]
  let ?R = "\<Union>j\<in>{..<9} - {i}. \<Union>b\<in>set (L ! j). blk j b"
  have "blk i b \<inter> ?R = {}" using D(10)[OF i, of _ b] ne by fastforce
  moreover have "blk i b \<inter> (\<Union>b\<in>set bs. blk i b) = {}"
    using D(10)[OF i i, of b] D(8)[OF i] ne by fastforce
  moreover have "blk i b \<inter> free_mem (m_pmm m) = {}" using D(9)[OF i, of b] ne by simp
  ultimately show "free_bytes (L[i := bs]) (fst (slab_pop i m)) = free_bytes L m - blk i b"
    unfolding free_bytes_def blocks_update[OF D(4) i] blocks_split[OF D(4) i] ne
    by (auto simp: slab_pop_def Let_def)
  show "blk i b \<subseteq> free_bytes L m" using ne i by (fastforce simp: free_bytes_def)
qed

lemma slab_blocks_cover:
  assumes "i < 9"
  shows "(\<Union>b\<in>set (slab_blocks slab (CLASSES ! i) (4096 div CLASSES ! i)). blk i b) = {slab..<slab + 4096}"
proof
  show "(\<Union>b\<in>set (slab_blocks slab (CLASSES ! i) (4096 div CLASSES ! i)). blk i b) \<subseteq> {slab..<slab + 4096}"
    using slab_blocks_in[OF assms] by blast
  let ?c = "CLASSES ! i"
  have c: "?c dvd 4096" "0 < ?c" using CLASSES_props[OF assms] by auto
  show "{slab..<slab + 4096} \<subseteq> (\<Union>b\<in>set (slab_blocks slab ?c (4096 div ?c)). blk i b)"
  proof
    fix x assume x: "x \<in> {slab..<slab + 4096}"
    let ?k = "(x - slab) div ?c"
    have "x - slab < 4096 div ?c * ?c" using x c by auto
    then have "?k < 4096 div ?c" using c(2) by (simp add: div_less_iff_less_mult)
    moreover have "x \<in> blk i (slab + ?k * ?c)"
      using x div_mult_mod_eq[of "x - slab" ?c] mod_less_divisor[OF c(2), of "x - slab"] unfolding blk_def by auto
    ultimately show "x \<in> (\<Union>b\<in>set (slab_blocks slab ?c (4096 div ?c)). blk i b)"
      by (auto simp: slab_blocks_def)
  qed
qed

lemma free_bytes_grow:
  assumes inv: "slab_inv L m" and i: "i < 9" and g: "slab_grow i m = (m', True)"
  shows "\<exists>b bs. slab_inv (L[i := b # bs]) m' \<and> free_bytes (L[i := b # bs]) m' = free_bytes L m"
proof -
  note D = slab_invD[OF inv]
  from slab_grow_inv[OF inv i g] obtain slab where
    K: "slab_inv (L[i := slab_blocks slab (CLASSES ! i) (4096 div CLASSES ! i) @ L ! i]) m'"
    and page: "{slab..<slab + 4096} \<subseteq> free_mem (m_pmm m)"
      "free_mem (m_pmm m') = free_mem (m_pmm m) - {slab..<slab + 4096}" by blast
  obtain b bs where bs: "slab_blocks slab (CLASSES ! i) (4096 div CLASSES ! i) @ L ! i = b # bs"
    using CLASSES_props[OF i] by (cases "slab_blocks slab (CLASSES ! i) (4096 div CLASSES ! i)")
      (auto simp: slab_blocks_def div_greater_zero_iff dest: arg_cong[of _ _ length])
  have "(\<Union>b\<in>set (slab_blocks slab (CLASSES ! i) (4096 div CLASSES ! i) @ L ! i). blk i b)
      = {slab..<slab + 4096} \<union> (\<Union>b\<in>set (L ! i). blk i b)"
    using slab_blocks_cover[OF i, of slab] by (simp add: UN_Un)
  then have "free_bytes (L[i := b # bs]) m' = free_bytes L m"
    unfolding free_bytes_def bs[symmetric] blocks_update[OF D(4) i] blocks_split[OF D(4) i] page(2) using page(1) by auto
  with K show ?thesis unfolding bs by blast
qed

text \<open>A small allocation takes one block out of the free bytes.\<close>

lemma slab_alloc_small:
  assumes inv: "slab_inv L m" and ci: "class_index (max sz 8) = Some i" and r: "slab_alloc sz m = (m', b)"
  shows "if b = 0 then m' = m \<and> L ! i = [] \<and> snd (alloc_pages 1 m) = None
    else \<exists>L'. slab_inv L' m' \<and> blk i b \<subseteq> free_bytes L m \<and> free_bytes L' m' = free_bytes L m - blk i b"
proof -
  have i: "i < 9" using class_index_Some[OF ci] by simp
  note D = slab_invD[OF inv]
  have popped: "snd (slab_pop i n) \<noteq> 0 \<and> (\<exists>L'. slab_inv L' (fst (slab_pop i n))
      \<and> blk i (snd (slab_pop i n)) \<subseteq> free_bytes K n \<and> free_bytes L' (fst (slab_pop i n)) = free_bytes K n - blk i (snd (slab_pop i n)))"
    if K: "slab_inv K n" and ne: "K ! i = c # cs" for K n c cs
    using slab_invD(7)[OF K i] slab_pop_inv[OF K i ne] free_bytes_pop[OF K i ne] ne by auto
  show ?thesis
  proof (cases "c_head (m_caches m ! i) = 0")
    case False
    then obtain c cs where "L ! i = c # cs" using D(7)[OF i] by (cases "L ! i") auto
    from popped[OF inv this] False ci r show ?thesis by (auto simp: slab_alloc_def Let_def)
  next
    case True
    then have Li: "L ! i = []" using D(7)[OF i] by (simp add: chain_0)
    obtain m1 ok where g: "slab_grow i m = (m1, ok)" by fastforce
    show ?thesis
    proof (cases ok)
      case False
      then have "snd (alloc_pages 1 m) = None" using g
        by (auto simp: slab_grow_def Let_def SLAB_PAGES_def split: prod.splits option.splits)
      with slab_grow_False[OF inv, of i m1] g False True ci r Li show ?thesis by (auto simp: slab_alloc_def Let_def)
    next
      case ok: True
      have g1: "slab_grow i m = (m1, True)" using g ok by simp
      from free_bytes_grow[OF inv i g1] obtain c cs where
        K: "slab_inv (L[i := c # cs]) m1" "free_bytes (L[i := c # cs]) m1 = free_bytes L m" by auto
      have "L[i := c # cs] ! i = c # cs" using D(4) i by simp
      from popped[OF K(1) this] K(2) True g ok ci r show ?thesis by (auto simp: slab_alloc_def Let_def)
    qed
  qed
qed

text \<open>Returning a block that overlaps nothing free puts it back.\<close>

lemma slab_dealloc_small:
  assumes inv: "slab_inv L m" and ci: "class_index (max sz 8) = Some i" and p: "p \<noteq> 0"
    and live: "blk i p \<inter> free_bytes L m = {}"
  shows "slab_inv (L[i := p # L ! i]) (slab_dealloc p sz m)"
    "free_bytes (L[i := p # L ! i]) (slab_dealloc p sz m) = free_bytes L m \<union> blk i p"
proof -
  have i: "i < 9" using class_index_Some[OF ci] by simp
  note D = slab_invD[OF inv]
  have out: "blk j c \<inter> blk i p = {}" if "j < 9" "c \<in> set (L ! j)" for j c
    using live that by (fastforce simp: free_bytes_def)
  have notin: "p \<notin> set (L ! i)" using out[OF i, of p] blk_self[OF i, of p] by blast
  have "slab_inv (L[i := [p] @ L ! i]) (m\<lparr>m_pmm := m_pmm m, m_store := (m_store m)(p := c_head (m_caches m ! i)),
      m_caches := upd_nth i (\<lambda>c. c\<lparr>c_head := p\<rparr>) (m_caches m)\<rparr>)"
    by (rule slab_inv_add_blocks[OF inv i D(2) refl, where R = "blk i p"])
       (use live out p notin D(7)[OF i] in \<open>auto simp: free_bytes_def\<close>)
  with p ci show "slab_inv (L[i := p # L ! i]) (slab_dealloc p sz m)" by (simp add: slab_dealloc_def Let_def)
  have "free_mem (m_pmm (slab_dealloc p sz m)) = free_mem (m_pmm m)" using p ci by (simp add: slab_dealloc_def Let_def)
  then show "free_bytes (L[i := p # L ! i]) (slab_dealloc p sz m) = free_bytes L m \<union> blk i p"
    unfolding free_bytes_def blocks_update[OF D(4) i] blocks_split[OF D(4) i] by auto
qed

section \<open>Initialisation\<close>

lemma slab_init_caches:
  "m_caches m = replicate 9 c \<Longrightarrow> slab_init m = m\<lparr>m_caches := map (\<lambda>s. c\<lparr>block_size := s\<rparr>) CLASSES\<rparr>"
  by (simp add: slab_init_def CLASSES_def upd_nth_def numeral_eq_Suc)

lemma mem_init_parts:
  "m_pmm (mem_init t kend mm (mem_boot st)) = init_from_mmap t kend mm pmm_bss"
  "bitmap_ready (mem_init t kend mm (mem_boot st))"
  "m_caches (mem_init t kend mm (mem_boot st)) = map (\<lambda>s. \<lparr>c_head = 0, block_size = s\<rparr>) CLASSES"
  by (simp_all add: mem_init_def Let_def slab_init_caches[of _ "\<lparr>c_head = 0, block_size = 0\<rparr>"] mem_boot_def)

lemma init_pmm_wf:
  assumes "target_ok t"
  shows "pmm_wf (init_from_mmap t kend mm pmm_bss)" "0 < mem_base (init_from_mmap t kend mm pmm_bss)"
proof -
  have "pmm_wf (init_from_mmap t kend mm pmm_bss) \<and> 0 < mem_base (init_from_mmap t kend mm pmm_bss)"
  proof (cases "largest_usable mm (pmm_min_base t)")
    case None
    then have eq: "init_from_mmap t kend mm pmm_bss = init_fallback t pmm_bss" by (simp add: init_from_mmap_def)
    show ?thesis unfolding eq using init_fallback_effect[OF assms] pmm_min_base_pos[OF assms] by simp
  next
    case (Some r)
    then have "pmm_min_base t \<le> mr_base r"
      using largest_usable_best_of[of "pmm_min_base t" mm] by (simp add: best_of_def)
    then show ?thesis using init_from_mmap_effect[OF Some, of kend] pmm_min_base_pos[OF assms] by simp
  qed
  then show "pmm_wf (init_from_mmap t kend mm pmm_bss)" "0 < mem_base (init_from_mmap t kend mm pmm_bss)" by auto
qed

lemma mem_init_slab_inv:
  assumes "target_ok t"
  shows "slab_inv (replicate 9 []) (mem_init t kend mm (mem_boot st))"
proof -
  have "m_caches (mem_init t kend mm (mem_boot st)) ! i = \<lparr>c_head = 0, block_size = CLASSES ! i\<rparr>" if "i < 9" for i
    using that by (simp add: mem_init_parts)
  then show ?thesis
    using init_pmm_wf[OF assms, of kend mm] by (simp add: slab_inv_def mem_init_parts(1,2)) (simp add: mem_init_parts(3))
qed

lemma free_mem_above:
  assumes r: "largest_usable mm (pmm_min_base t) = Some r" and a: "a \<in> free_mem (init_from_mmap t kend mm pmm_bss)"
  shows "kend \<le> a"
proof -
  note E = init_from_mmap_effect[OF r, of kend]
  from a obtain f where f: "f \<in> free_set (init_from_mmap t kend mm pmm_bss)" "mr_base r + f * 4096 \<le> a"
    by (auto simp: free_mem_def E(2))
  show ?thesis
  proof (cases "kend > mr_base r")
    case True
    then have "(kend - mr_base r + 4095) div 4096 \<le> f" using f(1) unfolding E(4) by simp
    then have "(kend - mr_base r + 4095) div 4096 * 4096 \<le> f * 4096" by (rule mult_le_mono1)
    then show ?thesis
      using f(2) div_mult_mod_eq[of "kend - mr_base r + 4095" 4096] mod_less_divisor[of 4096 "kend - mr_base r + 4095"] by linarith
  next
    case False
    then show ?thesis using f(2) by simp
  qed
qed

section \<open>Properties\<close>



text \<open>Freeing a live small block (one that overlaps no free byte) restores the heap invariant and makes
  exactly its bytes free again.\<close>

theorem slab_dealloc_returns_block:
  assumes "slab_inv L m" "class_index (max sz 8) = Some i" "p \<noteq> 0" "blk i p \<inter> free_bytes L m = {}"
  shows "slab_inv (L[i := p # L ! i]) (slab_dealloc p sz m)
    \<and> free_bytes (L[i := p # L ! i]) (slab_dealloc p sz m) = free_bytes L m \<union> blk i p"
  using slab_dealloc_small[OF assms] by simp

theorem slab_dealloc_returns_block_witness:
  "let m = mem_init X86_64 0x200000 mmap_empty (mem_boot (\<lambda>_. 0)) in
     free_bytes ((replicate 9 [])[2 := [0x8000]]) (slab_dealloc 0x8000 24 m) = free_bytes (replicate 9 []) m \<union> blk 2 0x8000"
proof -
  let ?m = "mem_init X86_64 0x200000 mmap_empty (mem_boot (\<lambda>_. 0))"
  have c: "class_index (max 24 8) = Some 2"
    by (simp add: class_index_def scan_def CLASSES_def upt_rec numeral_eq_Suc)
  have inv: "slab_inv (replicate 9 []) ?m" by (rule mem_init_slab_inv) (simp add: target_ok_def)
  have "m_pmm ?m = init_fallback X86_64 pmm_bss"
    by (simp add: mem_init_parts init_from_mmap_def largest_usable_def mmap_iter_def mmap_empty_def)
  then have "free_bytes (replicate 9 []) ?m \<subseteq> {0x100000..}"
    by (auto simp: free_bytes_def free_mem_def init_fallback_def pmm_min_base_def)
  then have "blk 2 0x8000 \<inter> free_bytes (replicate 9 []) ?m = {}" by (force simp: blk_def CLASSES_def)
  from slab_dealloc_returns_block[OF inv c _ this] show ?thesis by (simp add: Let_def)
qed

text \<open>C38: \<^verbatim>\<open>memory::init\<close> establishes the heap invariant with empty free lists, and when the boot loader
  reported a usable region no address below the end of the kernel image is ever free.\<close>

theorem mem_init_protects_kernel:
  assumes "target_ok t"
  shows "slab_inv (replicate 9 []) (mem_init t kend mm (mem_boot st))
    \<and> (largest_usable mm (pmm_min_base t) \<noteq> None \<longrightarrow>
        (\<forall>a \<in> free_bytes (replicate 9 []) (mem_init t kend mm (mem_boot st)). kend \<le> a))"
  using mem_init_slab_inv[OF assms] free_mem_above[of mm t] by (auto simp: free_bytes_def mem_init_parts)

theorem mem_init_protects_kernel_witness:
  "slab_inv (replicate 9 []) (mem_init X86_64 0x300000 (mmap_add 0x100000 0x7F00000 Usable mmap_empty) (mem_boot (\<lambda>_. 0)))
   \<and> 0x2FFFFF \<notin> free_bytes (replicate 9 []) (mem_init X86_64 0x300000 (mmap_add 0x100000 0x7F00000 Usable mmap_empty) (mem_boot (\<lambda>_. 0)))"
proof -
  let ?mm = "mmap_add 0x100000 0x7F00000 Usable mmap_empty"
  have "mmap_iter ?mm = [\<lparr>mr_base = 0x100000, mr_size = 0x7F00000, mr_kind = Usable\<rparr>]"
    by (simp add: mmap_iter_add mmap_empty_wf) (simp add: mmap_iter_def mmap_empty_def MAX_REGIONS_def)
  then have "largest_usable ?mm (pmm_min_base X86_64) \<noteq> None"
    by (simp add: largest_usable_def largest_step_def region_end_def usize_max_def pmm_min_base_def)
  with mem_init_protects_kernel[of X86_64 "0x300000" ?mm "\<lambda>_. 0"] show ?thesis by (force simp: target_ok_def)
qed

text \<open>The fallback used when no memory map was found does not reserve the kernel image: every byte of
  the image from the start of managed memory on is free.\<close>

theorem fallback_leaves_kernel_free:
  assumes "target_ok t" "largest_usable mm (pmm_min_base t) = None"
    "pmm_min_base t \<le> a" "a < pmm_min_base t + total_frames (init_fallback t pmm_bss) * 4096"
  shows "a \<in> free_bytes (replicate 9 []) (mem_init t kend mm (mem_boot st))"
proof -
  have eq: "init_from_mmap t kend mm pmm_bss = init_fallback t pmm_bss" using assms(2) by (simp add: init_from_mmap_def)
  note E = init_fallback_effect[OF assms(1)]
  let ?f = "(a - pmm_min_base t) div 4096"
  have "?f < total_frames (init_fallback t pmm_bss)" using assms(3,4) by (simp add: div_less_iff_less_mult)
  moreover have "a \<in> {pmm_min_base t + ?f * 4096..<pmm_min_base t + ?f * 4096 + 4096}"
    using assms(3) div_mult_mod_eq[of "a - pmm_min_base t" 4096] mod_less_divisor[of 4096 "a - pmm_min_base t"]
    by (auto simp del: div_mult_mod_eq)
  ultimately have "a \<in> free_mem (init_fallback t pmm_bss)"
    unfolding free_mem_def E(2,3) by blast
  then show ?thesis by (simp add: free_bytes_def mem_init_parts eq)
qed

theorem fallback_leaves_kernel_free_witness:
  "0x100000 \<in> free_bytes (replicate 9 []) (mem_init X86_64 0x300000 mmap_empty (mem_boot (\<lambda>_. 0)))"
proof (rule fallback_leaves_kernel_free)
  have "mmap_iter mmap_empty = []" by (simp add: mmap_iter_def mmap_empty_def)
  then show "largest_usable mmap_empty (pmm_min_base X86_64) = None" by (simp add: largest_usable_def)
  show "target_ok X86_64" by (simp add: target_ok_def)
  show "pmm_min_base X86_64 \<le> 0x100000" by (simp add: pmm_min_base_def)
  show "0x100000 < pmm_min_base X86_64 + total_frames (init_fallback X86_64 pmm_bss) * 4096"
    by (simp add: pmm_min_base_def init_fallback_def)
qed

end
