(* ===== verification/PageTree.thy ===== *)
theory PageTree
  imports Memory
begin

text \<open>
  Trees of page tables in physical memory, for the paging code of all targets.  A format (\<open>pt_format\<close>) says how
  entries are read and made; the locale \<open>page_format\<close> states the three laws that the paging code relies on, and
  in it the descent that allocates missing tables (\<open>descend\<close>), the write of a leaf and their effect on
  the walk of every address are proved once.  The x86_64 and Sv39 formats are interpretations.
\<close>

section \<open>Words and pages\<close>

definition rd64 :: "mem \<Rightarrow> nat \<Rightarrow> u64" where
  "rd64 m a = word_of_nat (m_store m a)"

definition wr64 :: "nat \<Rightarrow> u64 \<Rightarrow> mem \<Rightarrow> mem" where
  "wr64 a v m = m\<lparr>m_store := (m_store m)(a := unat v)\<rparr>"

text \<open>\<^verbatim>\<open>write_bytes(a, 0, 4096)\<close> and \<^verbatim>\<open>copy_nonoverlapping(src, dst, 4096)\<close> on pages.\<close>

definition zero_page :: "nat \<Rightarrow> mem \<Rightarrow> mem" where
  "zero_page a m = m\<lparr>m_store := (\<lambda>x. if a \<le> x \<and> x < a + 4096 then 0 else m_store m x)\<rparr>"

definition copy_page :: "nat \<Rightarrow> nat \<Rightarrow> mem \<Rightarrow> mem" where
  "copy_page src dst m =
     m\<lparr>m_store := (\<lambda>x. if dst \<le> x \<and> x < dst + 4096 then m_store m (x - dst + src) else m_store m x)\<rparr>"

section \<open>Formats, walks and trees\<close>

text \<open>\<open>pf_plain_top\<close>: the code does not look for leaves in the root table, which must not have any.\<close>

record pt_format =
  pf_present :: "u64 \<Rightarrow> bool"
  pf_leaf :: "u64 \<Rightarrow> bool"
  pf_addr :: "u64 \<Rightarrow> nat"
  pf_table :: "nat \<Rightarrow> u64"
  pf_depth :: nat
  pf_plain_top :: bool

fun tbl :: "pt_format \<Rightarrow> mem \<Rightarrow> nat \<Rightarrow> nat list \<Rightarrow> nat option" where
  "tbl F m t [] = Some t"
| "tbl F m t (i # is) =
     (let e = rd64 m (t + 8 * i) in
      if pf_present F e \<and> \<not> pf_leaf F e then tbl F m (pf_addr F e) is else None)"

text \<open>The entry that ends the walk along a path, with the number of levels left.\<close>

fun walk :: "pt_format \<Rightarrow> mem \<Rightarrow> nat \<Rightarrow> nat list \<Rightarrow> (u64 \<times> nat) option" where
  "walk F m t [] = None"
| "walk F m t (i # is) =
     (let e = rd64 m (t + 8 * i) in
      if \<not> pf_present F e then None
      else if is = [] \<or> pf_leaf F e then Some (e, length is)
      else walk F m (pf_addr F e) is)"

definition tpos :: "pt_format \<Rightarrow> nat list \<Rightarrow> bool" where
  "tpos F is \<longleftrightarrow> length is \<le> pf_depth F \<and> list_all (\<lambda>i. i < 512) is"

definition full_path :: "pt_format \<Rightarrow> nat list \<Rightarrow> bool" where
  "full_path F p \<longleftrightarrow> length p = Suc (pf_depth F) \<and> list_all (\<lambda>i. i < 512) p"

text \<open>The allocator is well formed and hands out pages of the 64-bit physical address space.\<close>

definition alloc_ok :: "mem \<Rightarrow> bool" where
  "alloc_ok m \<longleftrightarrow>
     bitmap_ready m \<and> pmm_wf (m_pmm m) \<and> 4096 dvd mem_base (m_pmm m)
     \<and> mem_base (m_pmm m) + total_frames (m_pmm m) * 4096 \<le> 2 ^ 64"

text \<open>The tables of the address space are pages that are not free, and each of them hangs at one place
  of the tree only.\<close>

definition tree :: "pt_format \<Rightarrow> mem \<Rightarrow> nat \<Rightarrow> bool" where
  "tree F m root \<longleftrightarrow>
     alloc_ok m
     \<and> (pf_plain_top F \<longrightarrow> (\<forall>i < 512. pf_present F (rd64 m (root + 8 * i)) \<longrightarrow> \<not> pf_leaf F (rd64 m (root + 8 * i))))
     \<and> (\<forall>is t. tpos F is \<longrightarrow> tbl F m root is = Some t \<longrightarrow> 4096 dvd t \<and> {t..<t + 4096} \<inter> free_mem (m_pmm m) = {})
     \<and> (\<forall>is js t. tpos F is \<longrightarrow> tpos F js \<longrightarrow> tbl F m root is = Some t \<longrightarrow> tbl F m root js = Some t \<longrightarrow> is = js)"

section \<open>Mapping\<close>

text \<open>The table behind an entry, allocated on demand; \<open>check\<close> says whether a leaf is refused.\<close>

definition next_tbl :: "pt_format \<Rightarrow> bool \<Rightarrow> nat \<Rightarrow> nat \<Rightarrow> mem \<Rightarrow> mem \<times> nat option" where
  "next_tbl F check t i m =
     (let e = rd64 m (t + 8 * i) in
      if pf_present F e then
        if check \<and> pf_leaf F e then (m, None) else (m, Some (pf_addr F e))
      else case alloc_pages 1 m of
        (m1, None) \<Rightarrow> (m1, None)
      | (m1, Some new) \<Rightarrow> (wr64 (t + 8 * i) (pf_table F new) (zero_page new m1), Some new))"

fun descend :: "pt_format \<Rightarrow> bool \<Rightarrow> nat \<Rightarrow> nat list \<Rightarrow> mem \<Rightarrow> mem \<times> nat option" where
  "descend F check t [] m = (m, Some t)"
| "descend F check t (i # is) m =
     (case next_tbl F check t i m of
        (m1, None) \<Rightarrow> (m1, None)
      | (m1, Some u) \<Rightarrow> descend F True u is m1)"

definition map_path :: "pt_format \<Rightarrow> nat \<Rightarrow> nat list \<Rightarrow> u64 \<Rightarrow> mem \<Rightarrow> mem \<times> bool" where
  "map_path F root p e m =
     (case descend F (\<not> pf_plain_top F) root (butlast p) m of
        (m1, None) \<Rightarrow> (m1, False)
      | (m1, Some t) \<Rightarrow> (wr64 (t + 8 * last p) e m1, True))"

text \<open>No leaf above the last level on a path.\<close>

fun clear_path :: "pt_format \<Rightarrow> mem \<Rightarrow> nat \<Rightarrow> nat list \<Rightarrow> bool" where
  "clear_path F m t [] = True"
| "clear_path F m t (i # is) =
     (let e = rd64 m (t + 8 * i) in pf_present F e \<longrightarrow> \<not> pf_leaf F e \<and> clear_path F m (pf_addr F e) is)"

section \<open>Facts about memory and trees\<close>

lemma rd64_wr64 [simp]: "rd64 (wr64 a v m) b = (if a = b then v else rd64 m b)"
  by (simp add: rd64_def wr64_def)

lemma mem_writes [simp]:
  "m_pmm (wr64 a v m) = m_pmm m" "m_pmm (zero_page a m) = m_pmm m" "m_pmm (copy_page a b m) = m_pmm m"
  "alloc_ok (wr64 a v m) = alloc_ok m" "alloc_ok (zero_page a m) = alloc_ok m" "alloc_ok (copy_page a b m) = alloc_ok m"
  by (simp_all add: alloc_ok_def wr64_def zero_page_def copy_page_def)

lemma treeD:
  assumes "tree F m root"
  shows "alloc_ok m"
    "pf_plain_top F \<Longrightarrow> i < 512 \<Longrightarrow> pf_present F (rd64 m (root + 8 * i)) \<Longrightarrow> \<not> pf_leaf F (rd64 m (root + 8 * i))"
    "tpos F is \<Longrightarrow> tbl F m root is = Some t \<Longrightarrow> 4096 dvd t"
    "tpos F is \<Longrightarrow> tbl F m root is = Some t \<Longrightarrow> {t..<t + 4096} \<inter> free_mem (m_pmm m) = {}"
    "tpos F is \<Longrightarrow> tpos F js \<Longrightarrow> tbl F m root is = Some t \<Longrightarrow> tbl F m root js = Some t \<Longrightarrow> is = js"
  using assms unfolding tree_def by blast+

lemma alloc_okD:
  assumes "alloc_ok m"
  shows "bitmap_ready m" "pmm_wf (m_pmm m)" "4096 dvd mem_base (m_pmm m)"
    "mem_base (m_pmm m) + total_frames (m_pmm m) * 4096 \<le> 2 ^ 64"
  using assms unfolding alloc_ok_def by blast+

lemma tpos_Nil [simp]: "tpos F []"
  by (simp add: tpos_def)

lemma tpos_snoc [simp]: "tpos F (is @ [i]) \<longleftrightarrow> length is < pf_depth F \<and> tpos F is \<and> i < 512"
  by (auto simp: tpos_def)

lemma tbl_snoc:
  "tbl F m t (is @ [i]) =
     (case tbl F m t is of
        None \<Rightarrow> None
      | Some u \<Rightarrow> let e = rd64 m (u + 8 * i) in if pf_present F e \<and> \<not> pf_leaf F e then Some (pf_addr F e) else None)"
  by (induction "is" arbitrary: t) (auto simp: Let_def)

text \<open>Different entries of the tree lie at different addresses.\<close>

lemma slots_distinct:
  assumes T: "tree F m root" and k: "tpos F ks" "tbl F m root ks = Some u" "k < 512"
    and i: "tpos F is" "tbl F m root is = Some t" "i < 512" and ne: "(ks, k) \<noteq> (is, i)"
  shows "u + 8 * k \<noteq> t + 8 * i"
proof (cases "u = t")
  case True
  then have "ks = is" using treeD(5)[OF T k(1) i(1)] k(2) i(2) by simp
  with ne True show ?thesis by simp
next
  case False
  obtain a b where ab: "u = 4096 * a" "t = 4096 * b"
    using treeD(3)[OF T k(1,2)] treeD(3)[OF T i(1,2)] by (auto elim!: dvdE)
  with False have "a < b \<or> b < a" by auto
  then show ?thesis using ab k(3) i(3) by linarith
qed

lemma slot_not_free:
  assumes T: "tree F m root" and k: "tpos F ks" "tbl F m root ks = Some u" "k < 512"
    and new: "{new..<new + 4096} \<subseteq> free_mem (m_pmm m)"
  shows "\<not> (new \<le> u + 8 * k \<and> u + 8 * k < new + 4096)"
proof
  assume "new \<le> u + 8 * k \<and> u + 8 * k < new + 4096"
  then have "u + 8 * k \<in> free_mem (m_pmm m)" using new by auto
  moreover have "u + 8 * k \<in> {u..<u + 4096}" using k(3) by simp
  ultimately show False using treeD(4)[OF T k(1,2)] by blast
qed

text \<open>A change that keeps the entries of all inner tables keeps the tree.\<close>

lemma tbl_same:
  assumes "\<And>ks u k. tpos F (ks @ [k]) \<Longrightarrow> tbl F m root ks = Some u \<Longrightarrow> rd64 m' (u + 8 * k) = rd64 m (u + 8 * k)"
  shows "tpos F js \<Longrightarrow> tbl F m' root js = tbl F m root js"
proof (induction js rule: rev_induct)
  case (snoc k ks)
  then have "tbl F m' root ks = tbl F m root ks" by simp
  then show ?case using assms[OF snoc.prems] by (auto simp: tbl_snoc split: option.splits)
qed simp

text \<open>A walk reads the entries along its path only, and all of them are present.\<close>

lemma walk_same_from:
  assumes "tbl F m root pre = Some t" "walk F m t is = Some r"
    "\<And>ks u k. \<lbrakk>tbl F m root ks = Some u; pf_present F (rd64 m (u + 8 * k)); \<exists>q. (ks @ [k]) @ q = pre @ is\<rbrakk>
      \<Longrightarrow> rd64 m' (u + 8 * k) = rd64 m (u + 8 * k)"
  shows "walk F m' t is = Some r"
  using assms
proof (induction "is" arbitrary: pre t)
  case (Cons i "is")
  let ?e = "rd64 m (t + 8 * i)"
  have p: "pf_present F ?e" using Cons.prems(2) by (auto simp: Let_def split: if_splits)
  have e: "rd64 m' (t + 8 * i) = ?e" by (rule Cons.prems(3)[OF Cons.prems(1) p]) auto
  show ?case
  proof (cases "is = [] \<or> pf_leaf F ?e")
    case True
    with Cons.prems(2) p e show ?thesis by (auto simp: Let_def)
  next
    case False
    then have "tbl F m root (pre @ [i]) = Some (pf_addr F ?e)" "walk F m (pf_addr F ?e) is = Some r"
      using Cons.prems(1,2) p by (auto simp: tbl_snoc Let_def)
    then have "walk F m' (pf_addr F ?e) is = Some r" by (rule Cons.IH) (use Cons.prems(3) in auto)
    with False p e show ?thesis by (simp add: Let_def)
  qed
qed simp

lemma path_prefix:
  assumes "full_path F p" "(ks @ [k]) @ q = p"
  shows "tpos F ks" "k < 512"
  using assms by (auto simp: full_path_def tpos_def)

lemma walk_same:
  assumes "full_path F p" "walk F m root p = Some r"
    "\<And>ks u k q. \<lbrakk>tpos F ks; k < 512; tbl F m root ks = Some u; pf_present F (rd64 m (u + 8 * k)); (ks @ [k]) @ q = p\<rbrakk>
      \<Longrightarrow> rd64 m' (u + 8 * k) = rd64 m (u + 8 * k)"
  shows "walk F m' root p = Some r"
proof (rule walk_same_from[of F m root "[]" root])
  fix ks u k assume a: "tbl F m root ks = Some u" "pf_present F (rd64 m (u + 8 * k))" "\<exists>q. (ks @ [k]) @ q = [] @ p"
  then obtain q where q: "(ks @ [k]) @ q = p" by auto
  from assms(3)[OF path_prefix[OF assms(1) q] a(1,2) q] show "rd64 m' (u + 8 * k) = rd64 m (u + 8 * k)" .
qed (use assms(2) in simp_all)

text \<open>A walk that finds nothing stops at an absent entry.\<close>

lemma walk_None:
  "p \<noteq> [] \<Longrightarrow> walk F m t p = None \<longleftrightarrow>
     (\<exists>ks k q u. p = ks @ k # q \<and> tbl F m t ks = Some u \<and> \<not> pf_present F (rd64 m (u + 8 * k)))"
proof (induction p arbitrary: t)
  case (Cons i "is")
  let ?e = "rd64 m (t + 8 * i)"
  let ?R = "\<lambda>t p. \<exists>ks k q u. p = ks @ k # q \<and> tbl F m t ks = Some u \<and> \<not> pf_present F (rd64 m (u + 8 * k))"
  have "?R t (i # is) \<longleftrightarrow> \<not> pf_present F ?e \<or> pf_present F ?e \<and> \<not> pf_leaf F ?e \<and> ?R (pf_addr F ?e) is" (is "?L \<longleftrightarrow> ?M")
  proof
    assume ?L
    then obtain ks k q u where "i # is = ks @ k # q" "tbl F m t ks = Some u" "\<not> pf_present F (rd64 m (u + 8 * k))" by blast
    then show ?M by (cases ks) (auto simp: Let_def split: if_splits)
  next
    assume ?M
    then show ?L
    proof (elim disjE conjE exE)
      assume "\<not> pf_present F ?e"
      then show ?L by (intro exI[of _ "[]"]) simp
    next
      fix ks k q u
      assume "pf_present F ?e" "\<not> pf_leaf F ?e" "is = ks @ k # q" "tbl F m (pf_addr F ?e) ks = Some u" "\<not> pf_present F (rd64 m (u + 8 * k))"
      then show ?L by (intro exI[of _ "i # ks"] exI[of _ k] exI[of _ q] exI[of _ u]) (simp add: Let_def)
    qed
  qed
  then show ?case using Cons.IH[of "pf_addr F ?e"] by (cases "is = []") (auto simp: Let_def)
qed simp

lemma walk_absent:
  assumes "tbl F m t ks = Some u" "\<not> pf_present F (rd64 m (u + 8 * k))"
  shows "walk F m t (ks @ k # q) = None"
  using assms by (subst walk_None) blast+

lemma walk_agree:
  assumes "\<And>ks u k. tpos F ks \<Longrightarrow> k < 512 \<Longrightarrow> tbl F m root ks = Some u \<Longrightarrow> rd64 m' (u + 8 * k) = rd64 m (u + 8 * k)"
    and p: "full_path F p"
  shows "walk F m' root p = walk F m root p"
proof (cases "walk F m root p")
  case (Some r)
  with walk_same[OF p Some] assms(1) show ?thesis by metis
next
  case None
  have "p \<noteq> []" using p by (auto simp: full_path_def)
  with None obtain ks k q u where w: "p = ks @ k # q" "tbl F m root ks = Some u" "\<not> pf_present F (rd64 m (u + 8 * k))"
    by (auto simp: walk_None)
  have k: "tpos F ks" "k < 512" using path_prefix[OF p, of ks k q] w(1) by simp_all
  have "tbl F m' root ks = tbl F m root ks" by (rule tbl_same[OF _ k(1)]) (use assms(1) in auto)
  then have "tbl F m' root ks = Some u" using w(2) by simp
  then have "walk F m' root p = None"
    unfolding w(1) by (rule walk_absent) (use assms(1)[OF k w(2)] w(3) in simp)
  with None show ?thesis by simp
qed

text \<open>Writes to free memory only change no walk and keep the tree.\<close>

lemma slot_free:
  assumes "tree F m root" "\<And>x. x \<notin> free_mem (m_pmm m) \<Longrightarrow> m_store m' x = m_store m x" "tpos F ks" "k < 512" "tbl F m root ks = Some u"
  shows "rd64 m' (u + 8 * k) = rd64 m (u + 8 * k)"
proof -
  have "u + 8 * k \<notin> free_mem (m_pmm m)" using treeD(4)[OF assms(1,3,5)] assms(4) by (auto simp: disjoint_iff)
  then show ?thesis by (simp add: rd64_def assms(2))
qed

lemmas walk_free = walk_agree[OF slot_free]

lemma tree_free:
  assumes T: "tree F m root" and same: "\<And>x. x \<notin> free_mem (m_pmm m) \<Longrightarrow> m_store m' x = m_store m x"
    and f: "alloc_ok m'" "free_mem (m_pmm m') \<subseteq> free_mem (m_pmm m)"
  shows "tree F m' root"
proof -
  have t: "tbl F m' root js = tbl F m root js" if "tpos F js" for js
    by (rule tbl_same[OF _ that]) (use slot_free[OF T same] in auto)
  have top: "rd64 m' (root + 8 * i) = rd64 m (root + 8 * i)" if "i < 512" for i
    using slot_free[OF T same, of "[]" i root] that by simp
  note D = treeD[OF T]
  show ?thesis
    unfolding tree_def
  proof (intro conjI allI impI)
    show "\<not> pf_leaf F (rd64 m' (root + 8 * i))" if "pf_plain_top F" "i < 512" "pf_present F (rd64 m' (root + 8 * i))" for i
      using D(2)[of i] top[of i] that by simp
    show "4096 dvd u" "{u..<u + 4096} \<inter> free_mem (m_pmm m') = {}" if "tpos F ks" "tbl F m' root ks = Some u" for ks u
    proof -
      have u: "tbl F m root ks = Some u" using t[OF that(1)] that(2) by simp
      show "4096 dvd u" by (rule D(3)[OF that(1) u])
      show "{u..<u + 4096} \<inter> free_mem (m_pmm m') = {}" using D(4)[OF that(1) u] f(2) by blast
    qed
    show "ks = js" if "tpos F ks" "tpos F js" "tbl F m' root ks = Some u" "tbl F m' root js = Some u" for ks js u
      by (rule D(5)[OF that(1,2) that(3,4)[unfolded t[OF that(1)] t[OF that(2)]]])
  qed (rule f(1))
qed

text \<open>A walk that meets no leaf above the last level ends there.\<close>

lemma clear_walk: "clear_path F m t (butlast p) \<Longrightarrow> walk F m t p = Some (e, l) \<Longrightarrow> l = 0"
  by (induction p arbitrary: t) (auto simp: Let_def split: if_splits)

text \<open>The walk along a path whose tables are there.\<close>

lemma walk_tbl:
  "tbl F m t p = Some u \<Longrightarrow> walk F m t (p @ [l]) = (let e = rd64 m (u + 8 * l) in if pf_present F e then Some (e, 0) else None)"
  by (induction p arbitrary: t) (auto simp: Let_def split: if_splits)

text \<open>\<open>m'\<close> is \<open>m\<close> with the free page \<open>new\<close> zeroed and hung below the absent entry \<open>i\<close> of the
  table at \<open>is\<close>.\<close>

definition table_added :: "pt_format \<Rightarrow> mem \<Rightarrow> mem \<Rightarrow> nat \<Rightarrow> nat list \<Rightarrow> nat \<Rightarrow> nat \<Rightarrow> nat \<Rightarrow> bool" where
  "table_added F m m' root is t i new \<longleftrightarrow>
     tree F m root \<and> tpos F (is @ [i]) \<and> tbl F m root is = Some t
     \<and> \<not> pf_present F (rd64 m (t + 8 * i))
     \<and> {new..<new + 4096} \<subseteq> free_mem (m_pmm m) \<and> 4096 dvd new \<and> new < 2 ^ 64
     \<and> rd64 m' (t + 8 * i) = pf_table F new
     \<and> (\<forall>k < 512. rd64 m' (new + 8 * k) = 0)
     \<and> (\<forall>x. x \<noteq> t + 8 * i \<longrightarrow> \<not> (new \<le> x \<and> x < new + 4096) \<longrightarrow> rd64 m' x = rd64 m x)"

lemma table_addedD:
  assumes "table_added F m m' root is t i new"
  shows "tree F m root" "tpos F (is @ [i])" "tbl F m root is = Some t" "\<not> pf_present F (rd64 m (t + 8 * i))"
    "{new..<new + 4096} \<subseteq> free_mem (m_pmm m)" "4096 dvd new" "new < 2 ^ 64"
    "rd64 m' (t + 8 * i) = pf_table F new" "k < 512 \<Longrightarrow> rd64 m' (new + 8 * k) = 0"
    "x \<noteq> t + 8 * i \<Longrightarrow> \<not> (new \<le> x \<and> x < new + 4096) \<Longrightarrow> rd64 m' x = rd64 m x"
  using assms unfolding table_added_def by blast+

lemma added_old_slot:
  assumes N: "table_added F m m' root is t i new"
    and k: "tpos F ks" "tbl F m root ks = Some u" "k < 512" "(ks, k) \<noteq> (is, i)"
  shows "rd64 m' (u + 8 * k) = rd64 m (u + 8 * k)"
proof -
  note D = table_addedD[OF N]
  show ?thesis
    using D(10) slots_distinct[OF D(1) k(1-3) _ D(3) _ k(4)] slot_not_free[OF D(1) k(1-3) D(5)] D(2) by simp
qed

lemma alloc_page_ok:
  assumes ok: "alloc_ok m" and al: "alloc_pages 1 m = (m1, Some new)"
  shows "alloc_ok m1" "4096 dvd new" "new < 2 ^ 64" "m_store m1 = m_store m" "m1 = m\<lparr>m_pmm := m_pmm m1\<rparr>"
    "{new..<new + 4096} \<subseteq> free_mem (m_pmm m)" "free_mem (m_pmm m1) = free_mem (m_pmm m) - {new..<new + 4096}"
proof -
  note D = alloc_okD[OF ok]
  note B = alloc_page[OF D(1,2) al]
  from D(1) al obtain f where f: "alloc_frames 1 (m_pmm m) = (m_pmm m1, Some f)" and a: "new = mem_base (m_pmm m1) + f * 4096"
    by (auto simp: alloc_pages_def frame_to_addr_def split: prod.splits option.splits)
  note A = alloc_frames_Some[OF D(2) zero_less_one f]
  have "bitmap_ready m1" by (subst B(1)) (simp add: D(1))
  then show "alloc_ok m1" using D A(5) B(2,3) by (simp add: alloc_ok_def)
  show "m1 = m\<lparr>m_pmm := m_pmm m1\<rparr>" by (rule B(1))
  show "m_store m1 = m_store m" by (subst B(1)) simp
  show "4096 dvd new" using D(3) a A(6) by simp
  have "f * 4096 < total_frames (m_pmm m) * 4096" using A(2) by simp
  then show "new < 2 ^ 64" using D(4) a A(6) by linarith
qed (rule alloc_page(5,6)[OF alloc_okD(1,2)[OF ok] al])+

lemma alloc_pages_store: "m_store (fst (alloc_pages n m)) = m_store m"
  by (auto simp: alloc_pages_def split: prod.splits option.splits)

lemma alloc_page_progress:
  assumes "bitmap_ready m" "pmm_wf (m_pmm m)" "free_set (m_pmm m) \<noteq> {}"
  obtains m' a where "alloc_pages 1 m = (m', Some a)" "card (free_set (m_pmm m)) = Suc (card (free_set (m_pmm m')))"
proof -
  from assms(3) obtain f where "f \<in> free_set (m_pmm m)" by blast
  then have "run_free (bitmap (m_pmm m)) (total_frames (m_pmm m)) 1 f" "f < total_frames (m_pmm m)"
    by (auto simp: run_free_def free_set_def)
  then obtain g where "first_fit (bitmap (m_pmm m)) (total_frames (m_pmm m)) 1 = Some g"
    using scan_exists[of 0 f "total_frames (m_pmm m)" "run_free (bitmap (m_pmm m)) (total_frames (m_pmm m)) 1"]
    by (auto simp: first_fit_def)
  then have "snd (alloc_frames 1 (m_pmm m)) = Some g" by (simp add: alloc_frames_first_fit_eq)
  then obtain p where p: "alloc_frames 1 (m_pmm m) = (p, Some g)" by (metis prod.collapse)
  note A = alloc_frames_Some[OF assms(2) zero_less_one p]
  have "card (free_set (m_pmm m)) = Suc (card (free_set p))"
    using A(3,4) card_Suc_Diff1[OF finite_free_set, of g "m_pmm m"] by (simp add: atLeastLessThanSuc)
  with p assms(1) show ?thesis
    by (intro that[of "m\<lparr>m_pmm := p\<rparr>" "frame_to_addr p g"]) (simp_all add: alloc_pages_def)
qed

text \<open>Addresses in different pages differ.\<close>

lemma page_ne:
  assumes "4096 dvd p" "4096 dvd q" "p \<noteq> q" "x < 4096" "y < 4096"
  shows "p + x \<noteq> q + (y :: nat)"
proof -
  obtain a b where ab: "p = 4096 * a" "q = 4096 * b" using assms(1,2) by (auto elim!: dvdE)
  with assms(3) have "a < b \<or> b < a" by auto
  then show ?thesis using ab assms(4,5) by linarith
qed

lemma page_addr_eq:
  assumes "4096 dvd p" "4096 dvd q"
  shows "x < 4096 \<Longrightarrow> y < 4096 \<Longrightarrow> p + x = q + y \<longleftrightarrow> p = q \<and> x = (y :: nat)" "y < 4096 \<Longrightarrow> p = q + y \<longleftrightarrow> p = q \<and> y = 0"
    "x < 4096 \<Longrightarrow> p + x = q \<longleftrightarrow> p = q \<and> x = 0"
  using page_ne[OF assms] page_ne[OF assms, of 0] page_ne[OF assms, of _ 0] by (cases "p = q"; auto)+

lemma rd64_zero_page: "rd64 (zero_page a m) x = (if a \<le> x \<and> x < a + 4096 then 0 else rd64 m x)"
  by (simp add: rd64_def zero_page_def)

lemma page_mem: "4096 dvd p \<Longrightarrow> 4096 dvd q \<Longrightarrow> x < 4096 \<Longrightarrow> p \<le> q + x \<and> q + x < p + 4096 \<longleftrightarrow> p = (q :: nat)"
  by (auto elim!: dvdE)

text \<open>Writing a leaf entry.\<close>

lemma leaf_write:
  assumes T: "tree F m root" and pt: "tbl F m root is = Some pt" "tpos F is" "length is = pf_depth F" "l < 512" "is \<noteq> []"
  shows "tree F (wr64 (pt + 8 * l) v m) root"
    and "tbl F (wr64 (pt + 8 * l) v m) root is = Some pt"
    and "full_path F p \<Longrightarrow> p \<noteq> is @ [l] \<Longrightarrow> walk F (wr64 (pt + 8 * l) v m) root p = walk F m root p"
proof -
  let ?m = "wr64 (pt + 8 * l) v m"
  have slot: "rd64 ?m (u + 8 * k) = rd64 m (u + 8 * k)"
    if "tpos F ks" "tbl F m root ks = Some u" "k < 512" "(ks, k) \<noteq> (is, l)" for ks u k
    using slots_distinct[OF T that(1-3) pt(2) pt(1) pt(4) that(4)] by auto
  have same: "tbl F ?m root js = tbl F m root js" if "tpos F js" for js
  proof (rule tbl_same[OF _ that])
    fix ks u k assume "tpos F (ks @ [k])" "tbl F m root ks = Some u"
    then show "rd64 ?m (u + 8 * k) = rd64 m (u + 8 * k)" using slot[of ks u k] pt(3) by (cases "ks = is") auto
  qed
  have "rd64 ?m (root + 8 * k) = rd64 m (root + 8 * k)" if "k < 512" for k
    using slot[of "[]" root k] that pt(5) by simp
  then show "tree F ?m root" using T same unfolding tree_def by simp
  show "tbl F ?m root is = Some pt" using same[OF pt(2)] pt(1) by simp
  show "walk F ?m root p = walk F m root p" if p: "full_path F p" "p \<noteq> is @ [l]"
  proof -
    have keep: "rd64 ?m (u + 8 * k) = rd64 m (u + 8 * k)" if "tpos F ks" "k < 512" "tbl F m root ks = Some u" "(ks @ [k]) @ q = p" for ks u k q
    proof -
      have "(ks, k) \<noteq> (is, l)" using that(4) p pt(3) by (auto simp: full_path_def)
      then show ?thesis using slot[OF that(1,3,2)] by blast
    qed
    show ?thesis
    proof (cases "walk F m root p")
      case (Some r)
      with keep show ?thesis using walk_same[OF p(1) Some] by metis
    next
      case None
      have ne: "p \<noteq> []" using p by (auto simp: full_path_def)
      with None obtain ks k q u where w: "p = ks @ k # q" "tbl F m root ks = Some u" "\<not> pf_present F (rd64 m (u + 8 * k))"
        by (auto simp: walk_None)
      have k: "tpos F ks" "k < 512" using path_prefix[OF p(1), of ks k q] w(1) by simp_all
      have "walk F ?m root p = None"
        unfolding w(1) by (rule walk_absent[of _ _ _ _ u]) (use w keep[OF k w(2), of q] same[OF k(1)] in simp_all)
      with None show ?thesis by simp
    qed
  qed
qed

section \<open>The laws of a format and what they give\<close>

locale page_format =
  fixes F :: pt_format
  assumes absent_0 [simp]: "\<not> pf_present F 0"
    and table_addr [simp]: "\<lbrakk>4096 dvd t; t < 2 ^ 64\<rbrakk> \<Longrightarrow> pf_addr F (pf_table F t) = t"
    and table_present [simp]: "\<lbrakk>4096 dvd t; t < 2 ^ 64\<rbrakk> \<Longrightarrow> pf_present F (pf_table F t)"
    and table_inner [simp]: "\<lbrakk>4096 dvd t; t < 2 ^ 64\<rbrakk> \<Longrightarrow> \<not> pf_leaf F (pf_table F t)"
begin

lemma added_tbl_new:
  assumes N: "table_added F m m' root is t i new"
  shows "tbl F m' root (is @ [i]) = Some new"
proof -
  note D = table_addedD[OF N]
  have inner: "tpos F js \<Longrightarrow> length js \<le> length is \<Longrightarrow> tbl F m' root js = tbl F m root js" for js
  proof (induction js rule: rev_induct)
    case (snoc k ks)
    then have "tbl F m' root ks = tbl F m root ks" "(ks, k) \<noteq> (is, i)" by auto
    then show ?case using added_old_slot[OF N, of ks _ k] snoc.prems by (auto simp: tbl_snoc split: option.splits)
  qed simp
  then show ?thesis using D(2,3,6,7,8) by (simp add: tbl_snoc)
qed

lemma added_tbl:
  assumes N: "table_added F m m' root is t i new"
  shows "tpos F js \<Longrightarrow> tbl F m' root js = (if js = is @ [i] then Some new else tbl F m root js)"
proof (induction js rule: rev_induct)
  case (snoc k ks)
  note D = table_addedD[OF N]
  have n: "tbl F m root (is @ [i]) = None" using D(3,4) by (simp add: tbl_snoc)
  from snoc have IH: "tbl F m' root ks = (if ks = is @ [i] then Some new else tbl F m root ks)" and k: "tpos F ks" "k < 512"
    by auto
  consider "ks = is @ [i]" | "ks @ [k] = is @ [i]" | "ks \<noteq> is @ [i]" "(ks, k) \<noteq> (is, i)" by auto
  then show ?case
  proof cases
    case 1
    with IH D(9)[OF k(2)] have "tbl F m' root (ks @ [k]) = None" by (simp add: tbl_snoc del: append_assoc)
    moreover have "tbl F m root (ks @ [k]) = None" using 1 n tbl_snoc[of F m root ks k] by simp
    ultimately show ?thesis using 1 by simp
  next
    case 2
    with added_tbl_new[OF N] show ?thesis by simp
  next
    case 3
    with IH added_old_slot[OF N k(1) _ k(2) 3(2)] show ?thesis by (auto simp: tbl_snoc split: option.splits)
  qed
qed (use added_tbl_new[OF N] in simp)

text \<open>A new table is empty: no address gains or loses a translation.\<close>

lemma added_walk:
  assumes N: "table_added F m m' root is t i new" and p: "full_path F p"
  shows "walk F m' root p = walk F m root p"
proof (cases "walk F m root p")
  case (Some r)
  have "walk F m' root p = Some r"
  proof (rule walk_same[OF p Some])
    fix ks u k q
    assume a: "tpos F ks" "k < 512" "tbl F m root ks = Some u" "pf_present F (rd64 m (u + 8 * k))"
    have "(ks, k) \<noteq> (is, i)" using a table_addedD(3,4)[OF N] by auto
    then show "rd64 m' (u + 8 * k) = rd64 m (u + 8 * k)" using added_old_slot[OF N a(1,3,2)] by blast
  qed
  with Some show ?thesis by simp
next
  case None
  note D = table_addedD[OF N]
  have ne: "p \<noteq> []" using p by (auto simp: full_path_def)
  with None obtain ks k q u where w: "p = ks @ k # q" "tbl F m root ks = Some u" "\<not> pf_present F (rd64 m (u + 8 * k))"
    by (auto simp: walk_None)
  have k: "tpos F ks" "k < 512" using path_prefix[OF p, of ks k q] w(1) by simp_all
  have "walk F m' root p = None"
  proof (cases "(ks, k) = (is, i)")
    case True
    with w(1) p D(2) obtain j q' where q: "p = (is @ [i]) @ j # q'" "j < 512" by (cases q) (auto simp: full_path_def tpos_def)
    show ?thesis unfolding q(1) by (rule walk_absent[OF added_tbl_new[OF N]]) (use D(9)[OF q(2)] in simp)
  next
    case False
    have "tbl F m root (is @ [i]) = None" using D(3,4) by (simp add: tbl_snoc)
    then have "ks \<noteq> is @ [i]" using w(2) by auto
    then have "tbl F m' root ks = Some u" using added_tbl[OF N k(1)] w(2) by simp
    then show ?thesis
      unfolding w(1) by (rule walk_absent) (use added_old_slot[OF N k(1) w(2) k(2) False] w(3) in simp)
  qed
  with None show ?thesis by simp
qed

lemma added_tree:
  assumes N: "table_added F m m' root is t i new"
    and m': "alloc_ok m'" "free_mem (m_pmm m') = free_mem (m_pmm m) - {new..<new + 4096}"
  shows "tree F m' root"
  unfolding tree_def
proof (intro conjI allI impI)
  note A = table_addedD[OF N]
  note D = treeD[OF A(1)]
  have no: "tbl F m root ks \<noteq> Some new" if "tpos F ks" for ks
  proof
    assume "tbl F m root ks = Some new"
    then have "{new..<new + 4096} \<inter> free_mem (m_pmm m) = {}" by (rule D(4)[OF that])
    with A(5) have "{new..<new + 4096} = {}" by blast
    then show False by simp
  qed
  show "alloc_ok m'" by (fact m'(1))
  show "\<not> pf_leaf F (rd64 m' (root + 8 * k))" if "pf_plain_top F" "k < 512" "pf_present F (rd64 m' (root + 8 * k))" for k
    using D(2)[OF that(1), of k] that A(2,3,6,7,8) added_old_slot[OF N, of "[]" root k]
    by (cases "([], k) = (is, i)") auto
  show "4096 dvd u" "{u..<u + 4096} \<inter> free_mem (m_pmm m') = {}" if "tpos F ks" "tbl F m' root ks = Some u" for ks u
    using that D(3)[OF that(1)] D(4)[OF that(1)] added_tbl[OF N that(1)] A(6) m'(2) by (auto split: if_splits)
  show "ks = js" if "tpos F ks" "tpos F js" "tbl F m' root ks = Some u" "tbl F m' root js = Some u" for ks js u
    using that D(5)[OF that(1,2)] no added_tbl[OF N that(1)] added_tbl[OF N that(2)] by (auto split: if_splits)
qed

text \<open>One level of the descent: an entry that is there, or a new empty table.\<close>

lemma next_tbl_cases:
  assumes T: "tree F m root" and at: "tpos F (is @ [i])" "tbl F m root is = Some t" and ch: "ch \<or> pf_plain_top F \<and> is = []"
    and nt: "next_tbl F ch t i m = (m', Some t')"
  obtains "m' = m" "tbl F m root (is @ [i]) = Some t'"
  | "table_added F m m' root is t i t'" "tree F m' root"
proof (cases "pf_present F (rd64 m (t + 8 * i))")
  case True
  then have "m' = m" "t' = pf_addr F (rd64 m (t + 8 * i))" "\<not> pf_leaf F (rd64 m (t + 8 * i))"
    using nt ch at treeD(2)[OF T, of i] by (auto simp: next_tbl_def Let_def split: if_splits)
  with True at show ?thesis by (intro that(1)) (simp_all add: tbl_snoc)
next
  case False
  with nt obtain m1 where al: "alloc_pages 1 m = (m1, Some t')"
    and m': "m' = wr64 (t + 8 * i) (pf_table F t') (zero_page t' m1)"
    by (auto simp: next_tbl_def Let_def split: prod.splits option.splits)
  note A = alloc_page_ok[OF treeD(1)[OF T] al]
  have nf: "\<not> (t' \<le> t + 8 * i \<and> t + 8 * i < t' + 4096)"
    using slot_not_free[OF T _ at(2) _ A(6)] at(1) by simp
  have N: "table_added F m m' root is t i t'"
    using T at False A(2,3,4,6) nf
    unfolding table_added_def by (auto simp: m' zero_page_def rd64_def wr64_def)
  have "alloc_ok m'" "m_pmm m' = m_pmm m1" using A(1) by (simp_all add: m')
  then show ?thesis using that(2)[OF N] added_tree[OF N] A(7) by simp
qed

lemma next_tbl_ok:
  assumes T: "tree F m root" and at: "tpos F (is @ [i])" "tbl F m root is = Some t" and ch: "ch \<or> pf_plain_top F \<and> is = []"
    and nt: "next_tbl F ch t i m = (m', Some t')"
  shows "tree F m' root" "tbl F m' root (is @ [i]) = Some t'"
    "full_path F p \<Longrightarrow> walk F m' root p = walk F m root p"
  using next_tbl_cases[OF assms] T added_tbl_new added_walk by metis+

lemma descend_ok:
  assumes "tree F m root" "tpos F (pre @ is)" "tbl F m root pre = Some t" "ch \<or> pf_plain_top F \<and> pre = []"
    "descend F ch t is m = (m', Some t')"
  shows "tree F m' root \<and> tbl F m' root (pre @ is) = Some t'
    \<and> (\<forall>p. full_path F p \<longrightarrow> walk F m' root p = walk F m root p)"
  using assms
proof (induction "is" arbitrary: pre t ch m)
  case (Cons i "is")
  then obtain m1 u where 1: "next_tbl F ch t i m = (m1, Some u)" and 2: "descend F True u is m1 = (m', Some t')"
    by (auto split: prod.splits option.splits)
  have "tpos F (pre @ [i])" using Cons.prems(2) by (auto simp: tpos_def)
  note N = next_tbl_ok[OF Cons.prems(1) this Cons.prems(3,4) 1]
  have "tree F m' root \<and> tbl F m' root ((pre @ [i]) @ is) = Some t'
      \<and> (\<forall>p. full_path F p \<longrightarrow> walk F m' root p = walk F m1 root p)"
    by (rule Cons.IH[OF N(1) _ N(2) _ 2]) (use Cons.prems(2) in simp_all)
  with N(3) show ?case by simp
qed simp

theorem map_path_ok:
  assumes T: "tree F m root" and p: "full_path F p" and dep: "0 < pf_depth F" and ok: "map_path F root p e m = (m', True)"
  shows "tree F m' root" "pf_present F e \<Longrightarrow> walk F m' root p = Some (e, 0)"
    "full_path F p' \<Longrightarrow> p' \<noteq> p \<Longrightarrow> walk F m' root p' = walk F m root p'"
proof -
  from ok obtain m1 t where d: "descend F (\<not> pf_plain_top F) root (butlast p) m = (m1, Some t)"
    and m': "m' = wr64 (t + 8 * last p) e m1"
    by (auto simp: map_path_def split: prod.splits option.splits)
  obtain q l where pp: "p = q @ [l]" using p by (cases p rule: rev_cases) (auto simp: full_path_def)
  then have b: "tpos F q" "length q = pf_depth F" "l < 512" "q \<noteq> []"
    using p dep by (auto simp: full_path_def tpos_def)
  have D: "tree F m1 root \<and> tbl F m1 root ([] @ q) = Some t
    \<and> (\<forall>p. full_path F p \<longrightarrow> walk F m1 root p = walk F m root p)"
    by (rule descend_ok[OF T _ _ _ d[unfolded pp butlast_snoc]]) (use b in simp_all)
  then have t: "tbl F m1 root q = Some t" by simp
  note L = leaf_write[OF conjunct1[OF D] t b, where v = e, folded m'[unfolded pp last_snoc]]
  show "tree F m' root" by (rule L(1))
  show "walk F m' root p = Some (e, 0)" if "pf_present F e"
    using walk_tbl[OF L(2), of l] D that by (simp add: pp m')
  show "walk F m' root p' = walk F m root p'" if "full_path F p'" "p' \<noteq> p"
    using L(3)[of p'] D that pp by simp
qed

lemma next_tbl_progress:
  assumes T: "tree F m root" and at: "tpos F (is @ [i])" "tbl F m root is = Some t"
    and cl: "clear_path F m t (i # js)" and fr: "free_set (m_pmm m) \<noteq> {}"
  obtains m' t' where "next_tbl F ch t i m = (m', Some t')" "card (free_set (m_pmm m)) \<le> Suc (card (free_set (m_pmm m')))"
    "clear_path F m' t' js \<or> 512 \<le> hd js"
proof (cases "pf_present F (rd64 m (t + 8 * i))")
  case True
  with cl at show ?thesis
    by (intro that[of m "pf_addr F (rd64 m (t + 8 * i))"]) (simp_all add: next_tbl_def Let_def)
next
  case False
  note D = treeD[OF T]
  obtain m1 new where al: "alloc_pages 1 m = (m1, Some new)" "card (free_set (m_pmm m)) = Suc (card (free_set (m_pmm m1)))"
    using alloc_page_progress[OF alloc_okD(1,2)[OF D(1)] fr] .
  let ?m = "wr64 (t + 8 * i) (pf_table F new) (zero_page new m1)"
  have nf: "\<not> (new \<le> t + 8 * i \<and> t + 8 * i < new + 4096)"
    using slot_not_free[OF T _ at(2) _ alloc_page_ok(6)[OF D(1) al(1)]] at(1) by simp
  then have z: "rd64 ?m (new + 8 * k) = 0" if "k < 512" for k using that by (auto simp: wr64_def zero_page_def rd64_def)
  show ?thesis
  proof (rule that[of ?m new])
    show "next_tbl F ch t i m = (?m, Some new)" using False al(1) by (simp add: next_tbl_def)
    show "card (free_set (m_pmm m)) \<le> Suc (card (free_set (m_pmm ?m)))" using al(2) by (simp add: wr64_def zero_page_def)
    show "clear_path F ?m new js \<or> 512 \<le> hd js" using z by (cases js) (auto simp: not_le simp del: rd64_wr64)
  qed
qed

lemma descend_total:
  assumes "tree F m root" "tpos F (pre @ is)" "tbl F m root pre = Some t" "ch \<or> pf_plain_top F \<and> pre = []"
    "clear_path F m t is" "length is \<le> card (free_set (m_pmm m))"
  shows "\<exists>m' t'. descend F ch t is m = (m', Some t')"
  using assms
proof (induction "is" arbitrary: pre t ch m)
  case (Cons i "is")
  have p: "tpos F (pre @ [i])" using Cons.prems(2) by (auto simp: tpos_def)
  have "free_set (m_pmm m) \<noteq> {}" using Cons.prems(6) by auto
  then obtain m1 u where 1: "next_tbl F ch t i m = (m1, Some u)" "card (free_set (m_pmm m)) \<le> Suc (card (free_set (m_pmm m1)))"
    "clear_path F m1 u is \<or> 512 \<le> hd is"
    using next_tbl_progress[OF Cons.prems(1) p Cons.prems(3,5)] by blast
  have "clear_path F m1 u is" using 1(3) Cons.prems(2) by (cases "is") (auto simp: tpos_def)
  note N = next_tbl_ok[OF Cons.prems(1) p Cons.prems(3,4) 1(1)]
  have "\<exists>m' t'. descend F True u is m1 = (m', Some t')"
    by (rule Cons.IH[OF N(1) _ N(2)]) (use Cons.prems(2,6) 1(2) \<open>clear_path F m1 u is\<close> in simp_all)
  with 1(1) show ?case by simp
qed simp

theorem map_path_total:
  assumes T: "tree F m root" and p: "full_path F p" and cl: "clear_path F m root (butlast p)" and fr: "pf_depth F \<le> card (free_set (m_pmm m))"
  shows "\<exists>m'. map_path F root p e m = (m', True)"
proof -
  have "tpos F ([] @ butlast p)" using p by (cases p rule: rev_cases) (auto simp: full_path_def tpos_def)
  then have "\<exists>m' t'. descend F (\<not> pf_plain_top F) root (butlast p) m = (m', Some t')"
    by (rule descend_total[OF T]) (use cl fr p in \<open>auto simp: full_path_def\<close>)
  then show ?thesis by (auto simp: map_path_def)
qed

end

end
