(* ===== verification/PageClone.thy ===== *)
theory PageClone
  imports PageTree
begin

text \<open>
  Deep copies of address spaces, for the \<^verbatim>\<open>clone_user_page_table\<close> of all targets.  \<open>clone_lvl\<close> is the
  nest of loops over the levels, parametrised by how the copies of a table entry and of a page entry are
  made; the locale \<open>page_clone\<close> adds the laws of these two to those of a format.  In it, a clone is shown
  to write to newly allocated frames only and to reproduce every page of the source.
\<close>

section \<open>The loops\<close>

record clone_format =
  cl_fmt :: pt_format
  cl_inner :: "u64 \<Rightarrow> nat \<Rightarrow> u64"
  cl_page :: "u64 \<Rightarrow> nat \<Rightarrow> u64"

function clone_lvl :: "clone_format \<Rightarrow> nat \<Rightarrow> nat list \<Rightarrow> nat \<Rightarrow> nat \<Rightarrow> mem \<Rightarrow> mem \<times> bool" where
  "clone_lvl C lvl [] src dst m = (m, True)"
| "clone_lvl C lvl (i # is) src dst m =
     (let e = rd64 m (src + 8 * i) in
      if \<not> pf_present (cl_fmt C) e then clone_lvl C lvl is src dst m
      else if (lvl = 3 \<or> lvl = 2) \<and> pf_leaf (cl_fmt C) e then clone_lvl C lvl is src dst (wr64 (dst + 8 * i) e m)
      else case alloc_pages 1 m of
        (m1, None) \<Rightarrow> (m1, False)
      | (m1, Some new) \<Rightarrow>
          if lvl \<le> 1 then
            clone_lvl C lvl is src dst (wr64 (dst + 8 * i) (cl_page C e new) (copy_page (pf_addr (cl_fmt C) e) new m1))
          else (case clone_lvl C (lvl - 1) [0..<512] (pf_addr (cl_fmt C) e) new (zero_page new m1) of
                  (m2, False) \<Rightarrow> (m2, False)
                | (m2, True) \<Rightarrow> clone_lvl C lvl is src dst (wr64 (dst + 8 * i) (cl_inner C e new) m2)))"
  by pat_completeness auto
termination
  by (relation "measures [\<lambda>(C, lvl, is, _). lvl, \<lambda>(C, lvl, is, _). length is]") auto

declare clone_lvl.simps(2) [simp del]

text \<open>The whole clone: the first \<open>k\<close> entries of the root, the kernel's, are shared.\<close>

definition clone_root :: "clone_format \<Rightarrow> nat \<Rightarrow> nat \<Rightarrow> nat \<Rightarrow> mem \<Rightarrow> mem \<times> nat option" where
  "clone_root C k lvl src m =
     (case alloc_pages 1 m of
        (m1, None) \<Rightarrow> (m1, None)
      | (m1, Some new) \<Rightarrow>
          (case clone_lvl C lvl [k..<512] src new
                  (fold (\<lambda>i m. wr64 (new + 8 * i) (rd64 m (src + 8 * i)) m) [0..<k] (zero_page new m1)) of
             (m2, False) \<Rightarrow> (m2, None)
           | (m2, True) \<Rightarrow> (m2, Some new)))"

section \<open>What a copy is\<close>

text \<open>\<open>e'\<close> is the copy of the page entry \<open>e\<close> for a page in \<open>A\<close> that has the contents of the page of \<open>e\<close>.\<close>

definition page_dup :: "clone_format \<Rightarrow> mem \<Rightarrow> mem \<Rightarrow> nat set \<Rightarrow> u64 \<Rightarrow> u64 \<Rightarrow> bool" where
  "page_dup C m m' A e e' \<longleftrightarrow>
     (let a = pf_addr (cl_fmt C) in
      e' = cl_page C e (a e') \<and> {a e'..<a e' + 4096} \<subseteq> A \<and> (\<forall>x < 4096. m_store m' (a e' + x) = m_store m (a e + x)))"

text \<open>The entry \<open>e'\<close> of \<open>m'\<close> is a copy of the entry \<open>e\<close> of \<open>m\<close> that has \<open>n\<close> levels below it, with all its
  tables and pages in the region \<open>A\<close>.\<close>

fun copied :: "clone_format \<Rightarrow> mem \<Rightarrow> mem \<Rightarrow> nat set \<Rightarrow> nat \<Rightarrow> u64 \<Rightarrow> u64 \<Rightarrow> bool" where
  "copied C m m' A 0 e e' \<longleftrightarrow>
     (if \<not> pf_present (cl_fmt C) e then e' = 0 else pf_present (cl_fmt C) e' \<and> page_dup C m m' A e e')"
| "copied C m m' A (Suc n) e e' \<longleftrightarrow>
     (let a = pf_addr (cl_fmt C) in
      if \<not> pf_present (cl_fmt C) e then e' = 0
      else if n < 2 \<and> pf_leaf (cl_fmt C) e then e' = e
      else pf_present (cl_fmt C) e' \<and> (pf_leaf (cl_fmt C) e \<or> \<not> pf_leaf (cl_fmt C) e') \<and> {a e'..<a e' + 4096} \<subseteq> A
        \<and> (\<forall>j < 512. copied C m m' A n (rd64 m (a e + 8 * j)) (rd64 m' (a e' + 8 * j))))"

text \<open>All tables and pages below an entry are outside the region \<open>A\<close>.\<close>

fun outside :: "pt_format \<Rightarrow> mem \<Rightarrow> nat set \<Rightarrow> nat \<Rightarrow> u64 \<Rightarrow> bool" where
  "outside F m A 0 e \<longleftrightarrow> (pf_present F e \<longrightarrow> {pf_addr F e..<pf_addr F e + 4096} \<inter> A = {})"
| "outside F m A (Suc n) e \<longleftrightarrow>
     (pf_present F e \<longrightarrow> \<not> (n < 2 \<and> pf_leaf F e) \<longrightarrow>
        {pf_addr F e..<pf_addr F e + 4096} \<inter> A = {} \<and> (\<forall>j < 512. outside F m A n (rd64 m (pf_addr F e + 8 * j))))"

lemma store_wr64: "m_store (wr64 a v m) x = (if x = a then unat v else m_store m x)"
  by (simp add: wr64_def)

text \<open>The number of frames that the copy of an entry takes.\<close>

fun cost :: "pt_format \<Rightarrow> mem \<Rightarrow> nat \<Rightarrow> u64 \<Rightarrow> nat" where
  "cost F m 0 e = (if pf_present F e then 1 else 0)"
| "cost F m (Suc n) e =
     (if \<not> pf_present F e \<or> n < 2 \<and> pf_leaf F e then 0
      else 1 + (\<Sum>j\<leftarrow>[0..<512]. cost F m n (rd64 m (pf_addr F e + 8 * j))))"

lemma page_in: "{a..<a + 4096} \<subseteq> A \<Longrightarrow> x < 4096 \<Longrightarrow> a + x \<in> (A :: nat set)"
  by auto

lemma copied_mono:
  assumes "copied C m m1 A n e e'" "A \<subseteq> B" "\<And>x. x \<in> A \<Longrightarrow> m_store m' x = m_store m1 x"
  shows "copied C m m' B n e e'"
  using assms
proof (induction n arbitrary: e e')
  case 0
  then show ?case by (auto simp: Let_def page_dup_def page_in split: if_splits)
next
  case (Suc n)
  let ?a = "pf_addr (cl_fmt C)"
  show ?case
  proof (cases "pf_present (cl_fmt C) e \<and> \<not> (n < 2 \<and> pf_leaf (cl_fmt C) e)")
    case True
    with Suc.prems(1) have c: "pf_present (cl_fmt C) e'" "pf_leaf (cl_fmt C) e \<or> \<not> pf_leaf (cl_fmt C) e'" "{?a e'..<?a e' + 4096} \<subseteq> A"
      "\<And>j. j < 512 \<Longrightarrow> copied C m m1 A n (rd64 m (?a e + 8 * j)) (rd64 m1 (?a e' + 8 * j))"
      by (auto simp: Let_def)
    have "copied C m m' B n (rd64 m (?a e + 8 * j)) (rd64 m' (?a e' + 8 * j))" if "j < 512" for j
    proof -
      have "rd64 m' (?a e' + 8 * j) = rd64 m1 (?a e' + 8 * j)"
        using Suc.prems(3)[OF page_in[OF c(3), of "8 * j"]] that by (simp add: rd64_def)
      then show ?thesis using Suc.IH[OF c(4)[OF that] Suc.prems(2,3)] by simp
    qed
    with True c(1-3) Suc.prems(2) show ?thesis by (auto simp: Let_def)
  next
    case False
    with Suc.prems(1) show ?thesis by (auto simp: Let_def)
  qed
qed

section \<open>What a run of a loop does\<close>

text \<open>The loop over the entries \<open>is\<close> of one table, from \<open>m\<close> to \<open>m'\<close>, when the source is read in \<open>m0\<close>:
  it writes to the given entries and to frames that were free, and the entries become copies.\<close>

definition copies :: "clone_format \<Rightarrow> mem \<Rightarrow> nat \<Rightarrow> nat list \<Rightarrow> nat \<Rightarrow> nat \<Rightarrow> mem \<Rightarrow> mem \<Rightarrow> bool" where
  "copies C m0 n is src dst m m' \<longleftrightarrow>
     alloc_ok m' \<and> free_mem (m_pmm m') \<subseteq> free_mem (m_pmm m)
     \<and> (\<forall>x. x \<notin> free_mem (m_pmm m) \<longrightarrow> x \<notin> (\<lambda>i. dst + 8 * i) ` set is \<longrightarrow> m_store m' x = m_store m x)
     \<and> (\<forall>i \<in> set is. copied C m0 m' (free_mem (m_pmm m) - free_mem (m_pmm m')) n (rd64 m0 (src + 8 * i)) (rd64 m' (dst + 8 * i)))"

lemma copies_Nil: "alloc_ok m \<Longrightarrow> copies C m0 n [] src dst m m"
  by (simp add: copies_def)

lemma copies_Cons:
  assumes 1: "copies C m0 n [i] src dst m m1" and 2: "copies C m0 n is src dst m1 m'"
    and i: "i \<notin> set is" "i < 512" "\<forall>j \<in> set is. j < 512" and d: "{dst..<dst + 4096} \<inter> free_mem (m_pmm m) = {}"
  shows "copies C m0 n (i # is) src dst m m'"
proof -
  let ?f = "\<lambda>m. free_mem (m_pmm m)"
  have f: "?f m1 \<subseteq> ?f m" "?f m' \<subseteq> ?f m1" using 1 2 by (auto simp: copies_def)
  have slot: "dst + 8 * j \<notin> ?f m" if "j < 512" for j using d that by (auto simp: disjoint_iff)
  have keep: "m_store m' x = m_store m1 x" if "x \<notin> ?f m1" "x \<notin> (\<lambda>i. dst + 8 * i) ` set is" for x
    using 2 that by (simp add: copies_def)
  have "copied C m0 m' (?f m - ?f m') n (rd64 m0 (src + 8 * i)) (rd64 m' (dst + 8 * i))"
  proof -
    have "copied C m0 m1 (?f m - ?f m1) n (rd64 m0 (src + 8 * i)) (rd64 m1 (dst + 8 * i))" using 1 by (simp add: copies_def)
    moreover have "rd64 m' (dst + 8 * i) = rd64 m1 (dst + 8 * i)"
      unfolding rd64_def by (subst keep) (use slot[OF i(2)] f(1) i(1) in auto)
    moreover have "m_store m' x = m_store m1 x" if "x \<in> ?f m - ?f m1" for x
      by (rule keep) (use that slot i(3) in auto)
    ultimately show ?thesis using copied_mono[OF _ Diff_mono[OF subset_refl f(2)], of C m0 m1 "?f m" n _ _ m'] by simp
  qed
  moreover have "copied C m0 m' (?f m - ?f m') n (rd64 m0 (src + 8 * j)) (rd64 m' (dst + 8 * j))" if "j \<in> set is" for j
    by (rule copied_mono[of C m0 m' "?f m1 - ?f m'"]) (use 2 that f in \<open>auto simp: copies_def\<close>)
  ultimately show ?thesis using 1 2 f unfolding copies_def by auto
qed

text \<open>What a loop needs: the source is as in \<open>m0\<close> and not in frames that are free there; the destination is
  one of these frames, no longer free, and empty.\<close>

definition clone_ready :: "clone_format \<Rightarrow> mem \<Rightarrow> nat \<Rightarrow> nat list \<Rightarrow> nat \<Rightarrow> nat \<Rightarrow> mem \<Rightarrow> bool" where
  "clone_ready C m0 n is src dst m \<longleftrightarrow>
     alloc_ok m \<and> distinct is \<and> (\<forall>i \<in> set is. i < 512)
     \<and> free_mem (m_pmm m) \<subseteq> free_mem (m_pmm m0) \<and> (\<forall>x. x \<notin> free_mem (m_pmm m0) \<longrightarrow> m_store m x = m_store m0 x)
     \<and> {src..<src + 4096} \<inter> free_mem (m_pmm m0) = {}
     \<and> (\<forall>i \<in> set is. outside (cl_fmt C) m0 (free_mem (m_pmm m0)) n (rd64 m0 (src + 8 * i)))
     \<and> {dst..<dst + 4096} \<subseteq> free_mem (m_pmm m0) - free_mem (m_pmm m)
     \<and> (\<forall>i \<in> set is. rd64 m (dst + 8 * i) = 0)"

lemma clone_readyD:
  assumes "clone_ready C m0 n is src dst m"
  shows "alloc_ok m" "distinct is" "i \<in> set is \<Longrightarrow> i < 512" "free_mem (m_pmm m) \<subseteq> free_mem (m_pmm m0)"
    "x \<notin> free_mem (m_pmm m0) \<Longrightarrow> m_store m x = m_store m0 x" "{src..<src + 4096} \<inter> free_mem (m_pmm m0) = {}"
    "i \<in> set is \<Longrightarrow> outside (cl_fmt C) m0 (free_mem (m_pmm m0)) n (rd64 m0 (src + 8 * i))"
    "{dst..<dst + 4096} \<inter> free_mem (m_pmm m) = {}" "{dst..<dst + 4096} \<subseteq> free_mem (m_pmm m0)"
    "i \<in> set is \<Longrightarrow> rd64 m (dst + 8 * i) = 0"
  using assms unfolding clone_ready_def by blast+

lemma clone_ready_src:
  assumes "clone_ready C m0 n is src dst m" "i < 512"
  shows "rd64 m (src + 8 * i) = rd64 m0 (src + 8 * i)"
  unfolding rd64_def by (subst clone_readyD(5)[OF assms(1)]) (use clone_readyD(6)[OF assms(1)] assms(2) in \<open>auto simp: disjoint_iff\<close>)

lemma clone_ready_step:
  assumes R: "clone_ready C m0 n (i # is) src dst m" and c: "copies C m0 n [i] src dst m m1"
  shows "clone_ready C m0 n is src dst m1"
proof -
  note D = clone_readyD[OF R]
  have f: "free_mem (m_pmm m1) \<subseteq> free_mem (m_pmm m)" "alloc_ok m1" using c by (auto simp: copies_def)
  have keep: "m_store m1 x = m_store m x" if "x \<notin> free_mem (m_pmm m)" "x \<noteq> dst + 8 * i" for x
    using c that by (simp add: copies_def)
  have slot: "dst + 8 * j \<in> free_mem (m_pmm m0)" "dst + 8 * j \<notin> free_mem (m_pmm m)" if "j < 512" for j
    using D(8,9) that by (auto simp: disjoint_iff subset_iff)
  have "m_store m1 x = m_store m0 x" if "x \<notin> free_mem (m_pmm m0)" for x
    using keep[of x] D(4,5) that slot(1)[OF D(3)[of i]] by auto
  moreover have "rd64 m1 (dst + 8 * j) = 0" if "j \<in> set is" for j
  proof -
    have "m_store m1 (dst + 8 * j) = m_store m (dst + 8 * j)"
      by (rule keep) (use slot(2)[OF D(3)[of j]] that D(2) in auto)
    then show ?thesis using D(10)[of j] that by (simp add: rd64_def)
  qed
  ultimately show ?thesis using R f unfolding clone_ready_def by auto
qed

section \<open>The pages of an address space\<close>

text \<open>No page that an address space maps is free.\<close>

definition pages_used :: "pt_format \<Rightarrow> mem \<Rightarrow> nat \<Rightarrow> bool" where
  "pages_used F m root \<longleftrightarrow>
     (\<forall>p e. full_path F p \<longrightarrow> walk F m root p = Some (e, 0) \<longrightarrow> {pf_addr F e..<pf_addr F e + 4096} \<inter> free_mem (m_pmm m) = {})"

lemma tree_outside:
  assumes T: "tree F m root" and u: "pages_used F m root" and dep: "pf_depth F \<le> 3" "pf_depth F = 3 \<Longrightarrow> pf_plain_top F"
  shows "tpos F pre \<Longrightarrow> length pre + n = pf_depth F \<Longrightarrow> tbl F m root pre = Some t \<Longrightarrow> j < 512
    \<Longrightarrow> outside F m (free_mem (m_pmm m)) n (rd64 m (t + 8 * j))"
proof (induction n arbitrary: pre t j)
  case 0
  let ?e = "rd64 m (t + 8 * j)"
  have "full_path F (pre @ [j])" using 0 by (auto simp: full_path_def tpos_def)
  moreover have "walk F m root (pre @ [j]) = Some (?e, 0)" if "pf_present F ?e" using walk_tbl[OF 0(3), of j] that by simp
  ultimately show ?case using u unfolding pages_used_def outside.simps by blast
next
  case (Suc n)
  let ?e = "rd64 m (t + 8 * j)"
  show ?case
  proof (cases "pf_present F ?e \<and> \<not> (n < 2 \<and> pf_leaf F ?e)")
    case True
    have nl: "\<not> pf_leaf F ?e"
    proof (cases "n < 2")
      case False
      then have "length pre = 0" "pf_depth F = 3" using Suc.prems(2) dep(1) by linarith+
      then show ?thesis using treeD(2)[OF T dep(2)] Suc.prems(3,4) True by auto
    qed (use True in blast)
    with True have t: "tbl F m root (pre @ [j]) = Some (pf_addr F ?e)" using Suc.prems(3) by (simp add: tbl_snoc)
    have p: "tpos F (pre @ [j])" using Suc.prems by simp
    have "outside F m (free_mem (m_pmm m)) n (rd64 m (pf_addr F ?e + 8 * k))" if "k < 512" for k
      by (rule Suc.IH[OF p _ t that]) (use Suc.prems(2) in simp)
    then show ?thesis using treeD(4)[OF T p t] by simp
  qed auto
qed

section \<open>The loops make copies\<close>

locale page_clone = page_format "cl_fmt C" for C :: clone_format +
  assumes inner_addr [simp]: "\<lbrakk>4096 dvd t; t < 2 ^ 64\<rbrakk> \<Longrightarrow> pf_addr (cl_fmt C) (cl_inner C e t) = t"
    and inner_present [simp]: "\<lbrakk>4096 dvd t; t < 2 ^ 64; pf_present (cl_fmt C) e\<rbrakk> \<Longrightarrow> pf_present (cl_fmt C) (cl_inner C e t)"
    and inner_leaf [simp]: "\<lbrakk>4096 dvd t; t < 2 ^ 64; \<not> pf_leaf (cl_fmt C) e\<rbrakk> \<Longrightarrow> \<not> pf_leaf (cl_fmt C) (cl_inner C e t)"
    and page_addr [simp]: "\<lbrakk>4096 dvd t; t < 2 ^ 64\<rbrakk> \<Longrightarrow> pf_addr (cl_fmt C) (cl_page C e t) = t"
    and page_present [simp]: "\<lbrakk>4096 dvd t; t < 2 ^ 64; pf_present (cl_fmt C) e\<rbrakk> \<Longrightarrow> pf_present (cl_fmt C) (cl_page C e t)"
    and depth_3: "pf_depth (cl_fmt C) \<le> 3" "pf_depth (cl_fmt C) = 3 \<Longrightarrow> pf_plain_top (cl_fmt C)"
begin

text \<open>The three ways in which one entry is copied: shared, a page, and a table whose own loop made copies.\<close>

lemma copies_one:
  assumes "alloc_ok m" "rd64 m0 (src + 8 * i) = e" "rd64 m (dst + 8 * i) = 0" "\<not> pf_present (cl_fmt C) e"
  shows "copies C m0 n [i] src dst m m"
  using assms by (cases n) (auto simp: copies_def)

lemma copies_shared:
  assumes "alloc_ok m" "rd64 m0 (src + 8 * i) = e" "pf_present (cl_fmt C) e" "pf_leaf (cl_fmt C) e" "n = 1 \<or> n = 2"
  shows "copies C m0 n [i] src dst m (wr64 (dst + 8 * i) e m)"
  using assms by (cases n) (auto simp: copies_def store_wr64)

lemma copies_page:
  assumes ok: "alloc_ok m" and e: "rd64 m0 (src + 8 * i) = e" "pf_present (cl_fmt C) e"
    and same: "\<And>x. x \<notin> free_mem (m_pmm m0) \<Longrightarrow> m_store m x = m_store m0 x"
    and out: "outside (cl_fmt C) m0 (free_mem (m_pmm m0)) 0 e"
    and d: "{dst..<dst + 4096} \<inter> free_mem (m_pmm m) = {}" "i < 512"
    and al: "alloc_pages 1 m = (m1, Some new)"
  shows "copies C m0 0 [i] src dst m (wr64 (dst + 8 * i) (cl_page C e new) (copy_page (pf_addr (cl_fmt C) e) new m1))" (is "copies _ _ _ _ _ _ _ ?m")
proof -
  let ?a = "pf_addr (cl_fmt C)"
  note A = alloc_page_ok[OF ok al]
  have slot: "dst + 8 * i \<notin> {new..<new + 4096}" using d A(6) by (auto simp: disjoint_iff)
  have free: "free_mem (m_pmm m) - free_mem (m_pmm ?m) = {new..<new + 4096}" using A(6,7) by auto
  have content: "m_store ?m (new + x) = m_store m0 (?a e + x)" if "x < 4096" for x
  proof -
    have "?a e + x \<notin> free_mem (m_pmm m0)" using out e(2) that by (auto simp: disjoint_iff)
    with same A(4) that slot show ?thesis by (auto simp: wr64_def copy_page_def add.commute)
  qed
  have "copied C m0 ?m {new..<new + 4096} 0 e (cl_page C e new)"
    using e(2) A(2,3) content by (simp add: page_dup_def Let_def)
  moreover have "m_store ?m x = m_store m x" if "x \<notin> free_mem (m_pmm m)" "x \<noteq> dst + 8 * i" for x
    using that A(4,6) by (auto simp: wr64_def copy_page_def subset_iff)
  ultimately show ?thesis unfolding copies_def free using A(1,7) e(1) by (simp del: copied.simps)
qed

lemma copies_table:
  assumes ok: "alloc_ok m" and e: "rd64 m0 (src + 8 * i) = e" "pf_present (cl_fmt C) e" "\<not> (n < 2 \<and> pf_leaf (cl_fmt C) e)"
    and d: "{dst..<dst + 4096} \<inter> free_mem (m_pmm m) = {}" "i < 512"
    and al: "alloc_pages 1 m = (m1, Some new)"
    and sub: "copies C m0 n [0..<512] (pf_addr (cl_fmt C) e) new (zero_page new m1) m2"
  shows "copies C m0 (Suc n) [i] src dst m (wr64 (dst + 8 * i) (cl_inner C e new) m2)" (is "copies _ _ _ _ _ _ _ ?m")
proof -
  let ?a = "pf_addr (cl_fmt C)" let ?f = "\<lambda>m. free_mem (m_pmm m)"
  note A = alloc_page_ok[OF ok al]
  have f: "?f m2 \<subseteq> ?f m - {new..<new + 4096}" and ok2: "alloc_ok m2" using sub A(7) by (auto simp: copies_def)
  have slot: "dst + 8 * i \<notin> ?f m" using d by (auto simp: disjoint_iff)
  have keep: "m_store ?m x = m_store m2 x" if "x \<in> ?f m" for x using that slot by (auto simp: wr64_def)
  have tab: "{new..<new + 4096} \<subseteq> ?f m - ?f ?m" using A(6) f by auto
  have "copied C m0 ?m (?f m - ?f ?m) n (rd64 m0 (?a e + 8 * j)) (rd64 ?m (new + 8 * j))" if "j < 512" for j
  proof -
    have "rd64 ?m (new + 8 * j) = rd64 m2 (new + 8 * j)" using keep page_in[OF A(6), of "8 * j"] that by (simp add: rd64_def)
    moreover have "copied C m0 m2 (?f m1 - ?f m2) n (rd64 m0 (?a e + 8 * j)) (rd64 m2 (new + 8 * j))"
      using sub that by (simp add: copies_def)
    moreover have "?f m1 - ?f m2 \<subseteq> ?f m - ?f ?m" using A(7) by auto
    ultimately show ?thesis using copied_mono[of C m0 m2 "?f m1 - ?f m2" n] keep A(7) by simp
  qed
  then have "copied C m0 ?m (?f m - ?f ?m) (Suc n) e (cl_inner C e new)"
    using e(2,3) A(2,3) tab by (auto simp: Let_def)
  moreover have "m_store ?m x = m_store m x" if "x \<notin> ?f m" "x \<noteq> dst + 8 * i" for x
  proof -
    have "x \<notin> {new..<new + 4096}" using that(1) A(6) by auto
    moreover have "m_store m2 x = m_store (zero_page new m1) x"
    proof -
      have "x \<notin> (\<lambda>i. new + 8 * i) ` set [0..<512]" using calculation by auto
      then show ?thesis using sub that(1) A(7) by (simp add: copies_def)
    qed
    ultimately show ?thesis using that(2) A(4) by (auto simp: wr64_def zero_page_def)
  qed
  ultimately show ?thesis unfolding copies_def using ok2 f e(1) by (simp del: copied.simps) blast
qed

lemma clone_ready_sub:
  assumes R: "clone_ready C m0 (Suc n) (i # is) src dst m" and e: "rd64 m0 (src + 8 * i) = e" "pf_present (cl_fmt C) e" "\<not> (n < 2 \<and> pf_leaf (cl_fmt C) e)"
    and al: "alloc_pages 1 m = (m1, Some new)"
  shows "clone_ready C m0 n [0..<512] (pf_addr (cl_fmt C) e) new (zero_page new m1)"
proof -
  note D = clone_readyD[OF R] and A = alloc_page_ok[OF clone_readyD(1)[OF R] al]
  have "outside (cl_fmt C) m0 (free_mem (m_pmm m0)) (Suc n) e" using D(7)[of i] e(1) by simp
  then have "{pf_addr (cl_fmt C) e..<pf_addr (cl_fmt C) e + 4096} \<inter> free_mem (m_pmm m0) = {}"
    "\<forall>j < 512. outside (cl_fmt C) m0 (free_mem (m_pmm m0)) n (rd64 m0 (pf_addr (cl_fmt C) e + 8 * j))"
    using e(2,3) by auto
  moreover have "m_store (zero_page new m1) x = m_store m0 x" if "x \<notin> free_mem (m_pmm m0)" for x
    using that A(4,6) D(4,5) by (auto simp: zero_page_def subset_iff)
  moreover have "rd64 (zero_page new m1) (new + 8 * j) = 0" if "j < 512" for j using that by (simp add: rd64_def zero_page_def)
  ultimately show ?thesis using A(1,6,7) D(4) unfolding clone_ready_def by auto
qed

text \<open>One turn of the loop, given that the loops of the level below make copies.\<close>

lemma clone_entry:
  assumes run: "clone_lvl C (Suc n) (i # is) src dst m = (m', True)" and R: "clone_ready C m0 n (i # is) src dst m"
    and IH: "\<And>k s d m m'. \<lbrakk>n = Suc k; clone_lvl C (Suc k) [0..<512] s d m = (m', True); clone_ready C m0 k [0..<512] s d m\<rbrakk>
      \<Longrightarrow> copies C m0 k [0..<512] s d m m'"
  obtains m1 where "copies C m0 n [i] src dst m m1" "clone_lvl C (Suc n) is src dst m1 = (m', True)"
proof -
  note D = clone_readyD[OF R]
  let ?e = "rd64 m0 (src + 8 * i)"
  have e: "rd64 m (src + 8 * i) = ?e" using clone_ready_src[OF R] D(3)[of i] by simp
  consider (absent) "\<not> pf_present (cl_fmt C) ?e"
    | (shared) "pf_present (cl_fmt C) ?e" "n = 1 \<or> n = 2" "pf_leaf (cl_fmt C) ?e"
    | (page) "pf_present (cl_fmt C) ?e" "n = 0"
    | (table) k where "n = Suc k" "pf_present (cl_fmt C) ?e" "\<not> (k < 2 \<and> pf_leaf (cl_fmt C) ?e)"
    by (cases n) (force simp: less_2_cases_iff)+
  then show ?thesis
  proof cases
    case absent
    then show ?thesis
      using that[of m] copies_one[OF D(1) refl D(10)[of i], of m0 src n] run by (simp add: clone_lvl.simps(2) e)
  next
    case shared
    then show ?thesis
      using that[OF copies_shared[OF D(1) refl, of m0 src i n]] run by (auto simp: clone_lvl.simps(2) e Let_def)
  next
    case page
    with run obtain m2 new where al: "alloc_pages 1 m = (m2, Some new)"
      and r: "clone_lvl C (Suc n) is src dst (wr64 (dst + 8 * i) (cl_page C ?e new) (copy_page (pf_addr (cl_fmt C) ?e) new m2)) = (m', True)"
      by (auto simp: clone_lvl.simps(2) e Let_def split: prod.splits option.splits)
    show ?thesis
      by (rule that[OF copies_page[OF D(1) refl page(1) D(5) _ D(8) _ al, folded page(2)] r]) (use D(3) D(7)[of i] page(2) in auto)
  next
    case table
    then have ns: "\<not> ((Suc n = 3 \<or> Suc n = 2) \<and> pf_leaf (cl_fmt C) ?e)" by auto
    from table(1,2) run obtain m2 new m3 where al: "alloc_pages 1 m = (m2, Some new)"
      and sub: "clone_lvl C (Suc k) [0..<512] (pf_addr (cl_fmt C) ?e) new (zero_page new m2) = (m3, True)"
      and r: "clone_lvl C (Suc n) is src dst (wr64 (dst + 8 * i) (cl_inner C ?e new) m3) = (m', True)"
      unfolding clone_lvl.simps(2) e Let_def if_not_P[OF ns] by (auto split: prod.splits option.splits bool.splits)
    note S = IH[OF table(1) sub clone_ready_sub[OF R[unfolded table(1)] refl table(2,3) al]]
    show ?thesis by (rule that[OF copies_table[OF D(1) refl table(2,3) D(8) _ al S, folded table(1)] r]) (use D(3) in auto)
  qed
qed

lemma clone_lvl_copies:
  "clone_lvl C (Suc n) is src dst m = (m', True) \<Longrightarrow> clone_ready C m0 n is src dst m \<Longrightarrow> copies C m0 n is src dst m m'"
proof (induction n arbitrary: "is" src dst m m' rule: less_induct)
  case (less n)
  from less.prems show ?case
  proof (induction "is" arbitrary: m)
    case Nil
    then show ?case using clone_readyD(1)[OF Nil.prems(2)] by (simp add: copies_Nil)
  next
    case (Cons i "is")
    obtain m1 where m1: "copies C m0 n [i] src dst m m1" "clone_lvl C (Suc n) is src dst m1 = (m', True)"
      by (rule clone_entry[OF Cons.prems]) (use less.IH in auto)
    show ?case
      by (rule copies_Cons[OF m1(1) Cons.IH[OF m1(2) clone_ready_step[OF Cons.prems(2) m1(1)]]])
         (use clone_readyD(2,3,8)[OF Cons.prems(2)] in auto)
  qed
qed

lemma copied_walk:
  assumes "copied C m m' A (length q) (rd64 m (t + 8 * i)) (rd64 m' (t' + 8 * i))"
    "pf_present (cl_fmt C) (rd64 m (t + 8 * i)) \<Longrightarrow> pf_leaf (cl_fmt C) (rd64 m (t + 8 * i)) \<Longrightarrow> length q \<le> 2" "list_all (\<lambda>i. i < 512) q" "length q \<le> 3"
  shows "case walk (cl_fmt C) m t (i # q) of
      None \<Rightarrow> walk (cl_fmt C) m' t' (i # q) = None
    | Some (e, n) \<Rightarrow> \<exists>e'. walk (cl_fmt C) m' t' (i # q) = Some (e', n) \<and> (if n = 0 then page_dup C m m' A e e' else e' = e)"
  using assms
proof (induction q arbitrary: t t' i)
  case Nil
  then show ?case by (auto simp: Let_def split: if_splits)
next
  case (Cons j q)
  let ?e = "rd64 m (t + 8 * i)" and ?e' = "rd64 m' (t' + 8 * i)" let ?a = "pf_addr (cl_fmt C)"
  consider "\<not> pf_present (cl_fmt C) ?e" | "pf_present (cl_fmt C) ?e" "pf_leaf (cl_fmt C) ?e" | "pf_present (cl_fmt C) ?e" "\<not> pf_leaf (cl_fmt C) ?e" by blast
  then show ?case
  proof cases
    case 1
    with Cons.prems(1) show ?thesis by simp
  next
    case 2
    with Cons.prems(1,2) show ?thesis by (simp add: Let_def)
  next
    case 3
    with Cons.prems(1,3) have c: "pf_present (cl_fmt C) ?e'" "\<not> pf_leaf (cl_fmt C) ?e'"
      "copied C m m' A (length q) (rd64 m (?a ?e + 8 * j)) (rd64 m' (?a ?e' + 8 * j))"
      by (simp_all add: Let_def)
    have w: "walk (cl_fmt C) m t (i # j # q) = walk (cl_fmt C) m (?a ?e) (j # q)"
      "walk (cl_fmt C) m' t' (i # j # q) = walk (cl_fmt C) m' (?a ?e') (j # q)"
      using 3 c(1,2) by (subst walk.simps(2), simp add: Let_def del: walk.simps)+
    show ?thesis unfolding w by (rule Cons.IH[OF c(3)]) (use Cons.prems(3,4) in simp_all)
  qed
qed

lemma clone_root_ready:
  assumes T: "tree (cl_fmt C) m src" and u: "pages_used (cl_fmt C) m src" and n: "pf_depth (cl_fmt C) = n" and k: "k \<le> 512"
    and al: "alloc_pages 1 m = (m1, Some new)"
    and z: "mz = fold (\<lambda>i m. wr64 (new + 8 * i) (rd64 m (src + 8 * i)) m) [0..<k] (zero_page new m1)"
  shows "clone_ready C m n [k..<512] src new mz" "m_pmm mz = m_pmm m1"
    "x \<notin> {new..<new + 4096} \<Longrightarrow> m_store mz x = m_store m x" "i < k \<Longrightarrow> rd64 mz (new + 8 * i) = rd64 m (src + 8 * i)"
proof -
  let ?cp = "\<lambda>l. fold (\<lambda>i m. wr64 (new + 8 * i) (rd64 m (src + 8 * i)) m) [0..<l] (zero_page new m1)" let ?f = "\<lambda>m. free_mem (m_pmm m)"
  note A = alloc_page_ok[OF treeD(1)[OF T] al]
  have src: "{src..<src + 4096} \<inter> ?f m = {}" using treeD(4)[OF T tpos_Nil] by simp
  have "m_pmm (?cp l) = m_pmm m1 \<and> alloc_ok (?cp l)
      \<and> (\<forall>x. x \<notin> {new..<new + 4096} \<longrightarrow> m_store (?cp l) x = m_store m x)
      \<and> (\<forall>j < 512. rd64 (?cp l) (new + 8 * j) = (if j < l then rd64 m (src + 8 * j) else 0))" if "l \<le> 512" for l
    using that
  proof (induction l)
    case 0
    then show ?case using A(1,4) by (auto simp: zero_page_def rd64_def alloc_ok_def)
  next
    case (Suc l)
    then have "src + 8 * l \<notin> {new..<new + 4096}" using src A(6) by (auto simp: disjoint_iff subset_iff)
    then have "rd64 (?cp l) (src + 8 * l) = rd64 m (src + 8 * l)" using Suc by (simp add: rd64_def)
    then show ?case using Suc by (auto simp: store_wr64 less_Suc_eq)
  qed
  note I = this[OF k, folded z]
  show "clone_ready C m n [k..<512] src new mz"
    unfolding clone_ready_def
  proof (intro conjI ballI allI impI)
    show "outside (cl_fmt C) m (?f m) n (rd64 m (src + 8 * i))" if "i \<in> set [k..<512]" for i
      by (rule tree_outside[OF T u depth_3, of "[]"]) (use that n in auto)
    show "m_store mz x = m_store m x" if "x \<notin> ?f m" for x using I that A(6) by blast
  qed (use I A(6,7) src in auto)
  show "m_pmm mz = m_pmm m1" "x \<notin> {new..<new + 4096} \<Longrightarrow> m_store mz x = m_store m x" "i < k \<Longrightarrow> rd64 mz (new + 8 * i) = rd64 m (src + 8 * i)"
    using I k by simp_all
qed

theorem clone_root_copies:
  assumes T: "tree (cl_fmt C) m src" and u: "pages_used (cl_fmt C) m src" and n: "pf_depth (cl_fmt C) = n" and k: "k \<le> 512"
    and run: "clone_root C k (Suc n) src m = (m', Some new)"
  shows "alloc_ok m'" "free_mem (m_pmm m') \<subseteq> free_mem (m_pmm m)"
    "{new..<new + 4096} \<subseteq> free_mem (m_pmm m) - free_mem (m_pmm m')"
    "x \<notin> free_mem (m_pmm m) \<Longrightarrow> m_store m' x = m_store m x"
    "i < k \<Longrightarrow> rd64 m' (new + 8 * i) = rd64 m (src + 8 * i)"
    "k \<le> i \<Longrightarrow> i < 512 \<Longrightarrow> copied C m m' (free_mem (m_pmm m) - free_mem (m_pmm m')) n (rd64 m (src + 8 * i)) (rd64 m' (new + 8 * i))"
proof -
  let ?f = "\<lambda>m. free_mem (m_pmm m)"
  from run obtain m1 mz where al: "alloc_pages 1 m = (m1, Some new)"
    and z: "mz = fold (\<lambda>i m. wr64 (new + 8 * i) (rd64 m (src + 8 * i)) m) [0..<k] (zero_page new m1)"
    and cl: "clone_lvl C (Suc n) [k..<512] src new mz = (m', True)"
    by (auto simp: clone_root_def split: prod.splits option.splits bool.splits)
  note A = alloc_page_ok[OF treeD(1)[OF T] al] and I = clone_root_ready[OF T u n k al z]
  have c: "copies C m n [k..<512] src new mz m'" by (rule clone_lvl_copies[OF cl I(1)])
  have fm: "?f mz = ?f m - {new..<new + 4096}" using I(2) A(7) by simp
  show "alloc_ok m'" "?f m' \<subseteq> ?f m" using c fm by (auto simp: copies_def)
  show "{new..<new + 4096} \<subseteq> ?f m - ?f m'" using c fm A(6) by (auto simp: copies_def)
  show "m_store m' x = m_store m x" if "x \<notin> ?f m" for x
  proof -
    have "x \<notin> {new..<new + 4096}" using that A(6) by auto
    moreover have "x \<notin> (\<lambda>i. new + 8 * i) ` set [k..<512]" using calculation by auto
    ultimately show ?thesis using c I(3) fm that by (auto simp: copies_def)
  qed
  show "rd64 m' (new + 8 * i) = rd64 m (src + 8 * i)" if "i < k"
  proof -
    have "new + 8 * i \<notin> ?f mz" "new + 8 * i \<notin> (\<lambda>i. new + 8 * i) ` set [k..<512]" using fm that k by auto
    then have "m_store m' (new + 8 * i) = m_store mz (new + 8 * i)" using c unfolding copies_def by blast
    then show ?thesis using I(4)[OF that] by (simp add: rd64_def)
  qed
  show "copied C m m' (?f m - ?f m') n (rd64 m (src + 8 * i)) (rd64 m' (new + 8 * i))" if "k \<le> i" "i < 512"
    by (rule copied_mono[of C m m' "?f mz - ?f m'"]) (use c fm that in \<open>auto simp: copies_def\<close>)
qed

text \<open>In terms of walks: the source keeps its own, the kernel's part is the same in the clone, and the rest
  of the clone has copies of the pages of the source.\<close>

theorem clone_root_walks:
  assumes T: "tree (cl_fmt C) m src" and u: "pages_used (cl_fmt C) m src" and n: "pf_depth (cl_fmt C) = n" and k: "k \<le> 512"
    and run: "clone_root C k (Suc n) src m = (m', Some new)" and p: "full_path (cl_fmt C) p"
  shows "walk (cl_fmt C) m' src p = walk (cl_fmt C) m src p"
    "hd p < k \<Longrightarrow> walk (cl_fmt C) m' new p = walk (cl_fmt C) m src p"
    "k \<le> hd p \<Longrightarrow> case walk (cl_fmt C) m src p of
        None \<Rightarrow> walk (cl_fmt C) m' new p = None
      | Some (e, l) \<Rightarrow> \<exists>e'. walk (cl_fmt C) m' new p = Some (e', l)
          \<and> (if l = 0 then page_dup C m m' (free_mem (m_pmm m) - free_mem (m_pmm m')) e e' else e' = e)"
proof -
  note R = clone_root_copies[OF T u n k run]
  show old: "walk (cl_fmt C) m' src p = walk (cl_fmt C) m src p" by (rule walk_free[OF T R(4) _ _ _ p])
  obtain i q where iq: "p = i # q" "i < 512" "length q = n" "list_all (\<lambda>i. i < 512) q"
    using p n by (cases p) (auto simp: full_path_def)
  have src: "rd64 m' (src + 8 * i) = rd64 m (src + 8 * i)"
  proof -
    have "src + 8 * i \<notin> free_mem (m_pmm m)" using treeD(4)[OF T tpos_Nil] iq(2) by (auto simp: disjoint_iff)
    then show ?thesis by (simp add: rd64_def R(4))
  qed
  show "walk (cl_fmt C) m' new p = walk (cl_fmt C) m src p" if "hd p < k"
    using R(5)[of i] that src old by (simp add: iq(1))
  show "case walk (cl_fmt C) m src p of
        None \<Rightarrow> walk (cl_fmt C) m' new p = None
      | Some (e, l) \<Rightarrow> \<exists>e'. walk (cl_fmt C) m' new p = Some (e', l)
          \<and> (if l = 0 then page_dup C m m' (free_mem (m_pmm m) - free_mem (m_pmm m')) e e' else e' = e)" if "k \<le> hd p"
    unfolding iq(1)
  proof (rule copied_walk)
    show "copied C m m' (free_mem (m_pmm m) - free_mem (m_pmm m')) (length q) (rd64 m (src + 8 * i)) (rd64 m' (new + 8 * i))"
      using R(6)[of i] that iq by simp
    show "length q \<le> 2" if "pf_present (cl_fmt C) (rd64 m (src + 8 * i))" "pf_leaf (cl_fmt C) (rd64 m (src + 8 * i))"
      using treeD(2)[OF T depth_3(2) iq(2) that(1)] that(2) depth_3(1) n iq(3) by fastforce
  qed (use iq depth_3(1) n in simp_all)
qed

text \<open>The clone succeeds when there are enough frames.\<close>

lemma clone_entry_total:
  assumes R: "clone_ready C m0 n (i # is) src dst m" and fr: "cost (cl_fmt C) m0 n (rd64 m0 (src + 8 * i)) \<le> card (free_set (m_pmm m))"
    and IH: "\<And>k s d m. \<lbrakk>n = Suc k; clone_ready C m0 k [0..<512] s d m;
        (\<Sum>j\<leftarrow>[0..<512]. cost (cl_fmt C) m0 k (rd64 m0 (s + 8 * j))) \<le> card (free_set (m_pmm m))\<rbrakk>
      \<Longrightarrow> \<exists>m'. clone_lvl C (Suc k) [0..<512] s d m = (m', True)
        \<and> card (free_set (m_pmm m)) = card (free_set (m_pmm m')) + (\<Sum>j\<leftarrow>[0..<512]. cost (cl_fmt C) m0 k (rd64 m0 (s + 8 * j)))"
  obtains m1 where "clone_lvl C (Suc n) (i # is) src dst m = clone_lvl C (Suc n) is src dst m1" "copies C m0 n [i] src dst m m1"
    "card (free_set (m_pmm m)) = card (free_set (m_pmm m1)) + cost (cl_fmt C) m0 n (rd64 m0 (src + 8 * i))"
proof -
  note D = clone_readyD[OF R]
  let ?e = "rd64 m0 (src + 8 * i)" let ?c = "card (free_set (m_pmm m))" let ?F = "cl_fmt C"
  have e: "rd64 m (src + 8 * i) = ?e" using clone_ready_src[OF R] D(3)[of i] by simp
  consider (absent) "\<not> pf_present ?F ?e" | (shared) "pf_present ?F ?e" "n = 1 \<or> n = 2" "pf_leaf ?F ?e"
    | (page) "pf_present ?F ?e" "n = 0" | (table) k where "n = Suc k" "pf_present ?F ?e" "\<not> (k < 2 \<and> pf_leaf ?F ?e)"
    by (cases n) (force simp: less_2_cases_iff)+
  then show ?thesis
  proof cases
    case absent
    have "cost ?F m0 n ?e = 0" using absent by (cases n) simp_all
    then show ?thesis
      using that[of m] copies_one[OF D(1) refl D(10)[of i], of m0 src n] absent by (simp add: clone_lvl.simps(2) e)
  next
    case shared
    have "cost ?F m0 n ?e = 0" using shared by (cases n) auto
    then show ?thesis
      using that[OF _ copies_shared[OF D(1) refl, of m0 src i n]] shared by (auto simp: clone_lvl.simps(2) e Let_def)
  next
    case page
    then have "free_set (m_pmm m) \<noteq> {}" using fr by auto
    then obtain m2 new where al: "alloc_pages 1 m = (m2, Some new)" "?c = Suc (card (free_set (m_pmm m2)))"
      using alloc_page_progress[OF alloc_okD(1,2)[OF D(1)]] by blast
    show ?thesis
      by (rule that[OF _ copies_page[OF D(1) refl page(1) D(5) _ D(8) _ al(1), folded page(2)]])
         (use D(3) D(7)[of i] page al in \<open>auto simp: clone_lvl.simps(2) e Let_def\<close>)
  next
    case table
    let ?s = "\<Sum>j\<leftarrow>[0..<512]. cost ?F m0 k (rd64 m0 (pf_addr ?F ?e + 8 * j))"
    have c: "cost ?F m0 n ?e = Suc ?s" using table by simp
    then have "free_set (m_pmm m) \<noteq> {}" using fr by auto
    then obtain m2 new where al: "alloc_pages 1 m = (m2, Some new)" "?c = Suc (card (free_set (m_pmm m2)))"
      using alloc_page_progress[OF alloc_okD(1,2)[OF D(1)]] by blast
    note S = clone_ready_sub[OF R[unfolded table(1)] refl table(2,3) al(1)]
    obtain m3 where sub: "clone_lvl C (Suc k) [0..<512] (pf_addr ?F ?e) new (zero_page new m2) = (m3, True)"
      "card (free_set (m_pmm m2)) = card (free_set (m_pmm m3)) + ?s"
      using IH[OF table(1) S] fr c al(2) by auto
    have ns: "\<not> ((Suc n = 3 \<or> Suc n = 2) \<and> pf_leaf ?F ?e)" using table(1,3) by auto
    have run: "clone_lvl C (Suc n) (i # is) src dst m = clone_lvl C (Suc n) is src dst (wr64 (dst + 8 * i) (cl_inner C ?e new) m3)"
      unfolding clone_lvl.simps(2) e Let_def if_not_P[OF ns] using table(1,2) al(1) sub(1) by simp
    show ?thesis
      by (rule that[OF run copies_table[OF D(1) refl table(2,3) D(8) _ al(1) clone_lvl_copies[OF sub(1) S], folded table(1)]])
         (use D(3) al(2) sub(2) c in auto)
  qed
qed

lemma clone_lvl_total:
  "\<lbrakk>clone_ready C m0 n is src dst m; (\<Sum>i\<leftarrow>is. cost (cl_fmt C) m0 n (rd64 m0 (src + 8 * i))) \<le> card (free_set (m_pmm m))\<rbrakk>
   \<Longrightarrow> \<exists>m'. clone_lvl C (Suc n) is src dst m = (m', True)
     \<and> card (free_set (m_pmm m)) = card (free_set (m_pmm m')) + (\<Sum>i\<leftarrow>is. cost (cl_fmt C) m0 n (rd64 m0 (src + 8 * i)))"
proof (induction n arbitrary: "is" src dst m rule: less_induct)
  case (less n)
  from less.prems show ?case
  proof (induction "is" arbitrary: m)
    case (Cons i "is")
    let ?e = "rd64 m0 (src + 8 * i)" let ?F = "cl_fmt C"
    note R = Cons.prems(1)
    obtain m1 where m1: "clone_lvl C (Suc n) (i # is) src dst m = clone_lvl C (Suc n) is src dst m1"
      "copies C m0 n [i] src dst m m1" "card (free_set (m_pmm m)) = card (free_set (m_pmm m1)) + cost ?F m0 n ?e"
      by (rule clone_entry_total[OF R]) (use Cons.prems(2) less.IH in auto)
    have "\<exists>m'. clone_lvl C (Suc n) is src dst m1 = (m', True)
        \<and> card (free_set (m_pmm m1)) = card (free_set (m_pmm m')) + (\<Sum>i\<leftarrow>is. cost ?F m0 n (rd64 m0 (src + 8 * i)))"
      by (rule Cons.IH[OF clone_ready_step[OF R m1(2)]]) (use Cons.prems(2) m1(3) in simp)
    with m1(1,3) show ?case by auto
  qed simp
qed

theorem clone_root_total:
  assumes T: "tree (cl_fmt C) m src" and u: "pages_used (cl_fmt C) m src" and n: "pf_depth (cl_fmt C) = n" and k: "k \<le> 512"
    and fr: "(\<Sum>i\<leftarrow>[k..<512]. cost (cl_fmt C) m n (rd64 m (src + 8 * i))) < card (free_set (m_pmm m))"
  shows "\<exists>m' new. clone_root C k (Suc n) src m = (m', Some new)"
proof -
  have "free_set (m_pmm m) \<noteq> {}" using fr by auto
  then obtain m1 new where al: "alloc_pages 1 m = (m1, Some new)" "card (free_set (m_pmm m)) = Suc (card (free_set (m_pmm m1)))"
    using alloc_page_progress[OF alloc_okD(1,2)[OF treeD(1)[OF T]]] by blast
  note I = clone_root_ready[OF T u n k al(1) refl]
  show ?thesis using clone_lvl_total[OF I(1)] I(2) fr al by (auto simp: clone_root_def)
qed

end

end
