(* ===== verification/Paging.thy ===== *)
theory Paging
  imports PageClone
begin

text \<open>
  \<^verbatim>\<open>kernel/src/arch/x86_64/paging.rs\<close>: four-level page tables in identity-mapped physical
  memory.  A table is 512 little-endian words in the store of \<open>mem\<close>; the addresses of the three
  static kernel tables are the record \<open>kimage\<close>.  \<open>translate\<close> is the page walk of the processor.
  The main result is that \<^verbatim>\<open>map_user_page\<close> makes the walk of the mapped address end at the
  given frame and leaves the translation of every other page alone, for address spaces in which
  no table is shared.  Writing CR3 and the TLB flushes are register effects: the scheduler's
  state has CR3, the TLB is not modelled.
\<close>

section \<open>Flags and entries\<close>

definition PAGE_PRESENT :: u64 where "PAGE_PRESENT = 1"
definition PAGE_WRITABLE :: u64 where "PAGE_WRITABLE = 2"
definition PAGE_USER :: u64 where "PAGE_USER = 4"
definition PAGE_HUGE :: u64 where "PAGE_HUGE = 0x80"

definition PROT_READ :: u32 where "PROT_READ = 1"
definition PROT_WRITE :: u32 where "PROT_WRITE = 2"
definition PROT_EXEC :: u32 where "PROT_EXEC = 4"
definition PROT_USER :: u32 where "PROT_USER = 8"

definition USER_CODE_VA :: nat where "USER_CODE_VA = 0x8000001000"
definition USER_STACK_TOP :: nat where "USER_STACK_TOP = 0x8000010000"
definition USER_BASE_VA :: nat where "USER_BASE_VA = 0x8000000000"
definition USER_ELF_STACK_TOP :: nat where "USER_ELF_STACK_TOP = USER_BASE_VA + 0x10000000"

definition is_present :: "u64 \<Rightarrow> bool" where
  "is_present e \<longleftrightarrow> e AND PAGE_PRESENT \<noteq> 0"

definition is_huge :: "u64 \<Rightarrow> bool" where
  "is_huge e \<longleftrightarrow> e AND PAGE_HUGE \<noteq> 0"

definition entry_addr :: "u64 \<Rightarrow> nat" where
  "entry_addr e = unat (e AND NOT 0xFFF)"

definition user_table :: "nat \<Rightarrow> u64" where
  "user_table t = word_of_nat t OR PAGE_PRESENT OR PAGE_WRITABLE OR PAGE_USER"

text \<open>The table index of an address at level 4 (PML4), 3, 2 and 1.\<close>

definition va_idx :: "nat \<Rightarrow> nat \<Rightarrow> nat" where
  "va_idx lvl va = va div 2 ^ (12 + 9 * (lvl - 1)) mod 512"

record kimage =
  k_pml4 :: nat
  k_pdpt :: nat
  k_pd :: nat

section \<open>Operations\<close>

definition paging_init :: "kimage \<Rightarrow> mem \<Rightarrow> mem" where
  "paging_init ki m =
     (let m1 = wr64 (k_pml4 ki) (word_of_nat (k_pdpt ki) OR PAGE_PRESENT OR PAGE_WRITABLE) m;
          m2 = fold (\<lambda>i. wr64 (k_pdpt ki + 8 * i)
                 (word_of_nat (k_pd ki + i * 4096) OR PAGE_PRESENT OR PAGE_WRITABLE)) [0..<4] m1
      in fold (\<lambda>gib. fold (\<lambda>mib. wr64 (k_pd ki + gib * 4096 + 8 * mib)
                 ((push_bit 30 (word_of_nat gib) OR push_bit 21 (word_of_nat mib))
                  OR PAGE_PRESENT OR PAGE_WRITABLE OR PAGE_HUGE)) [0..<512]) [0..<4] m2)"

definition create_process_page_table :: "kimage \<Rightarrow> nat \<Rightarrow> nat \<Rightarrow> mem \<Rightarrow> mem \<times> nat option" where
  "create_process_page_table ki code_phys stack_phys m =
     (case alloc_pages 1 m of (m1, None) \<Rightarrow> (m1, None) | (m1, Some pml4) \<Rightarrow>
     (case alloc_pages 1 m1 of (m2, None) \<Rightarrow> (m2, None) | (m2, Some pdpt) \<Rightarrow>
     (case alloc_pages 1 m2 of (m3, None) \<Rightarrow> (m3, None) | (m3, Some pd) \<Rightarrow>
     (case alloc_pages 1 m3 of (m4, None) \<Rightarrow> (m4, None) | (m4, Some pt) \<Rightarrow>
        let z = zero_page pt (zero_page pd (zero_page pdpt (zero_page pml4 m4)));
            a = wr64 pml4 (rd64 z (k_pml4 ki) AND NOT PAGE_USER) z;
            b = wr64 (pml4 + 8) (user_table pdpt) a;
            c = wr64 pdpt (user_table pd) b;
            d = wr64 pd (user_table pt) c;
            e = wr64 (pt + 8 * va_idx 1 USER_CODE_VA) (user_table code_phys) d
        in (wr64 (pt + 8 * va_idx 1 (USER_STACK_TOP - 4096)) (user_table stack_phys) e, Some pml4)))))"

definition create_empty_process_page_table :: "kimage \<Rightarrow> mem \<Rightarrow> mem \<times> nat option" where
  "create_empty_process_page_table ki m =
     (case alloc_pages 1 m of
        (m1, None) \<Rightarrow> (m1, None)
      | (m1, Some pml4) \<Rightarrow>
          let z = zero_page pml4 m1
          in (wr64 pml4 (rd64 z (k_pml4 ki) AND NOT PAGE_USER) z, Some pml4))"

text \<open>One level of \<^verbatim>\<open>map_user_page\<close>: the table behind an entry, allocated on demand.  The
  first level does not look at the huge bit.\<close>

definition next_table :: "bool \<Rightarrow> nat \<Rightarrow> nat \<Rightarrow> mem \<Rightarrow> mem \<times> nat option" where
  "next_table check_huge t i m =
     (let e = rd64 m (t + 8 * i) in
      if is_present e then
        if check_huge \<and> is_huge e then (m, None) else (m, Some (entry_addr e))
      else case alloc_pages 1 m of
        (m1, None) \<Rightarrow> (m1, None)
      | (m1, Some new) \<Rightarrow> (wr64 (t + 8 * i) (user_table new) (zero_page new m1), Some new))"

definition page_flags :: "u32 \<Rightarrow> u64" where
  "page_flags prot =
     PAGE_PRESENT OR (if prot AND PROT_WRITE \<noteq> 0 then PAGE_WRITABLE else 0)
                  OR (if prot AND PROT_USER \<noteq> 0 then PAGE_USER else 0)"

definition map_user_page :: "nat \<Rightarrow> nat \<Rightarrow> nat \<Rightarrow> u32 \<Rightarrow> mem \<Rightarrow> mem \<times> bool" where
  "map_user_page pml4 va pa prot m =
     (if va_idx 4 va = 0 then (m, False)
      else case next_table False pml4 (va_idx 4 va) m of
        (m1, None) \<Rightarrow> (m1, False)
      | (m1, Some pdpt) \<Rightarrow>
        (case next_table True pdpt (va_idx 3 va) m1 of
           (m2, None) \<Rightarrow> (m2, False)
         | (m2, Some pd) \<Rightarrow>
           (case next_table True pd (va_idx 2 va) m2 of
              (m3, None) \<Rightarrow> (m3, False)
            | (m3, Some pt) \<Rightarrow>
                (wr64 (pt + 8 * va_idx 1 va) ((word_of_nat pa AND NOT 0xFFF) OR page_flags prot) m3, True))))"

text \<open>\<^verbatim>\<open>clone_user_page_table\<close>: the four nested loops differ only in their level.  At
  levels 3 and 2 a huge entry is shared; at level 1 the page itself is copied.\<close>

function clone_tbl :: "nat \<Rightarrow> nat list \<Rightarrow> nat \<Rightarrow> nat \<Rightarrow> mem \<Rightarrow> mem \<times> bool" where
  "clone_tbl lvl [] src dst m = (m, True)"
| "clone_tbl lvl (i # is) src dst m =
     (let e = rd64 m (src + 8 * i) in
      if \<not> is_present e then clone_tbl lvl is src dst m
      else if (lvl = 3 \<or> lvl = 2) \<and> is_huge e then clone_tbl lvl is src dst (wr64 (dst + 8 * i) e m)
      else case alloc_pages 1 m of
        (m1, None) \<Rightarrow> (m1, False)
      | (m1, Some new) \<Rightarrow>
          let entry = (word_of_nat new AND NOT 0xFFF) OR (e AND 0xFFF) in
          if lvl \<le> 1 then clone_tbl lvl is src dst (wr64 (dst + 8 * i) entry (copy_page (entry_addr e) new m1))
          else (case clone_tbl (lvl - 1) [0..<512] (entry_addr e) new (zero_page new m1) of
                  (m2, False) \<Rightarrow> (m2, False)
                | (m2, True) \<Rightarrow> clone_tbl lvl is src dst (wr64 (dst + 8 * i) entry m2)))"
  by pat_completeness auto
termination
  by (relation "measures [\<lambda>(lvl, is, _). lvl, \<lambda>(lvl, is, _). length is]") auto

declare clone_tbl.simps(2) [simp del]

definition clone_user_page_table :: "nat \<Rightarrow> mem \<Rightarrow> mem \<times> nat option" where
  "clone_user_page_table src m =
     (case alloc_pages 1 m of
        (m1, None) \<Rightarrow> (m1, None)
      | (m1, Some new) \<Rightarrow>
          let m2 = zero_page new m1;
              m3 = wr64 new (rd64 m2 src) m2
          in case clone_tbl 4 [1..<512] src new m3 of
               (m4, False) \<Rightarrow> (m4, None)
             | (m4, True) \<Rightarrow> (m4, Some new))"

definition protect_guard_page :: "kimage \<Rightarrow> nat \<Rightarrow> mem \<Rightarrow> mem \<times> bool" where
  "protect_guard_page ki phys m =
     (if phys \<ge> 4 * 1024 * 1024 * 1024 then (m, False)
      else let pd_entry = k_pd ki + phys div 2 ^ 30 mod 4 * 4096 + 8 * va_idx 2 phys;
               pt_idx = va_idx 1 phys;
               unmap = (\<lambda>m. (wr64 (entry_addr (rd64 m pd_entry) + 8 * pt_idx) 0 m, True))
           in if is_huge (rd64 m pd_entry) then
                (case alloc_pages 1 m of
                   (m1, None) \<Rightarrow> (m1, False)
                 | (m1, Some pt) \<Rightarrow>
                     let huge_base = phys div 2 ^ 21 * 2 ^ 21;
                         m2 = fold (\<lambda>i. wr64 (pt + 8 * i)
                                (word_of_nat (huge_base + i * 4096) OR PAGE_PRESENT OR PAGE_WRITABLE)) [0..<512] m1
                     in unmap (wr64 pd_entry (word_of_nat pt OR PAGE_PRESENT OR PAGE_WRITABLE) m2))
              else unmap m)"

section \<open>The page walk\<close>

text \<open>The processor's translation: the physical address of a virtual one, \<open>None\<close> on a fault.\<close>

definition translate :: "mem \<Rightarrow> nat \<Rightarrow> nat \<Rightarrow> nat option" where
  "translate m root va =
     (let e4 = rd64 m (root + 8 * va_idx 4 va) in
      if \<not> is_present e4 then None
      else let e3 = rd64 m (entry_addr e4 + 8 * va_idx 3 va) in
      if \<not> is_present e3 then None
      else if is_huge e3 then Some (entry_addr e3 div 2 ^ 30 * 2 ^ 30 + va mod 2 ^ 30)
      else let e2 = rd64 m (entry_addr e3 + 8 * va_idx 2 va) in
      if \<not> is_present e2 then None
      else if is_huge e2 then Some (entry_addr e2 div 2 ^ 21 * 2 ^ 21 + va mod 2 ^ 21)
      else let e1 = rd64 m (entry_addr e2 + 8 * va_idx 1 va) in
      if \<not> is_present e1 then None
      else Some (entry_addr e1 + va mod 4096))"

section \<open>Entries\<close>

lemma va_idx_less [simp]: "va_idx l va < 512"
  by (simp add: va_idx_def)

lemma page_bits: "4096 dvd a \<Longrightarrow> n < 12 \<Longrightarrow> \<not> bit (word_of_nat a :: u64) n"
proof -
  assume a: "4096 dvd a" and n: "n < 12"
  then obtain k where "a = k * 2 ^ 12" by (auto elim!: dvdE)
  then have "a = push_bit 12 k" by (simp add: push_bit_eq_mult)
  with n show ?thesis by (simp add: bit_simps)
qed

lemma mask_4095: "(0xFFF :: u64) = mask 12"
  by (simp add: mask_numeral)

lemma page_and_mask:
  assumes "4096 dvd a"
  shows "word_of_nat a AND NOT 0xFFF = (word_of_nat a :: u64)"
proof (rule bit_word_eqI)
  fix n assume n: "n < LENGTH(64)"
  have "bit (NOT 0xFFF :: u64) n \<longleftrightarrow> \<not> n < 12"
    using n by (simp add: mask_4095 bit_not_iff bit_mask_iff del: mask_numeral)
  then show "bit (word_of_nat a AND NOT 0xFFF :: u64) n = bit (word_of_nat a :: u64) n"
    unfolding bit_and_iff using page_bits[OF assms, of n] by blast
qed

lemma entry_addr_flags:
  assumes "4096 dvd a" "a < 2 ^ 64" "f AND NOT 0xFFF = 0"
  shows "entry_addr (word_of_nat a OR f) = a"
proof -
  have "(word_of_nat a OR f) AND NOT 0xFFF = (word_of_nat a AND NOT 0xFFF) OR (f AND NOT 0xFFF)"
    by (rule bit_eqI) (auto simp: bit_and_iff bit_or_iff)
  with assms(3) page_and_mask[OF assms(1)] have "(word_of_nat a OR f) AND NOT 0xFFF = (word_of_nat a :: u64)" by simp
  with assms(2) show ?thesis by (simp add: entry_addr_def unat_of_nat)
qed

lemma entry_addr_page [simp]: "4096 dvd entry_addr e"
proof -
  have "take_bit 12 (e AND NOT 0xFFF) = 0"
    by (rule bit_eqI) (simp add: mask_4095 bit_simps del: mask_numeral)
  then have "take_bit 12 (entry_addr e) = 0" unfolding entry_addr_def by (metis unsigned_take_bit_eq unsigned_0)
  then show ?thesis by (simp add: take_bit_eq_mod dvd_eq_mod_eq_0)
qed

lemma is_present_bit: "is_present e \<longleftrightarrow> bit e 0"
  unfolding is_present_def PAGE_PRESENT_def by (metis and_exp_eq_0_iff_not_bit power_0)

lemma user_table_entry [simp]:
  assumes "4096 dvd t" "t < 2 ^ 64"
  shows "entry_addr (user_table t) = t" "is_present (user_table t)" "\<not> is_huge (user_table t)"
proof -
  have u: "user_table t = word_of_nat t OR 7"
    by (simp add: user_table_def PAGE_PRESENT_def PAGE_WRITABLE_def PAGE_USER_def or.assoc)
  show "entry_addr (user_table t) = t"
    unfolding u using assms by (intro entry_addr_flags) auto
  have "bit (user_table t) 0" unfolding u bit_or_iff by simp
  then show "is_present (user_table t)" by (simp only: is_present_bit)
  have "\<not> bit (7 :: u64) 7" by simp
  moreover have "\<not> bit (word_of_nat t :: u64) 7" using page_bits[OF assms(1)] by simp
  ultimately have "\<not> bit (user_table t) 7" unfolding u bit_or_iff by blast
  moreover have "(0x80 :: u64) = 2 ^ 7" by simp
  ultimately show "\<not> is_huge (user_table t)"
    unfolding is_huge_def PAGE_HUGE_def by (metis and_exp_eq_0_iff_not_bit)
qed

lemma not_present_0 [simp]: "\<not> is_present 0"
  by (simp add: is_present_def)

section \<open>The format\<close>

definition x86_format :: pt_format where
  "x86_format = \<lparr>pf_present = is_present, pf_leaf = is_huge, pf_addr = entry_addr, pf_table = user_table,
     pf_depth = 3, pf_plain_top = True\<rparr>"

lemma x86_format_simps [simp]:
  "pf_present x86_format = is_present" "pf_leaf x86_format = is_huge" "pf_addr x86_format = entry_addr"
  "pf_table x86_format = user_table" "pf_depth x86_format = 3" "pf_plain_top x86_format"
  by (simp_all add: x86_format_def)

interpretation x86: page_format x86_format
  by unfold_locales simp_all

text \<open>The tables of an address space are pages that are not free, each of them hangs at one place of
  the tree only, and the entries of the top level are tables.\<close>

abbreviation pt_tree :: "mem \<Rightarrow> nat \<Rightarrow> bool" where
  "pt_tree \<equiv> tree x86_format"

definition va_path :: "nat \<Rightarrow> nat list" where
  "va_path va = [va_idx 4 va, va_idx 3 va, va_idx 2 va, va_idx 1 va]"

text \<open>No huge page on the walk of an address.\<close>

definition no_huge :: "mem \<Rightarrow> nat \<Rightarrow> nat \<Rightarrow> bool" where
  "no_huge m root va \<longleftrightarrow> clear_path x86_format m root (butlast (va_path va))"

lemma va_path_full [simp]: "full_path x86_format (va_path va)"
  by (simp add: full_path_def va_path_def)

text \<open>The walk of the processor and the mapping routine are those of the format.\<close>

lemma translate_walk_top:
  assumes "is_present (rd64 m (root + 8 * va_idx 4 va)) \<Longrightarrow> \<not> is_huge (rd64 m (root + 8 * va_idx 4 va))"
  shows "translate m root va =
    map_option (\<lambda>(e, n). entry_addr e div 2 ^ (12 + 9 * n) * 2 ^ (12 + 9 * n) + va mod 2 ^ (12 + 9 * n))
      (walk x86_format m root (va_path va))"
proof -
  let ?e4 = "rd64 m (root + 8 * va_idx 4 va)" let ?e3 = "rd64 m (entry_addr ?e4 + 8 * va_idx 3 va)"
  let ?e2 = "rd64 m (entry_addr ?e3 + 8 * va_idx 2 va)" let ?e1 = "rd64 m (entry_addr ?e2 + 8 * va_idx 1 va)"
  have "entry_addr ?e1 div 4096 * 4096 = entry_addr ?e1" by simp
  then show ?thesis using assms unfolding translate_def va_path_def walk.simps Let_def by (simp del: dvd_div_mult_self)
qed

lemma translate_walk:
  assumes "pt_tree m root"
  shows "translate m root va =
    map_option (\<lambda>(e, n). entry_addr e div 2 ^ (12 + 9 * n) * 2 ^ (12 + 9 * n) + va mod 2 ^ (12 + 9 * n))
      (walk x86_format m root (va_path va))"
  by (rule translate_walk_top) (use treeD(2)[OF assms, of "va_idx 4 va"] in simp)

lemma next_table_tbl: "next_table = next_tbl x86_format"
  by (intro ext) (simp only: next_table_def next_tbl_def x86_format_simps)

lemma map_user_page_path:
  "map_user_page root va pa prot m =
     (if va_idx 4 va = 0 then (m, False)
      else map_path x86_format root (va_path va) ((word_of_nat pa AND NOT 0xFFF) OR page_flags prot) m)"
  by (simp add: map_user_page_def map_path_def va_path_def next_table_tbl split: prod.split option.split)

text \<open>Copied entries keep the low twelve bits.\<close>

definition with_frame :: "u64 \<Rightarrow> nat \<Rightarrow> u64" where
  "with_frame e t = (word_of_nat t AND NOT 0xFFF) OR (e AND 0xFFF)"

definition x86_clone :: clone_format where
  "x86_clone = \<lparr>cl_fmt = x86_format, cl_inner = with_frame, cl_page = with_frame\<rparr>"

lemma x86_clone_simps [simp]:
  "cl_fmt x86_clone = x86_format" "cl_inner x86_clone = with_frame" "cl_page x86_clone = with_frame"
  by (simp_all add: x86_clone_def)

lemma with_frame_bit:
  assumes "4096 dvd t" "n < 12"
  shows "bit (with_frame e t) n = bit e n"
proof -
  have "bit (0xFFF :: u64) n" using assms(2) by (simp add: mask_4095 bit_mask_iff del: mask_numeral)
  then show ?thesis using page_bits[OF assms] unfolding with_frame_def bit_and_iff bit_or_iff page_and_mask[OF assms(1)] by blast
qed

lemma with_frame_entry [simp]:
  assumes "4096 dvd t" "t < 2 ^ 64"
  shows "entry_addr (with_frame e t) = t" "is_present (with_frame e t) = is_present e" "is_huge (with_frame e t) = is_huge e"
proof -
  have "(e AND 0xFFF) AND NOT 0xFFF = 0" by (simp add: and.assoc)
  then show "entry_addr (with_frame e t) = t"
    unfolding with_frame_def page_and_mask[OF assms(1)] by (rule entry_addr_flags[OF assms])
  show "is_present (with_frame e t) = is_present e" unfolding is_present_bit by (rule with_frame_bit[OF assms(1)]) simp
  have "is_huge x \<longleftrightarrow> bit x 7" for x
  proof -
    have "(0x80 :: u64) = 2 ^ 7" by simp
    then show ?thesis unfolding is_huge_def PAGE_HUGE_def by (metis and_exp_eq_0_iff_not_bit)
  qed
  then show "is_huge (with_frame e t) = is_huge e" using with_frame_bit[OF assms(1)] by simp
qed

interpretation x86c: page_clone x86_clone
  by unfold_locales simp_all

lemma clone_tbl_lvl: "clone_tbl lvl is src dst m = clone_lvl x86_clone lvl is src dst m"
  by (induction lvl "is" src dst m rule: clone_tbl.induct)
     (simp_all add: clone_tbl.simps(2) clone_lvl.simps(2) with_frame_def Let_def split: prod.split option.split bool.split)

lemma clone_user_page_table_root: "clone_user_page_table src m = clone_root x86_clone 1 4 src m"
  by (simp add: clone_user_page_table_def clone_root_def clone_tbl_lvl Let_def split: prod.split option.split bool.split)

section \<open>Mapping a page\<close>

lemma page_flags_entry:
  assumes "4096 dvd pa" "pa < 2 ^ 64"
  shows "entry_addr ((word_of_nat pa AND NOT 0xFFF) OR page_flags prot) = pa"
    and "is_present ((word_of_nat pa AND NOT 0xFFF) OR page_flags prot)"
proof -
  have f: "page_flags prot \<in> {1, 3, 5, 7}"
    by (simp add: page_flags_def PAGE_PRESENT_def PAGE_WRITABLE_def PAGE_USER_def)
  show "entry_addr ((word_of_nat pa AND NOT 0xFFF) OR page_flags prot) = pa"
    unfolding page_and_mask[OF assms(1)] using f by (intro entry_addr_flags assms) auto
  have "bit (page_flags prot) 0" using f by auto
  then show "is_present ((word_of_nat pa AND NOT 0xFFF) OR page_flags prot)"
    unfolding is_present_bit bit_or_iff by blast
qed

lemma map_user_page_maps:
  assumes T: "pt_tree m root" and ok: "map_user_page root va pa prot m = (m', True)" and pa: "4096 dvd pa" "pa < 2 ^ 64"
  shows "pt_tree m' root" "translate m' root va = Some (pa + va mod 4096)"
    "va_path va' \<noteq> va_path va \<Longrightarrow> translate m' root va' = translate m root va'"
proof -
  let ?e = "(word_of_nat pa AND NOT 0xFFF) OR page_flags prot"
  from ok have "map_path x86_format root (va_path va) ?e m = (m', True)"
    by (simp add: map_user_page_path split: if_splits)
  note M = x86.map_path_ok[OF T va_path_full _ this]
  show T': "pt_tree m' root" by (rule M(1)) simp
  have "walk x86_format m' root (va_path va) = Some (?e, 0)" by (rule M(2)) (simp, simp only: x86_format_simps page_flags_entry[OF pa])
  then show "translate m' root va = Some (pa + va mod 4096)"
    using pa by (simp add: translate_walk[OF T'] page_flags_entry[OF pa, simplified])
  show "translate m' root va' = translate m root va'" if ne: "va_path va' \<noteq> va_path va"
    using M(3)[OF _ va_path_full ne] by (simp add: translate_walk T T')
qed

text \<open>Mapping succeeds while frames last.\<close>

lemma map_user_page_total:
  assumes T: "pt_tree m root" and i4: "va_idx 4 va \<noteq> 0" and nh: "no_huge m root va" and fr: "3 \<le> card (free_set (m_pmm m))"
  shows "\<exists>m'. map_user_page root va pa prot m = (m', True)"
  using x86.map_path_total[OF T va_path_full nh[unfolded no_huge_def]] i4 fr by (simp add: map_user_page_path)

section \<open>Copying an address space\<close>

lemma clone_walks:
  assumes "pt_tree m root" "pages_used x86_format m root" "clone_user_page_table root m = (m', Some new)" "full_path x86_format p"
  shows "walk x86_format m' root p = walk x86_format m root p"
    "hd p = 0 \<Longrightarrow> walk x86_format m' new p = walk x86_format m root p"
    "0 < hd p \<Longrightarrow> case walk x86_format m root p of
        None \<Rightarrow> walk x86_format m' new p = None
      | Some (e, l) \<Rightarrow> \<exists>e'. walk x86_format m' new p = Some (e', l)
          \<and> (if l = 0 then page_dup x86_clone m m' (free_mem (m_pmm m) - free_mem (m_pmm m')) e e' else e' = e)"
proof -
  have r: "clone_root x86_clone 1 (Suc 3) root m = (m', Some new)" using assms(3) by (simp add: clone_user_page_table_root)
  note W = x86c.clone_root_walks[unfolded x86_clone_simps, OF assms(1,2) x86_format_simps(5) _ r assms(4)]
  show "walk x86_format m' root p = walk x86_format m root p" by (rule W(1)) simp
  show "walk x86_format m' new p = walk x86_format m root p" if "hd p = 0" by (rule W(2)) (use that in simp_all)
  show "case walk x86_format m root p of
        None \<Rightarrow> walk x86_format m' new p = None
      | Some (e, l) \<Rightarrow> \<exists>e'. walk x86_format m' new p = Some (e', l)
          \<and> (if l = 0 then page_dup x86_clone m m' (free_mem (m_pmm m) - free_mem (m_pmm m')) e e' else e' = e)" if "0 < hd p"
    by (rule W(3)) (use that in simp_all)
qed

lemma clone_frame:
  assumes "pt_tree m root" "pages_used x86_format m root" "clone_user_page_table root m = (m', Some new)"
  shows "pt_tree m' root" "x \<notin> free_mem (m_pmm m) \<Longrightarrow> m_store m' x = m_store m x"
proof -
  have r: "clone_root x86_clone 1 (Suc 3) root m = (m', Some new)" using assms(3) by (simp add: clone_user_page_table_root)
  note R = x86c.clone_root_copies[unfolded x86_clone_simps, OF assms(1,2) x86_format_simps(5) _ r]
  have R': "alloc_ok m'" "free_mem (m_pmm m') \<subseteq> free_mem (m_pmm m)" "\<And>x. x \<notin> free_mem (m_pmm m) \<Longrightarrow> m_store m' x = m_store m x"
    by (rule R(1), simp, rule R(2), simp, rule R(4), simp_all)
  show "pt_tree m' root" by (rule tree_free[OF assms(1) R'(3,1,2)])
  show "m_store m' x = m_store m x" if "x \<notin> free_mem (m_pmm m)" by (rule R'(3)[OF that])
qed

text \<open>The top level of the clone has no leaf either.\<close>

lemma clone_top:
  assumes C: "pt_tree m root" "pages_used x86_format m root" "clone_user_page_table root m = (m', Some new)"
    and e: "is_present (rd64 m' (new + 8 * va_idx 4 va))"
  shows "\<not> is_huge (rd64 m' (new + 8 * va_idx 4 va))"
proof
  assume "is_huge (rd64 m' (new + 8 * va_idx 4 va))"
  with e have w: "walk x86_format m' new (va_path va) = Some (rd64 m' (new + 8 * va_idx 4 va), 3)" by (simp add: va_path_def)
  note W = clone_walks[OF C va_path_full, of va]
  from w W(2,3) obtain e' where "walk x86_format m root (va_path va) = Some (e', 3)"
    by (cases "hd (va_path va) = 0"; cases "walk x86_format m root (va_path va)") auto
  then have "is_present (rd64 m (root + 8 * va_idx 4 va)) \<and> is_huge (rd64 m (root + 8 * va_idx 4 va))"
    by (auto simp: va_path_def Let_def split: if_splits)
  then show False using treeD(2)[OF C(1), of "va_idx 4 va"] by simp
qed

lemma clone_translate:
  assumes C: "pt_tree m root" "pages_used x86_format m root" "clone_user_page_table root m = (m', Some new)"
  shows "translate m' root va = translate m root va"
    "va_idx 4 va = 0 \<Longrightarrow> translate m' new va = translate m root va"
    "va_idx 4 va \<noteq> 0 \<Longrightarrow> no_huge m root va \<Longrightarrow> case translate m root va of
        None \<Rightarrow> translate m' new va = None
      | Some pa \<Rightarrow> \<exists>pa'. translate m' new va = Some pa' \<and> pa' \<in> free_mem (m_pmm m) - free_mem (m_pmm m') \<and> m_store m' pa' = m_store m pa"
proof -
  note W = clone_walks[OF C va_path_full, of va] and tr = translate_walk[OF C(1), of va]
  have new: "translate m' new va =
    map_option (\<lambda>(e, n). entry_addr e div 2 ^ (12 + 9 * n) * 2 ^ (12 + 9 * n) + va mod 2 ^ (12 + 9 * n))
      (walk x86_format m' new (va_path va))"
    by (rule translate_walk_top) (use clone_top[OF C] in blast)
  have h: "hd (va_path va) = va_idx 4 va" by (simp add: va_path_def)
  show "translate m' root va = translate m root va" by (simp add: translate_walk[OF clone_frame(1)[OF C]] tr W(1))
  show "translate m' new va = translate m root va" if "va_idx 4 va = 0" using W(2) that by (simp add: new tr h)
  assume i: "va_idx 4 va \<noteq> 0" and nh: "no_huge m root va"
  show "case translate m root va of
        None \<Rightarrow> translate m' new va = None
      | Some pa \<Rightarrow> \<exists>pa'. translate m' new va = Some pa' \<and> pa' \<in> free_mem (m_pmm m) - free_mem (m_pmm m') \<and> m_store m' pa' = m_store m pa"
  proof (cases "walk x86_format m root (va_path va)")
    case None
    with W(3) i show ?thesis by (simp add: new tr h)
  next
    case (Some r)
    then obtain e where w: "walk x86_format m root (va_path va) = Some (e, 0)"
      using clear_walk[OF nh[unfolded no_huge_def]] by (cases r) auto
    with W(3) i obtain e' where e': "walk x86_format m' new (va_path va) = Some (e', 0)"
      "page_dup x86_clone m m' (free_mem (m_pmm m) - free_mem (m_pmm m')) e e'" by (auto simp: h)
    have "va mod 4096 < 4096" by simp
    with e'(2) page_in have "entry_addr e' + va mod 4096 \<in> free_mem (m_pmm m) - free_mem (m_pmm m')"
      "m_store m' (entry_addr e' + va mod 4096) = m_store m (entry_addr e + va mod 4096)"
      unfolding page_dup_def Let_def x86_clone_simps x86_format_simps by blast+
    then show ?thesis by (simp add: new tr w e'(1))
  qed
qed

section \<open>Properties\<close>

text \<open>An address space with one empty table, for the concrete instances.\<close>

definition demo_mem :: mem where
  "demo_mem = mem_init X86_64 0x200000 mmap_empty (mem_boot (\<lambda>_. 0))"

lemma demo_mem_pmm:
  "m_pmm demo_mem = init_fallback X86_64 pmm_bss" "bitmap_ready demo_mem" "m_store demo_mem = (\<lambda>_. 0)"
  "pmm_wf (m_pmm demo_mem)" "free_set (m_pmm demo_mem) = {..<32512}" "total_frames (m_pmm demo_mem) = 32512"
  "mem_base (m_pmm demo_mem) = 0x100000"
proof -
  have "mmap_iter mmap_empty = []" by (simp add: mmap_iter_def mmap_empty_def)
  then have "largest_usable mmap_empty b = None" for b by (simp add: largest_usable_def)
  then show m: "m_pmm demo_mem = init_fallback X86_64 pmm_bss"
    by (simp add: demo_mem_def mem_init_parts init_from_mmap_def)
  show "bitmap_ready demo_mem" "m_store demo_mem = (\<lambda>_. 0)"
    by (simp add: demo_mem_def mem_init_parts) (simp add: demo_mem_def mem_init_def slab_init_def mem_boot_def Let_def)
  have "target_ok X86_64" by (simp add: target_ok_def)
  note F = init_fallback_effect[OF this]
  show "pmm_wf (m_pmm demo_mem)" unfolding m by (rule F)
  show t: "total_frames (m_pmm demo_mem) = 32512" unfolding m by (simp add: init_fallback_def)
  show "free_set (m_pmm demo_mem) = {..<32512}" unfolding m F(3) t[unfolded m] ..
  show "mem_base (m_pmm demo_mem) = 0x100000" unfolding m by (simp add: init_fallback_def pmm_min_base_def)
qed

lemma demo_tbl: "tbl x86_format demo_mem root is = (if is = [] then Some root else None)"
  by (cases "is") (simp_all add: rd64_def demo_mem_pmm)

lemma demo_tree: "pt_tree demo_mem 0x8000"
proof -
  have "free_mem (m_pmm demo_mem) \<subseteq> {0x100000..}" by (auto simp: free_mem_def demo_mem_pmm(7))
  then have "{0x8000..<0x8000 + 4096} \<inter> free_mem (m_pmm demo_mem) = {}" by fastforce
  moreover have "(4096 :: nat) dvd 0x8000" "(4096 :: nat) dvd 0x100000" by simp_all
  ultimately show ?thesis
    unfolding tree_def alloc_ok_def demo_tbl demo_mem_pmm(6,7) using demo_mem_pmm(2,4)
    by (auto simp: rd64_def demo_mem_pmm(3) split: if_splits)
qed

lemma demo_no_huge: "no_huge demo_mem 0x8000 va"
  by (simp add: no_huge_def va_path_def rd64_def demo_mem_pmm(3))

text \<open>An address space with one page: \<^verbatim>\<open>0x8000001000\<close> is mapped to \<^verbatim>\<open>0xC000\<close>, which holds a word.\<close>

definition demo_space :: mem where
  "demo_space = demo_mem\<lparr>m_store := (\<lambda>_. 0)(0x8008 := 0x9007, 0x9000 := 0xA007, 0xA000 := 0xB007, 0xB008 := 0xC007, 0xC010 := 42)\<rparr>"

lemma demo_space_pmm [simp]:
  "m_pmm demo_space = m_pmm demo_mem" "alloc_ok demo_space" "free_mem (m_pmm demo_mem) \<inter> {..<0x100000} = {}"
  by (auto simp: demo_space_def alloc_ok_def demo_mem_pmm(2-7) free_mem_def)

lemma demo_space_slots:
  assumes "j < 512"
  shows "rd64 demo_space (0x8000 + 8 * j) = (if j = 1 then 0x9007 else 0)" "rd64 demo_space (0x9000 + 8 * j) = (if j = 0 then 0xA007 else 0)"
    "rd64 demo_space (0xA000 + 8 * j) = (if j = 0 then 0xB007 else 0)" "rd64 demo_space (0xB000 + 8 * j) = (if j = 1 then 0xC007 else 0)"
  using assms by (auto simp: rd64_def demo_space_def)

lemma demo_space_rd [simp]:
  "rd64 demo_space 0x8008 = 0x9007" "rd64 demo_space 0x9000 = 0xA007" "rd64 demo_space 0xA000 = 0xB007" "rd64 demo_space 0xB008 = 0xC007"
  using demo_space_slots(1)[of 1] demo_space_slots(2)[of 0] demo_space_slots(3)[of 0] demo_space_slots(4)[of 1] by simp_all

lemma demo_entries [simp]:
  "is_present 0x9007" "is_present 0xA007" "is_present 0xB007" "is_present 0xC007"
  "\<not> is_huge 0x9007" "\<not> is_huge 0xA007" "\<not> is_huge 0xB007" "\<not> is_huge 0xC007"
  "entry_addr 0x9007 = 0x9000" "entry_addr 0xA007 = 0xA000" "entry_addr 0xB007 = 0xB000" "entry_addr 0xC007 = 0xC000"
  by (simp_all add: is_present_def is_huge_def entry_addr_def PAGE_PRESENT_def PAGE_HUGE_def)

lemma demo_space_tbl:
  assumes "tpos x86_format is" "tbl x86_format demo_space 0x8000 is = Some t"
  shows "(is, t) \<in> {([], 0x8000), ([1], 0x9000), ([1, 0], 0xA000), ([1, 0, 0], 0xB000)}"
proof -
  consider "is = []" | a where "is = [a]" | a b where "is = [a, b]" | a b c where "is = [a, b, c]"
    using assms(1) by (auto simp: tpos_def le_Suc_eq length_Suc_conv numeral_3_eq_3)
  then show ?thesis
    using assms by cases (auto simp: tpos_def Let_def demo_space_slots split: if_splits)
qed

lemma demo_space_tree: "pt_tree demo_space 0x8000"
  unfolding tree_def
proof (intro conjI allI impI)
  show "\<not> pf_leaf x86_format (rd64 demo_space (0x8000 + 8 * i))" if "i < 512" "pf_present x86_format (rd64 demo_space (0x8000 + 8 * i))" for i
    using that by (simp add: demo_space_slots split: if_splits)
  show "4096 dvd t" "{t..<t + 4096} \<inter> free_mem (m_pmm demo_space) = {}"
    if "tpos x86_format is" "tbl x86_format demo_space 0x8000 is = Some t" for "is" t
    using demo_space_tbl[OF that] demo_space_pmm(3) by (fastforce simp: disjoint_iff)+
  show "is = js" if "tpos x86_format is" "tpos x86_format js" "tbl x86_format demo_space 0x8000 is = Some t"
    "tbl x86_format demo_space 0x8000 js = Some t" for "is" js t
    using demo_space_tbl[OF that(1,3)] demo_space_tbl[OF that(2,4)] by auto
qed simp

lemma demo_space_pages: "pages_used x86_format demo_space 0x8000"
  unfolding pages_used_def
proof (intro allI impI)
  fix p e assume "full_path x86_format p" and w: "walk x86_format demo_space 0x8000 p = Some (e, 0)"
  then obtain a b c d where p: "p = [a, b, c, d]" "a < 512" "b < 512" "c < 512" "d < 512"
    by (auto simp: full_path_def length_Suc_conv numeral_3_eq_3)
  then have "e = 0xC007" using w by (auto simp: demo_space_slots Let_def split: if_splits)
  then show "{pf_addr x86_format e..<pf_addr x86_format e + 4096} \<inter> free_mem (m_pmm demo_space) = {}"
    using demo_space_pmm(3) by (fastforce simp: disjoint_iff)
qed

text \<open>C3: In an address space whose tables form a tree of pages outside the free memory,
  \<^verbatim>\<open>map_user_page\<close> makes the processor's walk of the mapped address end at the given frame,
  changes no other page (what was mapped keeps its frame, what was not stays unmapped), and keeps the
  tree.\<close>

theorem map_user_page_correct:
  assumes "pt_tree m root" "map_user_page root va pa prot m = (m', True)" "4096 dvd pa" "pa < 2 ^ 64"
  shows "pt_tree m' root \<and> translate m' root va = Some (pa + va mod 4096)
    \<and> (\<forall>va'. va_path va' \<noteq> va_path va \<longrightarrow> translate m' root va' = translate m root va')"
  using map_user_page_maps[OF assms] by blast

theorem map_user_page_correct_witness:
  "\<exists>m'. map_user_page 0x8000 0x8000001000 0x300000 PROT_WRITE demo_mem = (m', True)
     \<and> translate m' 0x8000 0x8000001000 = Some 0x300000"
proof -
  have "va_idx 4 0x8000001000 \<noteq> 0" by (simp add: va_idx_def)
  then obtain m' where m': "map_user_page 0x8000 0x8000001000 0x300000 PROT_WRITE demo_mem = (m', True)"
    using map_user_page_total[OF demo_tree _ demo_no_huge, of "0x8000001000" "0x300000" PROT_WRITE] by (auto simp: demo_mem_pmm(5))
  with map_user_page_correct[OF demo_tree m'] show ?thesis by simp
qed

text \<open>Mapping a user page succeeds whenever three frames are free (one for each table level that may
  be missing), the address is not in the kernel's top-level slot and its walk meets no huge page.\<close>

theorem map_user_page_succeeds:
  assumes "pt_tree m root" "va_idx 4 va \<noteq> 0" "no_huge m root va" "3 \<le> card (free_set (m_pmm m))"
  shows "\<exists>m'. map_user_page root va pa prot m = (m', True)"
  using assms by (rule map_user_page_total)

theorem map_user_page_succeeds_witness:
  "\<exists>m'. map_user_page 0x8000 0x8000002000 0x400000 0 demo_mem = (m', True)"
  using map_user_page_succeeds[OF demo_tree _ demo_no_huge, of "0x8000002000" "0x400000" 0]
  by (simp add: demo_mem_pmm(5) va_idx_def)

text \<open>C4: The deep copy of an address space for \<^verbatim>\<open>fork\<close> isolates parent and child: the copy is made in frames
  that were free and changes nothing outside them, the parent keeps its tables and translations, the kernel's
  part is the same for both, and every other address of the child is mapped exactly when it is for the
  parent, to a frame that was free before the copy and now has the parent's contents (addresses below huge
  pages, which are shared, apart).\<close>

theorem clone_isolates:
  assumes "pt_tree m root" "pages_used x86_format m root" "clone_user_page_table root m = (m', Some new)"
  shows "pt_tree m' root \<and> (\<forall>x. x \<notin> free_mem (m_pmm m) \<longrightarrow> m_store m' x = m_store m x)
    \<and> (\<forall>va. translate m' root va = translate m root va)
    \<and> (\<forall>va. va_idx 4 va = 0 \<longrightarrow> translate m' new va = translate m root va)
    \<and> (\<forall>va. va_idx 4 va \<noteq> 0 \<longrightarrow> no_huge m root va \<longrightarrow>
         (case translate m root va of
            None \<Rightarrow> translate m' new va = None
          | Some pa \<Rightarrow> \<exists>pa'. translate m' new va = Some pa'
              \<and> pa' \<in> free_mem (m_pmm m) - free_mem (m_pmm m') \<and> m_store m' pa' = m_store m pa))"
  using clone_frame[OF assms] clone_translate[OF assms] by blast

lemma clone_succeeds:
  assumes "pt_tree m root" "pages_used x86_format m root"
    "(\<Sum>i\<leftarrow>[1..<512]. cost x86_format m 3 (rd64 m (root + 8 * i))) < card (free_set (m_pmm m))"
  shows "\<exists>m' new. clone_user_page_table root m = (m', Some new)"
  using x86c.clone_root_total[of m root 3 1] assms by (simp add: clone_user_page_table_root)

lemma demo_space_clone: "\<exists>m' new. clone_user_page_table 0x8000 demo_space = (m', Some new)"
proof (rule clone_succeeds[OF demo_space_tree demo_space_pages])
  have one: "(\<Sum>j\<leftarrow>[k..<512]. f j) = f i" if "\<And>j. j < 512 \<Longrightarrow> j \<noteq> i \<Longrightarrow> f j = 0" "k \<le> i" "i < 512" for f :: "nat \<Rightarrow> nat" and i k
  proof -
    have "(\<Sum>j \<in> {k..<512}. f j) = (\<Sum>j \<in> {k..<512}. if j = i then f i else 0)" by (rule sum.cong) (use that(1) in auto)
    with that(2,3) show ?thesis by (simp add: interv_sum_list_conv_sum_set_nat)
  qed
  have "(\<Sum>j\<leftarrow>[0..<512]. cost x86_format demo_space 0 (rd64 demo_space (0xB000 + 8 * j))) = 1"
    by (subst one[of 1]) (auto simp: demo_space_slots)
  then have "(\<Sum>j\<leftarrow>[0..<512]. cost x86_format demo_space (Suc 0) (rd64 demo_space (0xA000 + 8 * j))) = 2"
    by (subst one[of 0]) (auto simp: demo_space_slots)
  then have "(\<Sum>j\<leftarrow>[0..<512]. cost x86_format demo_space (Suc (Suc 0)) (rd64 demo_space (0x9000 + 8 * j))) = 3"
    by (subst one[of 0]) (auto simp: demo_space_slots)
  then have "(\<Sum>j\<leftarrow>[1..<512]. cost x86_format demo_space (Suc (Suc (Suc 0))) (rd64 demo_space (0x8000 + 8 * j))) = 4"
    by (subst one[of 1]) (auto simp: demo_space_slots cost.simps(2)[of _ _ "Suc (Suc 0)"] simp del: cost.simps(2))
  then show "(\<Sum>j\<leftarrow>[1..<512]. cost x86_format demo_space 3 (rd64 demo_space (0x8000 + 8 * j))) < card (free_set (m_pmm demo_space))"
    by (simp add: demo_mem_pmm(5) numeral_3_eq_3 del: cost.simps)
qed

theorem clone_isolates_witness:
  "\<exists>m' new pa'. clone_user_page_table 0x8000 demo_space = (m', Some new)
     \<and> translate m' 0x8000 0x8000001010 = Some 0xC010 \<and> translate m' new 0x8000001010 = Some pa' \<and> m_store m' pa' = 42"
proof -
  obtain m' new where c: "clone_user_page_table 0x8000 demo_space = (m', Some new)" using demo_space_clone by blast
  have i: "va_idx 4 0x8000001010 = 1" "va_idx 3 0x8000001010 = 0" "va_idx 2 0x8000001010 = 0" "va_idx 1 0x8000001010 = 1"
    by (simp_all add: va_idx_def)
  have t: "translate demo_space 0x8000 0x8000001010 = Some 0xC010" "no_huge demo_space 0x8000 0x8000001010" "va_idx 4 0x8000001010 \<noteq> 0"
    using i by (simp_all add: translate_def no_huge_def va_path_def Let_def)
  note I = clone_isolates[OF demo_space_tree demo_space_pages c]
  have "translate m' 0x8000 0x8000001010 = Some 0xC010" using I t(1) by metis
  moreover obtain pa' where "translate m' new 0x8000001010 = Some pa'" "m_store m' pa' = m_store demo_space 0xC010"
    using I[THEN conjunct2, THEN conjunct2, THEN conjunct2, THEN conjunct2, rule_format, OF t(3,2)] t(1) by auto
  moreover have "m_store demo_space 0xC010 = 42" by (simp add: demo_space_def)
  ultimately show ?thesis using c by auto
qed

section \<open>A fresh address space\<close>

text \<open>\<^verbatim>\<open>create_process_page_table\<close> makes three levels of user tables with two pages below the kernel's
  entry.\<close>

lemma create_process_entries:
  assumes ok: "alloc_ok m" and run: "create_process_page_table ki code stack m = (m', Some pml4)"
    and kern: "{k_pml4 ki..<k_pml4 ki + 4096} \<inter> free_mem (m_pmm m) = {}"
  obtains pdpt pd pt where "4096 dvd pdpt" "pdpt < 2 ^ 64" "4096 dvd pd" "pd < 2 ^ 64" "4096 dvd pt" "pt < 2 ^ 64"
    "\<And>j. j < 512 \<Longrightarrow> rd64 m' (pml4 + 8 * j) = (if j = 0 then rd64 m (k_pml4 ki) AND NOT PAGE_USER else if j = 1 then user_table pdpt else 0)"
    "\<And>j. j < 512 \<Longrightarrow> rd64 m' (pdpt + 8 * j) = (if j = 0 then user_table pd else 0)"
    "\<And>j. j < 512 \<Longrightarrow> rd64 m' (pd + 8 * j) = (if j = 0 then user_table pt else 0)"
    "\<And>j. j < 512 \<Longrightarrow> rd64 m' (pt + 8 * j) = (if j = 15 then user_table stack else if j = 1 then user_table code else 0)"
proof -
  have idx: "va_idx 1 USER_CODE_VA = 1" "va_idx 1 (USER_STACK_TOP - 4096) = 15"
    by (simp_all add: va_idx_def USER_CODE_VA_def USER_STACK_TOP_def)
  from run obtain m1 m2 m3 m4 pdpt pd pt where al: "alloc_pages 1 m = (m1, Some pml4)" "alloc_pages 1 m1 = (m2, Some pdpt)"
      "alloc_pages 1 m2 = (m3, Some pd)" "alloc_pages 1 m3 = (m4, Some pt)"
    and m': "m' = (let z = zero_page pt (zero_page pd (zero_page pdpt (zero_page pml4 m4)));
            a = wr64 pml4 (rd64 z (k_pml4 ki) AND NOT PAGE_USER) z
        in wr64 (pt + 8 * 15) (user_table stack) (wr64 (pt + 8 * 1) (user_table code)
             (wr64 pd (user_table pt) (wr64 pdpt (user_table pd) (wr64 (pml4 + 8) (user_table pdpt) a)))))"
    unfolding create_process_page_table_def idx by (auto simp: Let_def split: prod.splits option.splits)
  note A = alloc_page_ok[OF ok al(1)]
  note B = alloc_page_ok[OF A(1) al(2)]
  note C = alloc_page_ok[OF B(1) al(3)]
  note D = alloc_page_ok[OF C(1) al(4)]
  have ne: "pml4 \<noteq> pdpt" "pml4 \<noteq> pd" "pml4 \<noteq> pt" "pdpt \<noteq> pd" "pdpt \<noteq> pt" "pd \<noteq> pt"
  proof -
    have "pml4 \<notin> free_mem (m_pmm m1)" "pdpt \<notin> free_mem (m_pmm m2)" "pd \<notin> free_mem (m_pmm m3)" using A(7) B(7) C(7) by auto
    moreover have "pdpt \<in> free_mem (m_pmm m1)" "pd \<in> free_mem (m_pmm m2)" "pt \<in> free_mem (m_pmm m3)" using B(6) C(6) D(6) by auto
    moreover have "free_mem (m_pmm m2) \<subseteq> free_mem (m_pmm m1)" "free_mem (m_pmm m3) \<subseteq> free_mem (m_pmm m2)" using B(7) C(7) by blast+
    ultimately show "pml4 \<noteq> pdpt" "pml4 \<noteq> pd" "pml4 \<noteq> pt" "pdpt \<noteq> pd" "pdpt \<noteq> pt" "pd \<noteq> pt" by blast+
  qed
  have k: "rd64 (zero_page pt (zero_page pd (zero_page pdpt (zero_page pml4 m4)))) (k_pml4 ki) = rd64 m (k_pml4 ki)"
  proof -
    have "free_mem (m_pmm m1) \<subseteq> free_mem (m_pmm m)" "free_mem (m_pmm m2) \<subseteq> free_mem (m_pmm m1)" "free_mem (m_pmm m3) \<subseteq> free_mem (m_pmm m2)"
      using A(7) B(7) C(7) by blast+
    then have "{pml4..<pml4 + 4096} \<subseteq> free_mem (m_pmm m)" "{pdpt..<pdpt + 4096} \<subseteq> free_mem (m_pmm m)"
      "{pd..<pd + 4096} \<subseteq> free_mem (m_pmm m)" "{pt..<pt + 4096} \<subseteq> free_mem (m_pmm m)"
      using A(6) B(6) C(6) D(6) by blast+
    moreover have r: "rd64 m4 = rd64 m" using A(4) B(4) C(4) D(4) by (auto simp: rd64_def)
    moreover have "k_pml4 ki \<notin> free_mem (m_pmm m)" using kern by (auto simp: disjoint_iff)
    ultimately have "k_pml4 ki \<notin> {pml4..<pml4 + 4096}" "k_pml4 ki \<notin> {pdpt..<pdpt + 4096}" "k_pml4 ki \<notin> {pd..<pd + 4096}" "k_pml4 ki \<notin> {pt..<pt + 4096}"
      by blast+
    then show ?thesis using r by (auto simp: rd64_zero_page)
  qed
  note simps = m'[unfolded Let_def k] rd64_zero_page page_mem page_addr_eq A(2) B(2) C(2) D(2) ne ne[symmetric]
  show ?thesis
  proof (rule that[OF B(2,3) C(2,3) D(2,3)])
    fix j :: nat assume j: "j < 512"
    show "rd64 m' (pml4 + 8 * j) = (if j = 0 then rd64 m (k_pml4 ki) AND NOT PAGE_USER else if j = 1 then user_table pdpt else 0)"
      using j by (simp add: simps)
    show "rd64 m' (pdpt + 8 * j) = (if j = 0 then user_table pd else 0)" using j by (simp add: simps)
    show "rd64 m' (pd + 8 * j) = (if j = 0 then user_table pt else 0)" using j by (simp add: simps)
    show "rd64 m' (pt + 8 * j) = (if j = 15 then user_table stack else if j = 1 then user_table code else 0)"
      using j by (simp add: simps)
  qed
qed

text \<open>C5: The address space made for a new process maps its code page and its stack page to the given frames,
  maps no other user address, and shares the kernel's top-level entry without the user bit.\<close>

theorem create_process_space:
  assumes "alloc_ok m" "create_process_page_table ki code stack m = (m', Some root)"
    "{k_pml4 ki..<k_pml4 ki + 4096} \<inter> free_mem (m_pmm m) = {}"
    "4096 dvd code" "code < 2 ^ 64" "4096 dvd stack" "stack < 2 ^ 64"
  shows "(\<forall>va. 0 < va_idx 4 va \<longrightarrow> translate m' root va =
       (if va_path va = va_path USER_CODE_VA then Some (code + va mod 4096)
        else if va_path va = va_path (USER_STACK_TOP - 4096) then Some (stack + va mod 4096) else None))
    \<and> rd64 m' root = rd64 m (k_pml4 ki) AND NOT PAGE_USER"
proof -
  obtain pdpt pd pt where p: "4096 dvd pdpt" "pdpt < 2 ^ 64" "4096 dvd pd" "pd < 2 ^ 64" "4096 dvd pt" "pt < 2 ^ 64"
    and e: "\<And>j. j < 512 \<Longrightarrow> rd64 m' (root + 8 * j) = (if j = 0 then rd64 m (k_pml4 ki) AND NOT PAGE_USER else if j = 1 then user_table pdpt else 0)"
    "\<And>j. j < 512 \<Longrightarrow> rd64 m' (pdpt + 8 * j) = (if j = 0 then user_table pd else 0)"
    "\<And>j. j < 512 \<Longrightarrow> rd64 m' (pd + 8 * j) = (if j = 0 then user_table pt else 0)"
    "\<And>j. j < 512 \<Longrightarrow> rd64 m' (pt + 8 * j) = (if j = 15 then user_table stack else if j = 1 then user_table code else 0)"
    by (rule create_process_entries[OF assms(1-3)]) (rule that)
  have path: "va_path USER_CODE_VA = [1, 0, 0, 1]" "va_path (USER_STACK_TOP - 4096) = [1, 0, 0, 15]"
    by (simp_all add: va_path_def va_idx_def USER_CODE_VA_def USER_STACK_TOP_def)
  have "translate m' root va =
       (if va_path va = [1, 0, 0, 1] then Some (code + va mod 4096)
        else if va_path va = [1, 0, 0, 15] then Some (stack + va mod 4096) else None)" if "0 < va_idx 4 va" for va
    using that assms(4-7) p e(2)[of 0] e(3)[of 0] e(4)[of 1] e(4)[of 15] by (simp add: translate_def va_path_def e Let_def del: One_nat_def)
  with e(1)[of 0] show ?thesis unfolding path by simp
qed

lemma create_process_total:
  assumes "alloc_ok m" "4 \<le> card (free_set (m_pmm m))"
  shows "\<exists>m' root. create_process_page_table ki code stack m = (m', Some root)"
proof -
  have next_page: "\<exists>m' p. alloc_pages 1 m = (m', Some p) \<and> alloc_ok m' \<and> card (free_set (m_pmm m)) = Suc (card (free_set (m_pmm m')))"
    if "alloc_ok m" "0 < card (free_set (m_pmm m))" for m
    using alloc_page_progress[OF alloc_okD(1,2)[OF that(1)]] alloc_page_ok(1)[OF that(1)] that(2) by (metis card.empty less_irrefl)
  obtain m1 p where 1: "alloc_pages 1 m = (m1, Some p)" "alloc_ok m1" "3 \<le> card (free_set (m_pmm m1))" using next_page[of m] assms by auto
  obtain m2 q where 2: "alloc_pages 1 m1 = (m2, Some q)" "alloc_ok m2" "2 \<le> card (free_set (m_pmm m2))" using next_page[of m1] 1 by auto
  obtain m3 r where 3: "alloc_pages 1 m2 = (m3, Some r)" "alloc_ok m3" "1 \<le> card (free_set (m_pmm m3))" using next_page[of m2] 2 by auto
  obtain m4 s where 4: "alloc_pages 1 m3 = (m4, Some s)" using next_page[of m3] 3 by auto
  show ?thesis unfolding create_process_page_table_def using 1(1) 2(1) 3(1) 4 by (simp add: Let_def)
qed

theorem create_process_space_witness:
  "\<exists>m' root. create_process_page_table \<lparr>k_pml4 = 0x1000, k_pdpt = 0x2000, k_pd = 0x3000\<rparr> 0x300000 0x301000 demo_mem = (m', Some root)
     \<and> translate m' root 0x8000001010 = Some 0x300010 \<and> translate m' root 0x800000F008 = Some 0x301008
     \<and> translate m' root 0x8000002000 = None"
proof -
  let ?ki = "\<lparr>k_pml4 = 0x1000, k_pdpt = 0x2000, k_pd = 0x3000\<rparr>"
  have ok: "alloc_ok demo_mem" using demo_tree by (rule treeD)
  obtain m' root where c: "create_process_page_table ?ki 0x300000 0x301000 demo_mem = (m', Some root)"
    using create_process_total[OF ok, of ?ki "0x300000" "0x301000"] by (auto simp: demo_mem_pmm(5))
  have k: "{k_pml4 ?ki..<k_pml4 ?ki + 4096} \<inter> free_mem (m_pmm demo_mem) = {}"
    using demo_space_pmm(3) by (fastforce simp: disjoint_iff)
  have d: "4096 dvd (0x300000 :: nat)" "(0x300000 :: nat) < 2 ^ 64" "4096 dvd (0x301000 :: nat)" "(0x301000 :: nat) < 2 ^ 64" by simp_all
  note I = create_process_space[OF ok c k d, THEN conjunct1, rule_format]
  have "translate m' root 0x8000001010 = Some 0x300010" "translate m' root 0x800000F008 = Some 0x301008" "translate m' root 0x8000002000 = None"
    by (subst I; simp add: va_path_def va_idx_def USER_CODE_VA_def USER_STACK_TOP_def)+
  with c show ?thesis by blast
qed

end
