(* ===== verification/Elf.thy ===== *)
theory Elf
  imports Paging
begin

text \<open>
  \<^verbatim>\<open>kernel/src/elf/mod.rs\<close>: the ELF64 loader.  Addresses and file offsets are \<open>nat\<close> below
  \<open>2 ^ 64\<close>; the signed load bias is kept modulo \<open>2 ^ 64\<close>, which is what the casts between
  \<^verbatim>\<open>isize\<close> and \<^verbatim>\<open>usize\<close> compute, and the checked additions are compared with the largest
  \<^verbatim>\<open>usize\<close>.  The lemmas show that a program header that passes the checks is read inside the
  file, that every copy into a page stays inside the file and inside the page, and where a
  position-independent image ends up.
\<close>

section \<open>Bytes of physical memory\<close>

definition rd8 :: "mem \<Rightarrow> nat \<Rightarrow> u8" where
  "rd8 m a = ucast (drop_bit (8 * (a mod 8)) (rd64 m (a - a mod 8)))"

definition wr8 :: "nat \<Rightarrow> u8 \<Rightarrow> mem \<Rightarrow> mem" where
  "wr8 a b m =
     (let base = a - a mod 8; k = 8 * (a mod 8)
      in wr64 base ((rd64 m base AND NOT (push_bit k 0xFF)) OR push_bit k (ucast b)) m)"

fun wr_bytes :: "nat \<Rightarrow> bytes \<Rightarrow> mem \<Rightarrow> mem" where
  "wr_bytes a [] m = m"
| "wr_bytes a (b # bs) m = wr_bytes (a + 1) bs (wr8 a b m)"

section \<open>Header fields\<close>

definition rd16le :: "bytes \<Rightarrow> nat \<Rightarrow> u16" where
  "rd16le d pos = from_le_bytes (slice pos (pos + 2) d)"

definition rd32le :: "bytes \<Rightarrow> nat \<Rightarrow> u32" where
  "rd32le d pos = from_le_bytes (slice pos (pos + 4) d)"

definition rd64le :: "bytes \<Rightarrow> nat \<Rightarrow> u64" where
  "rd64le d pos = from_le_bytes (slice pos (pos + 8) d)"

definition is_elf :: "bytes \<Rightarrow> bool" where
  "is_elf d \<longleftrightarrow> length d \<ge> 64 \<and> take 4 d = [0x7F, 0x45, 0x4C, 0x46] \<and> d ! 4 = 2 \<and> d ! 5 = 1"

definition PT_LOAD :: u32 where "PT_LOAD = 1"
definition PT_PHDR :: u32 where "PT_PHDR = 6"
definition ET_DYN :: u16 where "ET_DYN = 3"

definition pf_to_prot :: "u32 \<Rightarrow> u32" where
  "pf_to_prot pf =
     PROT_USER OR (if pf AND 4 \<noteq> 0 then PROT_READ else 0)
               OR (if pf AND 2 \<noteq> 0 then PROT_WRITE else 0)
               OR (if pf AND 1 \<noteq> 0 then PROT_EXEC else 0)"

definition page_floor :: "nat \<Rightarrow> nat" where
  "page_floor a = a div 4096 * 4096"

definition wrap_add :: "nat \<Rightarrow> nat \<Rightarrow> nat" where
  "wrap_add a b = (a + b) mod 2 ^ 64"

section \<open>Loading\<close>

text \<open>The lowest page of the loadable segments, and the address of the program headers.\<close>

definition elf_min_va :: "bytes \<Rightarrow> nat \<Rightarrow> nat \<Rightarrow> nat \<Rightarrow> nat" where
  "elf_min_va d phoff phentsize phnum =
     fold (\<lambda>i min_va.
       let ph = phoff + i * phentsize in
       if rd32le d ph = PT_LOAD
       then (let va = page_floor (unat (rd64le d (ph + 16))) in if va < min_va then va else min_va)
       else min_va) [0..<phnum] usize_max"

definition elf_bias :: "u16 \<Rightarrow> nat \<Rightarrow> nat" where
  "elf_bias etype min_va = (if etype = ET_DYN then (USER_BASE_VA + 2 ^ 64 - min_va) mod 2 ^ 64 else 0)"

definition elf_phdr_va :: "bytes \<Rightarrow> nat \<Rightarrow> nat \<Rightarrow> nat \<Rightarrow> nat \<Rightarrow> nat" where
  "elf_phdr_va d phoff phentsize phnum bias =
     (case scan (\<lambda>i. rd32le d (phoff + i * phentsize) = PT_PHDR) 0 phnum of
        Some i \<Rightarrow> wrap_add (unat (rd64le d (phoff + i * phentsize + 16))) bias
      | None \<Rightarrow> wrap_add phoff bias)"

text \<open>The part of the file that falls into the page at \<open>page_va\<close>: the offset in the page, the
  offset in the file and the length; \<open>None\<close> when nothing is copied.\<close>

definition page_copy :: "nat \<Rightarrow> nat \<Rightarrow> nat \<Rightarrow> nat \<Rightarrow> (nat \<times> nat \<times> nat) option" where
  "page_copy page_va seg_va p_filesz p_offset =
     (let lo = max page_va seg_va;
          hi = min (wrap_add page_va 4096) (wrap_add seg_va p_filesz)
      in if lo < hi then Some (lo - page_va, p_offset + (lo - seg_va), hi - lo) else None)"

fun load_pages :: "bytes \<Rightarrow> nat \<Rightarrow> nat \<Rightarrow> nat \<Rightarrow> nat \<Rightarrow> u32 \<Rightarrow> nat list \<Rightarrow> mem \<Rightarrow> mem \<times> bool" where
  "load_pages d pt seg_va p_filesz p_offset prot [] m = (m, True)"
| "load_pages d pt seg_va p_filesz p_offset prot (page_va # vas) m =
     (case alloc_pages 1 m of
        (m1, None) \<Rightarrow> (m1, False)
      | (m1, Some page_phys) \<Rightarrow>
          let m2 = zero_page page_phys m1;
              m3 = (case page_copy page_va seg_va p_filesz p_offset of
                      Some (dst, src, len) \<Rightarrow> wr_bytes (page_phys + dst) (slice src (src + len) d) m2
                    | None \<Rightarrow> m2)
          in case map_user_page pt page_va page_phys prot m3 of
               (m4, False) \<Rightarrow> (m4, False)
             | (m4, True) \<Rightarrow> load_pages d pt seg_va p_filesz p_offset prot vas m4)"

text \<open>One program header: \<open>Some\<close> is the new highest address, \<open>None\<close> an error.\<close>

definition load_segment :: "bytes \<Rightarrow> nat \<Rightarrow> nat \<Rightarrow> nat \<Rightarrow> nat \<Rightarrow> mem \<Rightarrow> mem \<times> nat option" where
  "load_segment d pt bias ph max_va m =
     (if rd32le d ph \<noteq> PT_LOAD then (m, Some max_va)
      else let p_vaddr = unat (rd64le d (ph + 16));
               p_filesz = unat (rd64le d (ph + 32));
               p_memsz = unat (rd64le d (ph + 40));
               p_offset = unat (rd64le d (ph + 8));
               p_flags = rd32le d (ph + 4)
           in if p_memsz = 0 then (m, Some max_va)
              else if min (p_offset + p_filesz) usize_max > length d then (m, None)
              else let seg_va = wrap_add p_vaddr bias;
                       page_start = page_floor seg_va
                   in if seg_va + p_memsz > usize_max \<or> seg_va + p_memsz + 0xFFF > usize_max then (m, None)
                      else let page_end = page_floor (seg_va + p_memsz + 0xFFF);
                               n_pages = (page_end - page_start) div 4096
                           in case load_pages d pt seg_va p_filesz p_offset (pf_to_prot p_flags)
                                     (map (\<lambda>pi. page_start + pi * 4096) [0..<n_pages]) m of
                                (m1, False) \<Rightarrow> (m1, None)
                              | (m1, True) \<Rightarrow> (m1, Some (max max_va page_end)))"

fun load_segments :: "bytes \<Rightarrow> nat \<Rightarrow> nat \<Rightarrow> nat list \<Rightarrow> nat \<Rightarrow> mem \<Rightarrow> mem \<times> nat option" where
  "load_segments d pt bias [] max_va m = (m, Some max_va)"
| "load_segments d pt bias (ph # phs) max_va m =
     (case load_segment d pt bias ph max_va m of
        (m1, None) \<Rightarrow> (m1, None)
      | (m1, Some max_va') \<Rightarrow> load_segments d pt bias phs max_va' m1)"

record elf_image =
  e_entry :: nat
  e_heap_start :: nat
  e_phdr_va :: nat
  e_phnum :: nat
  e_phentsize :: nat

definition elf_load :: "bytes \<Rightarrow> nat \<Rightarrow> mem \<Rightarrow> mem \<times> elf_image option" where
  "elf_load d pt m =
     (if \<not> is_elf d then (m, None)
      else let etype = rd16le d 16;
               entry = unat (rd64le d 24);
               phoff = unat (rd64le d 32);
               phentsize = unat (rd16le d 54);
               phnum = unat (rd16le d 56)
           in if phentsize < 56 \<or> phnum = 0 then (m, None)
              else if phoff + phnum * phentsize > usize_max then (m, None)
              else if phoff + phnum * phentsize > length d then (m, None)
              else let min_va = elf_min_va d phoff phentsize phnum
                   in if min_va = usize_max then (m, None)
                      else let bias = elf_bias etype min_va
                           in case load_segments d pt bias (map (\<lambda>i. phoff + i * phentsize) [0..<phnum]) 0 m of
                                (m1, None) \<Rightarrow> (m1, None)
                              | (m1, Some max_va) \<Rightarrow>
                                  (m1, Some \<lparr>e_entry = wrap_add entry bias, e_heap_start = max_va,
                                             e_phdr_va = elf_phdr_va d phoff phentsize phnum bias,
                                             e_phnum = phnum, e_phentsize = phentsize\<rparr>))"

section \<open>Every read is inside the file\<close>

lemma phdr_in_file:
  assumes "phoff + phnum * phentsize \<le> length d" "56 \<le> phentsize" "i < phnum"
  shows "phoff + i * phentsize + 56 \<le> length d"
proof -
  have "Suc i * phentsize \<le> phnum * phentsize" using assms(3) by (intro mult_le_mono1) simp
  then show ?thesis using assms(1,2) by simp
qed

lemma page_copy_in_bounds:
  assumes pc: "page_copy page_va seg_va p_filesz p_offset = Some (dst, src, len)"
    and fl: "min (p_offset + p_filesz) usize_max \<le> length d" "length d < usize_max"
    and va: "seg_va < 2 ^ 64" "p_filesz < 2 ^ 64" "page_va + 4096 \<le> 2 ^ 64 - 1"
  shows "src + len \<le> length d" "dst + len \<le> 4096" "0 < len"
proof -
  let ?lo = "max page_va seg_va" let ?hi = "min (wrap_add page_va 4096) (wrap_add seg_va p_filesz)"
  from pc have h: "?lo < ?hi" "dst = ?lo - page_va" "src = p_offset + (?lo - seg_va)" "len = ?hi - ?lo"
    by (auto simp: page_copy_def Let_def split: if_splits)
  have w1: "wrap_add page_va 4096 = page_va + 4096" using va(3) by (simp add: wrap_add_def)
  have nw: "seg_va + p_filesz < 2 ^ 64"
  proof (rule ccontr)
    assume "\<not> seg_va + p_filesz < 2 ^ 64"
    then have "wrap_add seg_va p_filesz = seg_va + p_filesz - 2 ^ 64"
      using va(1,2) by (simp add: wrap_add_def mod_if)
    then have "wrap_add seg_va p_filesz < seg_va" using va(1,2) \<open>\<not> seg_va + p_filesz < 2 ^ 64\<close> by linarith
    with h(1) show False by linarith
  qed
  then have w2: "wrap_add seg_va p_filesz = seg_va + p_filesz" by (simp add: wrap_add_def)
  have f: "p_offset + p_filesz \<le> length d" using fl by linarith
  show "src + len \<le> length d" using h f w2 by linarith
  show "dst + len \<le> 4096" using h w1 by linarith
  show "0 < len" using h by simp
qed

section \<open>Where the image goes\<close>

lemma elf_min_va_le:
  assumes "i < phnum" "rd32le d (phoff + i * phentsize) = PT_LOAD"
  shows "elf_min_va d phoff phentsize phnum \<le> page_floor (unat (rd64le d (phoff + i * phentsize + 16)))"
  using assms
proof (induction phnum)
  case (Suc n)
  then show ?case by (cases "i = n") (auto simp: elf_min_va_def Let_def)
qed simp

text \<open>A position-independent image: the lowest page goes to \<open>USER_BASE_VA\<close>, every segment above it.\<close>

lemma elf_bias_dyn:
  assumes "min_va \<le> va" "va - min_va + USER_BASE_VA < 2 ^ 64" "min_va < 2 ^ 64"
  shows "wrap_add va (elf_bias ET_DYN min_va) = USER_BASE_VA + (va - min_va)"
proof -
  have "wrap_add va (elf_bias ET_DYN min_va) = (va + (USER_BASE_VA + 2 ^ 64 - min_va)) mod 2 ^ 64"
    by (simp add: wrap_add_def elf_bias_def mod_add_right_eq)
  also have "va + (USER_BASE_VA + 2 ^ 64 - min_va) = (USER_BASE_VA + (va - min_va)) + 2 ^ 64"
    using assms(1,3) by linarith
  finally show ?thesis using assms(2) by simp
qed

section \<open>Properties\<close>

lemma page_floor_le: "page_floor a \<le> a"
  by (simp add: page_floor_def)

lemma segment_page_end:
  assumes "pi < (page_floor (e + 0xFFF) - page_floor s) div 4096" "e + 0xFFF \<le> usize_max"
  shows "page_floor s + pi * 4096 + 4096 \<le> 2 ^ 64 - 1"
proof -
  have "Suc pi * 4096 \<le> (page_floor (e + 0xFFF) - page_floor s) div 4096 * 4096" using assms(1) by (intro mult_le_mono1) simp
  also have "\<dots> \<le> page_floor (e + 0xFFF) - page_floor s" by (rule div_times_less_eq_dividend)
  finally show ?thesis using page_floor_le[of "e + 0xFFF"] assms(2) by (simp add: usize_max_def)
qed



text \<open>A position-independent image is loaded with its lowest loadable page at the base of user space:
  every loadable segment lands at that base plus its distance from the lowest page.\<close>

theorem pie_segment_address:
  assumes "i < phnum" "rd32le d (phoff + i * phentsize) = PT_LOAD" "va = unat (rd64le d (phoff + i * phentsize + 16))"
    "min_va = elf_min_va d phoff phentsize phnum" "va - min_va + USER_BASE_VA < 2 ^ 64"
  shows "wrap_add va (elf_bias ET_DYN min_va) = USER_BASE_VA + (va - min_va) \<and> min_va \<le> va"
proof -
  have le: "min_va \<le> va" using elf_min_va_le[OF assms(1,2)] page_floor_le[of va] assms(3,4) by simp
  have "va < 2 ^ 64" using unsigned_less[of "rd64le d (phoff + i * phentsize + 16)"] assms(3) by simp
  then show ?thesis using elf_bias_dyn[OF le assms(5)] le by simp
qed

theorem pie_segment_address_witness:
  "let d = le_bytes 4 PT_LOAD @ replicate 12 0 @ le_bytes 8 (0x1234 :: u64) @ replicate 32 0 in
     wrap_add 0x1234 (elf_bias ET_DYN (elf_min_va d 0 56 1)) = USER_BASE_VA + 0x234"
proof -
  let ?d = "le_bytes 4 PT_LOAD @ replicate 12 0 @ le_bytes 8 (0x1234 :: u64) @ replicate 32 0"
  have a: "rd32le ?d 0 = PT_LOAD" by (simp add: rd32le_def)
  have b: "rd64le ?d 16 = 0x1234"
    by (simp add: rd64le_def slice_def)
  have m: "elf_min_va ?d 0 56 1 = 0x1000" by (simp add: elf_min_va_def a b page_floor_def usize_max_def)
  show ?thesis unfolding Let_def m
    using pie_segment_address[of 0 1 ?d 0 56 "0x1234" "0x1000"] a b m by (simp add: USER_BASE_VA_def)
qed

end
