(* ===== verification/KernelState.thy ===== *)
theory KernelState
  imports Process Fs Elf
begin

text \<open>
  The global state of the kernel on x86_64 and the code that builds stacks in it:
  the statics of \<^verbatim>\<open>kernel/src/scheduler/mod.rs\<close> and \<^verbatim>\<open>kernel/src/syscall/mod.rs\<close>, the
  registers that a context switch touches, user memory seen through the active page table, the
  initial kernel stacks of \<^verbatim>\<open>kernel/src/arch/x86_64/context.rs\<close> and the System V stack of a
  new process (\<^verbatim>\<open>setup_abi_stack\<close>).

  A suspended task has a \<^verbatim>\<open>schedule\<close> frame on its kernel stack; the only local of that frame
  that is used after the switch is \<^verbatim>\<open>next\<close>, kept in \<open>saved_next\<close> (\<open>None\<close> for a task that has
  never run, which starts in a trampoline instead).  Interrupt masking is not modelled: each
  operation is one atomic step.
\<close>

section \<open>State\<close>

definition MAX_TASKS :: nat where "MAX_TASKS = 64"
definition STACK_PAGES :: nat where "STACK_PAGES = 8"
definition STACK_SIZE :: nat where "STACK_SIZE = STACK_PAGES * 4096"
definition GUARD_SIZE :: nat where "GUARD_SIZE = 4096"
definition USER_STACK_PAGES :: nat where "USER_STACK_PAGES = 8"
definition USER_STACK_SIZE :: nat where "USER_STACK_SIZE = USER_STACK_PAGES * 4096"
definition MAX_EXEC_VEC :: nat where "MAX_EXEC_VEC = 64"
definition MAX_ARG_LEN :: nat where "MAX_ARG_LEN = 4096"
definition GUARD_CANARY :: u64 where "GUARD_CANARY = 0xDEADC0DEDEADC0DE"

record hw =
  h_rsp :: u64
  h_cr3 :: u64
  h_rsp0 :: u64
  h_fs_base :: u64

record kernel =
  tasks :: "task option list"
  guard_phys :: "nat list"
  current :: nat
  tick_count :: u64
  tty_waiter :: "nat option"
  pipe_waiters :: "nat option list"
  k_pool :: pool
  k_fs :: ramfs
  k_mem :: mem
  next_pid :: u64
  k_hw :: hw
  saved_next :: "nat \<Rightarrow> nat option"
  serial_rx :: ring_buf
  kbd_rx :: ring_buf
  console :: bytes
  sys_user_ip :: u64
  sys_user_sp :: u64
  sys_user_regs :: "u64 list"
  exec_ctx :: "(u64 \<times> u64 \<times> u64) option"
  k_image :: kimage
  user_tramp :: u64
  fork_tramp :: u64

abbreviation cur_task :: "kernel \<Rightarrow> task option" where
  "cur_task k \<equiv> tasks k ! current k"

definition upd_task :: "nat \<Rightarrow> (task \<Rightarrow> task) \<Rightarrow> kernel \<Rightarrow> kernel" where
  "upd_task slot f k = k\<lparr>tasks := upd_nth slot (map_option f) (tasks k)\<rparr>"

definition set_slot :: "nat \<Rightarrow> task option \<Rightarrow> kernel \<Rightarrow> kernel" where
  "set_slot slot t k = k\<lparr>tasks := (tasks k)[slot := t]\<rparr>"

section \<open>User memory\<close>

text \<open>The kernel dereferences user pointers through CR3.  A page that is not mapped faults in
  kernel mode, which stops the machine (\<^verbatim>\<open>pagefault_handler_x86\<close>); the model reads 0 there and
  drops writes, and \<open>user_mapped\<close> says that this does not happen.\<close>

definition user_phys :: "kernel \<Rightarrow> nat \<Rightarrow> nat option" where
  "user_phys k va = translate (k_mem k) (unat (h_cr3 (k_hw k))) va"

definition user_mapped :: "kernel \<Rightarrow> nat \<Rightarrow> nat \<Rightarrow> bool" where
  "user_mapped k va len \<longleftrightarrow> (\<forall>i < len. user_phys k (va + i) \<noteq> None)"

definition user_rd8 :: "kernel \<Rightarrow> nat \<Rightarrow> u8" where
  "user_rd8 k va = (case user_phys k va of None \<Rightarrow> 0 | Some pa \<Rightarrow> rd8 (k_mem k) pa)"

definition user_read :: "kernel \<Rightarrow> nat \<Rightarrow> nat \<Rightarrow> bytes" where
  "user_read k va len = map (\<lambda>i. user_rd8 k (va + i)) [0..<len]"

definition user_wr8 :: "nat \<Rightarrow> u8 \<Rightarrow> kernel \<Rightarrow> kernel" where
  "user_wr8 va b k =
     (case user_phys k va of None \<Rightarrow> k | Some pa \<Rightarrow> k\<lparr>k_mem := wr8 pa b (k_mem k)\<rparr>)"

fun user_write :: "nat \<Rightarrow> bytes \<Rightarrow> kernel \<Rightarrow> kernel" where
  "user_write va [] k = k"
| "user_write va (b # bs) k = user_write (va + 1) bs (user_wr8 va b k)"

definition user_rd64 :: "kernel \<Rightarrow> nat \<Rightarrow> u64" where
  "user_rd64 k va = from_le_bytes (user_read k va 8)"

section \<open>Initial kernel stacks\<close>

text \<open>\<^verbatim>\<open>sp.add(i).write(w)\<close> for the words of a frame.\<close>

fun wr_words :: "nat \<Rightarrow> u64 list \<Rightarrow> mem \<Rightarrow> mem" where
  "wr_words a [] m = m"
| "wr_words a (w # ws) m = wr_words (a + 8) ws (wr64 a w m)"

definition USER_CODE_SEL :: u64 where "USER_CODE_SEL = 0x23"
definition USER_DATA_SEL :: u64 where "USER_DATA_SEL = 0x1B"

definition stack_end :: "nat \<Rightarrow> nat" where
  "stack_end stack = (stack + STACK_SIZE) div 16 * 16"

definition task_init_stack :: "nat \<Rightarrow> u64 \<Rightarrow> mem \<Rightarrow> mem \<times> u64" where
  "task_init_stack stack entry m =
     (let sp = stack_end stack - 8 * 8
      in (wr_words sp (replicate 6 0 @ [entry, 0]) m, word_of_nat sp))"

definition task_init_userspace_stack :: "u64 \<Rightarrow> nat \<Rightarrow> u64 \<Rightarrow> u64 \<Rightarrow> mem \<Rightarrow> mem \<times> u64" where
  "task_init_userspace_stack tramp stack user_rip user_rsp m =
     (let sp = stack_end stack - 12 * 8
      in (wr_words sp (replicate 6 0 @ [tramp, user_rip, USER_CODE_SEL, 0x202, user_rsp, USER_DATA_SEL]) m,
          word_of_nat sp))"

definition task_init_fork_stack ::
    "u64 \<Rightarrow> nat \<Rightarrow> u64 \<Rightarrow> u64 \<Rightarrow> u64 list \<Rightarrow> u64 list \<Rightarrow> mem \<Rightarrow> mem \<times> u64" where
  "task_init_fork_stack tramp stack user_rip user_rsp args callee_saved m =
     (let sp = stack_end stack - 24 * 8
      in (wr_words sp (replicate 6 0 @ [tramp] @ args @ callee_saved
            @ [user_rip, USER_CODE_SEL, 0x202, user_rsp, USER_DATA_SEL]) m,
          word_of_nat sp))"

section \<open>Argument vectors\<close>

text \<open>\<^verbatim>\<open>user_cstr\<close>: the bytes before the first NUL, \<open>None\<close> for a null pointer or no NUL within
  \<open>max_len\<close>.\<close>

definition user_cstr :: "kernel \<Rightarrow> nat \<Rightarrow> nat \<Rightarrow> bytes option" where
  "user_cstr k ptr max_len =
     (if ptr = 0 then None
      else case scan (\<lambda>len. user_rd8 k (ptr + len) = 0) 0 max_len of
        None \<Rightarrow> None
      | Some len \<Rightarrow> Some (user_read k ptr len))"

fun user_cstrs :: "kernel \<Rightarrow> nat \<Rightarrow> nat \<Rightarrow> bytes list" where
  "user_cstrs k ptr 0 = []"
| "user_cstrs k ptr (Suc n) =
     (let entry = unat (user_rd64 k ptr) in
      if entry = 0 then []
      else case user_cstr k entry MAX_ARG_LEN of
        None \<Rightarrow> []
      | Some s \<Rightarrow> s # user_cstrs k (ptr + 8) n)"

definition user_cstr_array :: "kernel \<Rightarrow> nat \<Rightarrow> nat \<Rightarrow> bytes list" where
  "user_cstr_array k ptr max_count = (if ptr = 0 then [] else user_cstrs k ptr max_count)"

section \<open>The initial user stack\<close>

text \<open>One of the two string loops: the strings go downward from \<open>off\<close>, 8-byte aligned; the
  result is the final offset and the virtual addresses.\<close>

fun place_strings :: "nat \<Rightarrow> nat \<Rightarrow> bytes list \<Rightarrow> nat \<Rightarrow> mem \<Rightarrow> mem \<times> (nat \<times> u64 list) option" where
  "place_strings phys va [] off m = (m, Some (off, []))"
| "place_strings phys va (s # ss) off m =
     (if length s + 1 > off then (m, None)
      else let off1 = (off - (length s + 1)) div 8 * 8 in
        case place_strings phys va ss off1 (wr_bytes (phys + off1) (s @ [0]) m) of
          (m1, None) \<Rightarrow> (m1, None)
        | (m1, Some (off2, vas)) \<Rightarrow> (m1, Some (off2, word_of_nat (va + off1) # vas)))"

definition auxv :: "nat \<Rightarrow> nat \<Rightarrow> nat \<Rightarrow> nat \<Rightarrow> u64 list" where
  "auxv phdr_va phentsize phnum rand_va =
     [3, word_of_nat phdr_va, 4, word_of_nat phentsize, 5, word_of_nat phnum, 6, 4096,
      11, 0, 12, 0, 13, 0, 14, 0, 23, 0, 25, word_of_nat rand_va, 0, 0]"

definition setup_abi_stack ::
    "u64 \<Rightarrow> nat \<Rightarrow> nat \<Rightarrow> nat \<Rightarrow> bytes \<Rightarrow> bytes list \<Rightarrow> bytes list \<Rightarrow> nat \<Rightarrow> nat \<Rightarrow> nat \<Rightarrow> mem \<Rightarrow> mem \<times> nat option" where
  "setup_abi_stack seed region_phys region_size stack_top_va argv0 argv0s envp phdr_va phnum phentsize m =
     (let region_va = stack_top_va - region_size;
          argv = (if argv0s = [] then [argv0] else argv0s);
          rand_off = region_size - 16;
          rand_va = region_va + rand_off;
          m1 = wr64 (region_phys + rand_off + 8) (seed XOR 0xDEADBEEFCAFE1234) (wr64 (region_phys + rand_off) seed m)
      in case place_strings region_phys region_va (take MAX_EXEC_VEC argv) rand_off m1 of
           (m2, None) \<Rightarrow> (m2, None)
         | (m2, Some (off1, argv_va)) \<Rightarrow>
             (case place_strings region_phys region_va (take MAX_EXEC_VEC envp) off1 m2 of
                (m3, None) \<Rightarrow> (m3, None)
              | (m3, Some (off2, envp_va)) \<Rightarrow>
                  let argc = min (length argv) MAX_EXEC_VEC;
                      envc = min (length envp) MAX_EXEC_VEC;
                      table_size = 8 + (argc + 1) * 8 + (envc + 1) * 8 + 176
                  in if table_size > off2 then (m3, None)
                     else let rsp_off = (off2 - table_size) div 16 * 16;
                              words = [word_of_nat argc] @ argv_va @ [0] @ envp_va @ [0]
                                      @ auxv phdr_va phentsize phnum rand_va
                          in (wr_words (region_phys + rsp_off) words m3, Some (region_va + rsp_off))))"

text \<open>\<^verbatim>\<open>map_user_init_stack\<close>: the region is allocated, zeroed and mapped page by page.\<close>

fun map_pages :: "nat \<Rightarrow> (nat \<times> nat) list \<Rightarrow> u32 \<Rightarrow> mem \<Rightarrow> mem \<times> bool" where
  "map_pages pt [] prot m = (m, True)"
| "map_pages pt ((va, pa) # ps) prot m =
     (case map_user_page pt va pa prot m of
        (m1, False) \<Rightarrow> (m1, False)
      | (m1, True) \<Rightarrow> map_pages pt ps prot m1)"

definition map_user_init_stack :: "nat \<Rightarrow> nat \<Rightarrow> mem \<Rightarrow> mem \<times> nat option" where
  "map_user_init_stack pt tos m =
     (case alloc_pages USER_STACK_PAGES m of
        (m1, None) \<Rightarrow> (m1, None)
      | (m1, Some phys) \<Rightarrow>
          let m2 = fold (\<lambda>i. zero_page (phys + i * 4096)) [0..<USER_STACK_PAGES] m1;
              region_va = tos - USER_STACK_SIZE
          in case map_pages pt (map (\<lambda>i. (region_va + i * 4096, phys + i * 4096)) [0..<USER_STACK_PAGES])
                    (PROT_READ OR PROT_WRITE OR PROT_USER) m2 of
               (m3, False) \<Rightarrow> (m3, None)
             | (m3, True) \<Rightarrow> (m3, Some phys))"

section \<open>The stack of a new process fits its region\<close>

lemma place_strings_bounds:
  "place_strings phys va ss off m = (m', Some (off', vas)) \<Longrightarrow> off' \<le> off \<and> length vas = length ss"
proof (induction ss arbitrary: off m m' off' vas)
  case (Cons s ss)
  have "(off - (length s + 1)) div 8 * 8 \<le> off"
    using div_times_less_eq_dividend[of "off - (length s + 1)" 8] by linarith
  with Cons show ?case by (fastforce simp: Let_def split: if_splits prod.splits option.splits)
qed simp

lemma wr_words_other: "b < a \<Longrightarrow> rd64 (wr_words a ws m) b = rd64 m b"
  by (induction ws arbitrary: a m) auto

lemma wr_words_nth: "i < length ws \<Longrightarrow> rd64 (wr_words a ws m) (a + 8 * i) = ws ! i"
proof (induction ws arbitrary: a i m)
  case (Cons w ws)
  show ?case
  proof (cases i)
    case 0
    then show ?thesis by (simp add: wr_words_other)
  next
    case (Suc j)
    then show ?thesis using Cons.IH[of j "a + 8"] Cons.prems by (simp add: algebra_simps)
  qed
qed simp

lemma if_SomeD:
  assumes "(if b then (x, None) else (y, Some z)) = (m, Some r)"
  shows "\<not> b" "m = y" "r = z"
  using assms by (auto split: if_splits)

lemma setup_abi_stack_cases:
  assumes "setup_abi_stack seed rp rs tva argv0 argv envp phdr phnum phent m = (m', Some rsp)"
  obtains off1 off2 va1 va2 m1 m2 m3 argc envc ts n where
    "argc = min (length (if argv = [] then [argv0] else argv)) MAX_EXEC_VEC" "envc = min (length envp) MAX_EXEC_VEC"
    "place_strings rp (tva - rs) (take MAX_EXEC_VEC (if argv = [] then [argv0] else argv)) (rs - 16) m1 = (m2, Some (off1, va1))"
    "place_strings rp (tva - rs) (take MAX_EXEC_VEC envp) off1 m2 = (m3, Some (off2, va2))"
    "ts = 8 + (argc + 1) * 8 + (envc + 1) * 8 + 176" "ts \<le> off2" "n = (off2 - ts) div 16 * 16" "rsp = tva - rs + n"
    "m' = wr_words (rp + n) ([word_of_nat argc] @ va1 @ [0] @ va2 @ [0] @ auxv phdr phent phnum (tva - rs + (rs - 16))) m3"
proof -
  let ?argv = "if argv = [] then [argv0] else argv"
  let ?m1 = "wr64 (rp + (rs - 16) + 8) (seed XOR 0xDEADBEEFCAFE1234) (wr64 (rp + (rs - 16)) seed m)"
  obtain m2 r1 where p1: "place_strings rp (tva - rs) (take MAX_EXEC_VEC ?argv) (rs - 16) ?m1 = (m2, r1)" by fastforce
  note e = assms[unfolded setup_abi_stack_def Let_def p1 prod.case]
  then obtain off1 va1 where r1: "r1 = Some (off1, va1)" by (cases r1) auto
  obtain m3 r2 where p2: "place_strings rp (tva - rs) (take MAX_EXEC_VEC envp) off1 m2 = (m3, r2)" by fastforce
  note e2 = e[unfolded r1 option.case prod.case p2]
  then obtain off2 va2 where r2: "r2 = Some (off2, va2)" by (cases r2) auto
  note f = if_SomeD[OF e2[unfolded r2 option.case prod.case]]
  show ?thesis
    by (rule that[OF refl refl p1[unfolded r1] p2[unfolded r2] refl f(1)[unfolded not_less] refl f(3,2)])
qed

lemma setup_abi_stack_Some:
  assumes "setup_abi_stack seed rp rs tva argv0 argv envp phdr phnum phent m = (m', Some rsp)"
    "rs \<le> tva" "16 \<le> rs" "16 dvd tva" "16 dvd rs"
    "argc = min (length (if argv = [] then [argv0] else argv)) MAX_EXEC_VEC" "envc = min (length envp) MAX_EXEC_VEC"
  shows "16 dvd rsp" "tva - rs \<le> rsp" "rsp + (8 + (argc + 1) * 8 + (envc + 1) * 8 + 176) \<le> tva - 16"
    "rd64 m' (rp + (rsp - (tva - rs))) = word_of_nat argc"
    "rd64 m' (rp + (rsp - (tva - rs)) + 8 * (1 + argc)) = 0"
proof -
  obtain off1 off2 va1 va2 m1 m2 m3 argc' envc' ts n where a: "argc' = min (length (if argv = [] then [argv0] else argv)) MAX_EXEC_VEC" "envc' = min (length envp) MAX_EXEC_VEC"
    and p1: "place_strings rp (tva - rs) (take MAX_EXEC_VEC (if argv = [] then [argv0] else argv)) (rs - 16) m1 = (m2, Some (off1, va1))"
    and p2: "place_strings rp (tva - rs) (take MAX_EXEC_VEC envp) off1 m2 = (m3, Some (off2, va2))"
    and ts: "ts = 8 + (argc' + 1) * 8 + (envc' + 1) * 8 + 176" "ts \<le> off2"
    and n: "n = (off2 - ts) div 16 * 16" and rsp: "rsp = tva - rs + n"
    and m': "m' = wr_words (rp + n) ([word_of_nat argc'] @ va1 @ [0] @ va2 @ [0] @ auxv phdr phent phnum (tva - rs + (rs - 16))) m3"
    by (rule setup_abi_stack_cases[OF assms(1)])
  have c: "argc' = argc" "envc' = envc" unfolding a assms(6,7) by (rule refl)+
  have o: "off2 \<le> rs - 16" using place_strings_bounds[OF p1] place_strings_bounds[OF p2] by simp
  have "n \<le> off2 - ts" unfolding n by (rule div_times_less_eq_dividend)
  then have "rsp + ts \<le> tva - 16" using o rsp ts(2) assms(2,3) by linarith
  then show "rsp + (8 + (argc + 1) * 8 + (envc + 1) * 8 + 176) \<le> tva - 16" using ts(1) c by simp
  show "tva - rs \<le> rsp" using rsp by simp
  show "16 dvd rsp" using assms(2,4,5) rsp n by (simp add: dvd_diff_nat)
  let ?ws = "[word_of_nat argc] @ va1 @ [0] @ va2 @ [0] @ auxv phdr phent phnum (tva - rs + (rs - 16))"
  have len: "length va1 = argc" using place_strings_bounds[OF p1] assms(6) by (simp add: min.commute)
  have "?ws ! (1 + argc) = 0" using len by (simp add: nth_append)
  then show "rd64 m' (rp + (rsp - (tva - rs)) + 8 * (1 + argc)) = 0"
    using wr_words_nth[of "1 + argc" ?ws "rp + n" m3] len by (simp add: m' rsp c)
  show "rd64 m' (rp + (rsp - (tva - rs))) = word_of_nat argc"
    using wr_words_nth[of 0 ?ws "rp + n" m3] by (simp add: m' rsp c)
qed

section \<open>Properties\<close>



end
