(* ===== verification/Scheduler.thy ===== *)
theory Scheduler
  imports KernelState
begin

text \<open>
  \<^verbatim>\<open>kernel/src/scheduler/mod.rs\<close>: the round-robin scheduler, task creation, exit and
  reaping, blocking and waking, signals, and the descriptor operations of the current task.
  \<open>schedule\<close> and everything that calls it return an option: \<open>None\<close> is a panic (a broken stack
  canary or the \<^verbatim>\<open>unwrap\<close> of an empty slot).  \<^verbatim>\<open>waitpid\<close> and the sleeping loop are given as
  one pass of their loop, because other tasks run between two passes.
\<close>

section \<open>Choosing the next task\<close>

definition slot_ready :: "kernel \<Rightarrow> nat \<Rightarrow> bool" where
  "slot_ready k slot \<longleftrightarrow> (case tasks k ! slot of Some t \<Rightarrow> t_state t = Ready | None \<Rightarrow> False)"

definition probe :: "nat \<Rightarrow> nat \<Rightarrow> nat" where
  "probe cur i =
     (let search_start = (if cur = 0 then 1 else cur mod (MAX_TASKS - 1) + 1)
      in (search_start - 1 + i) mod (MAX_TASKS - 1) + 1)"

definition pick_next :: "kernel \<Rightarrow> nat" where
  "pick_next k =
     (case scan (\<lambda>i. slot_ready k (probe (current k) i)) 0 (MAX_TASKS - 1) of
        Some i \<Rightarrow> probe (current k) i
      | None \<Rightarrow> 0)"

definition canary_ok :: "kernel \<Rightarrow> nat \<Rightarrow> bool" where
  "canary_ok k slot \<longleftrightarrow>
     slot = 0 \<or> guard_phys k ! slot = 0 \<or> rd64 (k_mem k) (guard_phys k ! slot + GUARD_SIZE) = GUARD_CANARY"

section \<open>The context switch\<close>

text \<open>The half of \<^verbatim>\<open>schedule\<close> up to and including \<^verbatim>\<open>context_switch\<close>: registers of the incoming
  task are loaded, the outgoing task keeps its stack pointer, its FS base and its frame.\<close>

definition switch_out :: "nat \<Rightarrow> task \<Rightarrow> kernel \<Rightarrow> kernel" where
  "switch_out next nt k =
     (let prev = current k; h = k_hw k;
          pt = (if page_table_phys nt \<noteq> 0 then page_table_phys nt else word_of_nat (k_pml4 (k_image k)))
      in (upd_task prev (\<lambda>t. t\<lparr>t_fs_base := h_fs_base h, kernel_sp := h_rsp h\<rparr>) k)
           \<lparr>current := next,
            saved_next := (saved_next k)(prev := Some next),
            k_hw := h\<lparr>h_rsp0 := (if is_user nt then stack_top nt else 0), h_cr3 := pt, h_rsp := kernel_sp nt\<rparr>\<rparr>)"

text \<open>The rest runs in the frame of the task that was switched to: it restores the FS base of the
  task in \<^emph>\<open>its\<close> local \<^verbatim>\<open>next\<close>.  A task that never ran has no such frame.\<close>

definition resume :: "nat \<Rightarrow> kernel \<Rightarrow> kernel option" where
  "resume slot k =
     (case saved_next k slot of
        None \<Rightarrow> Some k
      | Some n \<Rightarrow>
          (case tasks k ! n of
             None \<Rightarrow> None
           | Some t \<Rightarrow> Some (k\<lparr>k_hw := (k_hw k)\<lparr>h_fs_base := t_fs_base t\<rparr>\<rparr>)))"

definition schedule :: "kernel \<Rightarrow> kernel option" where
  "schedule k =
     (if \<not> canary_ok k (current k) then None
      else let next = pick_next k in
        if next = current k then Some k
        else case (tasks k ! next, tasks k ! current k) of
          (Some nt, Some _) \<Rightarrow> resume next (switch_out next nt k)
        | _ \<Rightarrow> None)"

section \<open>Exit, signals and waking\<close>

definition wake_child_waiters :: "u64 \<Rightarrow> u64 \<Rightarrow> kernel \<Rightarrow> kernel" where
  "wake_child_waiters exiting_pid parent_pid k =
     k\<lparr>tasks := map (map_option (\<lambda>t.
         if t_state t = Blocked
            \<and> (waiting_for_pid t = exiting_pid \<or> waiting_for_pid t = - 1 \<and> pid t = parent_pid)
         then t\<lparr>waiting_for_pid := 0, t_state := Ready\<rparr> else t)) (tasks k)\<rparr>"

definition slot_of_pid :: "kernel \<Rightarrow> (task \<Rightarrow> bool) \<Rightarrow> nat option" where
  "slot_of_pid k P = scan (\<lambda>s. case tasks k ! s of Some t \<Rightarrow> P t | None \<Rightarrow> False) 0 MAX_TASKS"

definition signal_parent :: "u64 \<Rightarrow> u8 \<Rightarrow> kernel \<Rightarrow> kernel" where
  "signal_parent parent_pid sig k =
     (case slot_of_pid k (\<lambda>t. pid t = parent_pid) of
        None \<Rightarrow> k
      | Some s \<Rightarrow> upd_task s (\<lambda>t. fst (raise_signal sig t)) k)"

definition wake_task :: "task \<Rightarrow> task" where
  "wake_task t = (if t_state t = Blocked then t\<lparr>t_state := Ready\<rparr> else t)"

definition wake_pipe_waiter :: "nat \<Rightarrow> kernel \<Rightarrow> kernel" where
  "wake_pipe_waiter i k =
     (case pipe_waiters k ! i of
        None \<Rightarrow> k
      | Some slot \<Rightarrow> upd_task slot wake_task (k\<lparr>pipe_waiters := (pipe_waiters k)[i := None]\<rparr>))"

definition wake_closed_pipe_readers :: "kernel \<Rightarrow> kernel" where
  "wake_closed_pipe_readers k =
     fold (\<lambda>i k. if \<not> pipe_write_open i (k_pool k) then wake_pipe_waiter i k else k) [0..<MAX_PIPES] k"

definition wake_tty_waiter :: "kernel \<Rightarrow> kernel" where
  "wake_tty_waiter k =
     (case tty_waiter k of
        None \<Rightarrow> k
      | Some slot \<Rightarrow> upd_task slot wake_task (k\<lparr>tty_waiter := None\<rparr>))"

definition exit_task :: "nat \<Rightarrow> u32 \<Rightarrow> kernel \<Rightarrow> kernel" where
  "exit_task slot code k =
     (case tasks k ! slot of
        None \<Rightarrow> k
      | Some t \<Rightarrow>
          (case task_exit code t (k_pool k) of
             (t1, pool1) \<Rightarrow> (set_slot slot (Some t1) k)\<lparr>k_pool := pool1\<rparr>))"

definition exit_current :: "u32 \<Rightarrow> kernel \<Rightarrow> kernel option" where
  "exit_current code k =
     (case cur_task k of
        None \<Rightarrow> schedule k
      | Some t \<Rightarrow>
          schedule (wake_closed_pipe_readers
            (signal_parent (ppid t) SIGCHLD
              (wake_child_waiters (pid t) (ppid t) (exit_task (current k) code k)))))"

text \<open>\<^verbatim>\<open>deliver_all_signals\<close>: the short-circuit disjunction takes signals up to the first
  lethal one.\<close>

fun take_first :: "u8 list \<Rightarrow> task \<Rightarrow> task \<times> bool" where
  "take_first [] t = (t, False)"
| "take_first (s # ss) t =
     (case take_signal s t of (t1, True) \<Rightarrow> (t1, True) | (t1, False) \<Rightarrow> take_first ss t1)"

definition deliver_slot :: "nat \<Rightarrow> kernel \<Rightarrow> kernel" where
  "deliver_slot slot k =
     (case tasks k ! slot of
        None \<Rightarrow> k
      | Some t \<Rightarrow>
          if t_state t = Zombie \<or> pending_signals t = 0 then k
          else case take_first [SIGKILL, SIGABRT, SIGQUIT, SIGTERM, SIGINT] t of
            (t1, True) \<Rightarrow>
              wake_child_waiters (pid t1) (ppid t1) (exit_task slot 1 (set_slot slot (Some t1) k))
          | (t1, False) \<Rightarrow>
              (case take_signal SIGCHLD t1 of
                 (t2, taken) \<Rightarrow>
                   set_slot slot (Some (if taken \<and> waiting_for_pid t2 \<noteq> 0
                                        then t2\<lparr>t_state := Ready, waiting_for_pid := 0\<rparr> else t2)) k))"

definition deliver_all_signals :: "kernel \<Rightarrow> kernel" where
  "deliver_all_signals k = fold deliver_slot [1..<MAX_TASKS] k"

definition tick :: "kernel \<Rightarrow> kernel option" where
  "tick k =
     (let k1 = k\<lparr>tick_count := tick_count k + 1\<rparr>;
          k2 = (if tick_count k1 mod 5 = 0 then deliver_all_signals k1 else k1)
      in if tick_count k1 mod 10 = 0 then schedule k2 else Some k2)"

definition scheduler_init :: "kernel \<Rightarrow> kernel" where
  "scheduler_init k = set_slot 0 (Some task_idle) k"

section \<open>Task creation\<close>

definition vacant :: "kernel \<Rightarrow> nat \<Rightarrow> bool" where
  "vacant k slot \<longleftrightarrow> (case tasks k ! slot of None \<Rightarrow> True | Some t \<Rightarrow> t_state t = Zombie)"

definition current_pid :: "kernel \<Rightarrow> u64" where
  "current_pid k = (case cur_task k of Some t \<Rightarrow> pid t | None \<Rightarrow> 0)"

definition current_ppid :: "kernel \<Rightarrow> u64" where
  "current_ppid k = (case cur_task k of Some t \<Rightarrow> ppid t | None \<Rightarrow> 0)"

definition current_cwd :: "kernel \<Rightarrow> nat" where
  "current_cwd k = (case cur_task k of Some t \<Rightarrow> t_cwd t | None \<Rightarrow> 0)"

definition current_heap_brk :: "kernel \<Rightarrow> u64" where
  "current_heap_brk k = (case cur_task k of Some t \<Rightarrow> heap_brk t | None \<Rightarrow> 0)"

definition current_page_table_phys :: "kernel \<Rightarrow> u64" where
  "current_page_table_phys k = (case cur_task k of Some t \<Rightarrow> page_table_phys t | None \<Rightarrow> 0)"

text \<open>\<^verbatim>\<open>TASKS[i] = Some(task)\<close> for a task that has never run.\<close>

definition install :: "nat \<Rightarrow> task \<Rightarrow> kernel \<Rightarrow> kernel" where
  "install slot t k = (set_slot slot (Some t) k)\<lparr>saved_next := (saved_next k)(slot := None)\<rparr>"

definition first_vacant :: "kernel \<Rightarrow> nat option" where
  "first_vacant k = scan (vacant k) 1 MAX_TASKS"

definition spawn :: "task \<Rightarrow> kernel \<Rightarrow> kernel \<times> nat option" where
  "spawn t k =
     (case first_vacant k of None \<Rightarrow> (k, None) | Some i \<Rightarrow> (install i t k, Some i))"

definition spawn_fn :: "u64 \<Rightarrow> kernel \<Rightarrow> kernel \<times> nat option" where
  "spawn_fn entry k =
     (case first_vacant k of
        None \<Rightarrow> (k, None)
      | Some i \<Rightarrow>
          (case alloc_pages (1 + STACK_PAGES) (k_mem k) of
             (m1, None) \<Rightarrow> (k\<lparr>k_mem := m1\<rparr>, None)
           | (m1, Some frames) \<Rightarrow>
               let stack_phys = frames + GUARD_SIZE;
                   m2 = wr64 stack_phys GUARD_CANARY (fst (protect_guard_page (k_image k) frames m1))
               in case task_init_stack stack_phys entry m2 of
                    (m3, ksp) \<Rightarrow>
                      (case task_new_kernel ksp (word_of_nat (stack_phys + STACK_SIZE)) (current_pid k) (next_pid k) of
                         (t, np) \<Rightarrow>
                           (install i t (k\<lparr>k_mem := m3, next_pid := np, guard_phys := (guard_phys k)[i := frames]\<rparr>),
                            Some i))))"

text \<open>The kernel stack that the user-mode spawns allocate first: the guard page and the canary.\<close>

definition alloc_kstack :: "kernel \<Rightarrow> mem \<times> nat option" where
  "alloc_kstack k =
     (case alloc_pages (1 + STACK_PAGES) (k_mem k) of
        (m1, None) \<Rightarrow> (m1, None)
      | (m1, Some kframes) \<Rightarrow>
          (wr64 (kframes + GUARD_SIZE) GUARD_CANARY (fst (protect_guard_page (k_image k) kframes m1)), Some kframes))"

text \<open>The loop at the end of the user-mode spawns.\<close>

definition add_user_task :: "nat \<Rightarrow> (u64 \<Rightarrow> task \<times> u64) \<Rightarrow> (task \<Rightarrow> task) \<Rightarrow> kernel \<Rightarrow> kernel \<times> nat option" where
  "add_user_task guard mk f k =
     (case first_vacant k of
        None \<Rightarrow> (k, None)
      | Some i \<Rightarrow>
          (case mk (next_pid k) of
             (t, np) \<Rightarrow> (install i (f t) (k\<lparr>next_pid := np, guard_phys := (guard_phys k)[i := guard]\<rparr>), Some i)))"

definition spawn_user :: "bytes \<Rightarrow> kernel \<Rightarrow> kernel \<times> nat option" where
  "spawn_user prog k =
     (if length prog > 4096 then (k, None)
      else case alloc_kstack k of
        (m1, None) \<Rightarrow> (k\<lparr>k_mem := m1\<rparr>, None)
      | (m1, Some guard) \<Rightarrow>
      (case alloc_pages 1 m1 of (m2, None) \<Rightarrow> (k\<lparr>k_mem := m2\<rparr>, None) | (m2, Some code) \<Rightarrow>
      (case alloc_pages 1 m2 of (m3, None) \<Rightarrow> (k\<lparr>k_mem := m3\<rparr>, None) | (m3, Some ustack) \<Rightarrow>
         let m4 = wr_bytes code (prog @ replicate (4096 - length prog) 0) m3 in
         case create_process_page_table (k_image k) code ustack m4 of
           (m5, None) \<Rightarrow> (k\<lparr>k_mem := m5\<rparr>, None)
         | (m5, Some pt) \<Rightarrow>
             let rip = word_of_nat USER_CODE_VA; rsp = word_of_nat USER_STACK_TOP; kstack = guard + GUARD_SIZE in
             case task_init_userspace_stack (user_tramp k) kstack rip rsp m5 of
               (m6, ksp) \<Rightarrow>
                 add_user_task guard
                   (task_new_user ksp (word_of_nat (kstack + STACK_SIZE)) (word_of_nat pt) (current_pid k))
                   (\<lambda>t. t\<lparr>t_context := (t_context t)\<lparr>c_ip := rip, c_sp := rsp\<rparr>\<rparr>)
                   (k\<lparr>k_mem := m6\<rparr>))))"

definition spawn_elf :: "u64 \<Rightarrow> bytes \<Rightarrow> bytes \<Rightarrow> kernel \<Rightarrow> kernel \<times> nat option" where
  "spawn_elf seed data argv0 k =
     (case alloc_kstack k of
        (m1, None) \<Rightarrow> (k\<lparr>k_mem := m1\<rparr>, None)
      | (m1, Some guard) \<Rightarrow>
      (case create_empty_process_page_table (k_image k) m1 of
        (m2, None) \<Rightarrow> (k\<lparr>k_mem := m2\<rparr>, None)
      | (m2, Some pt) \<Rightarrow>
      (case elf_load data pt m2 of
        (m3, None) \<Rightarrow> (k\<lparr>k_mem := m3\<rparr>, None)
      | (m3, Some img) \<Rightarrow>
      (case map_user_init_stack pt USER_ELF_STACK_TOP m3 of
        (m4, None) \<Rightarrow> (k\<lparr>k_mem := m4\<rparr>, None)
      | (m4, Some ustack) \<Rightarrow>
      (case setup_abi_stack seed ustack USER_STACK_SIZE USER_ELF_STACK_TOP argv0 [] []
              (e_phdr_va img) (e_phnum img) (e_phentsize img) m4 of
        (m5, None) \<Rightarrow> (k\<lparr>k_mem := m5\<rparr>, None)
      | (m5, Some rsp) \<Rightarrow>
          let rip = word_of_nat (e_entry img); kstack = guard + GUARD_SIZE in
          case task_init_userspace_stack (user_tramp k) kstack rip (word_of_nat rsp) m5 of
            (m6, ksp) \<Rightarrow>
              add_user_task guard
                (task_new_user ksp (word_of_nat (kstack + STACK_SIZE)) (word_of_nat pt) (current_pid k))
                (\<lambda>t. t\<lparr>t_context := (t_context t)\<lparr>c_ip := rip, c_sp := word_of_nat rsp\<rparr>,
                       heap_brk := word_of_nat (e_heap_start img)\<rparr>)
                (k\<lparr>k_mem := m6\<rparr>))))))"

definition spawn_fork :: "u64 \<Rightarrow> u64 \<Rightarrow> u64 list \<Rightarrow> u64 list \<Rightarrow> kernel \<Rightarrow> kernel \<times> nat option" where
  "spawn_fork user_ip user_sp regs callee_saved k =
     (case cur_task k of
        None \<Rightarrow> (k, None)
      | Some parent \<Rightarrow>
      (case alloc_kstack k of
        (m1, None) \<Rightarrow> (k\<lparr>k_mem := m1\<rparr>, None)
      | (m1, Some guard) \<Rightarrow>
      (case clone_user_page_table (unat (page_table_phys parent)) m1 of
        (m2, None) \<Rightarrow> (k\<lparr>k_mem := m2\<rparr>, None)
      | (m2, Some child_pt) \<Rightarrow>
          let kstack = guard + GUARD_SIZE in
          case task_init_fork_stack (fork_tramp k) kstack user_ip user_sp regs callee_saved m2 of
            (m3, ksp) \<Rightarrow>
              let k3 = k\<lparr>k_mem := m3\<rparr> in
              case first_vacant k3 of
                None \<Rightarrow> (k3, None)
              | Some i \<Rightarrow>
                  add_user_task guard
                    (task_new_user ksp (word_of_nat (kstack + STACK_SIZE)) (word_of_nat child_pt) (pid parent))
                    (\<lambda>t. t\<lparr>heap_brk := heap_brk parent, t_fds := t_fds parent, t_cwd := t_cwd parent,
                           t_fs_base := h_fs_base (k_hw k)\<rparr>)
                    (k3\<lparr>k_pool := fold inherit_fd (t_fds parent) (k_pool k)\<rparr>))))"

definition execve_current ::
    "u64 \<Rightarrow> bytes \<Rightarrow> bytes \<Rightarrow> nat \<Rightarrow> nat \<Rightarrow> kernel \<Rightarrow> kernel \<times> (u64 \<times> u64 \<times> u64) option" where
  "execve_current seed data argv0 argv_ptr envp_ptr k =
     (let argv = user_cstr_array k argv_ptr MAX_EXEC_VEC; envp = user_cstr_array k envp_ptr MAX_EXEC_VEC in
      case create_empty_process_page_table (k_image k) (k_mem k) of
        (m1, None) \<Rightarrow> (k\<lparr>k_mem := m1\<rparr>, None)
      | (m1, Some pt) \<Rightarrow>
      (case elf_load data pt m1 of
        (m2, None) \<Rightarrow> (k\<lparr>k_mem := m2\<rparr>, None)
      | (m2, Some img) \<Rightarrow>
      (case map_user_init_stack pt USER_ELF_STACK_TOP m2 of
        (m3, None) \<Rightarrow> (k\<lparr>k_mem := m3\<rparr>, None)
      | (m3, Some ustack) \<Rightarrow>
      (case setup_abi_stack seed ustack USER_STACK_SIZE USER_ELF_STACK_TOP argv0 argv envp
              (e_phdr_va img) (e_phnum img) (e_phentsize img) m3 of
        (m4, None) \<Rightarrow> (k\<lparr>k_mem := m4\<rparr>, None)
      | (m4, Some rsp) \<Rightarrow>
          if cur_task k = None then (k\<lparr>k_mem := m4\<rparr>, None)
          else (upd_task (current k)
                  (\<lambda>t. t\<lparr>page_table_phys := word_of_nat pt, heap_brk := word_of_nat (e_heap_start img), t_fs_base := 0\<rparr>)
                  (k\<lparr>k_mem := m4, k_hw := (k_hw k)\<lparr>h_fs_base := 0\<rparr>\<rparr>),
                Some (word_of_nat (e_entry img), word_of_nat rsp, word_of_nat pt))))))"

section \<open>Waiting\<close>

text \<open>What one pass of a blocking operation ends with: a result, or control given to the
  scheduler, after which the pass is repeated.\<close>

datatype 'a pass = Done 'a | Again

definition zombie_child :: "kernel \<Rightarrow> u64 \<Rightarrow> u64 \<Rightarrow> nat \<Rightarrow> bool" where
  "zombie_child k cur_pid target slot \<longleftrightarrow>
     (case tasks k ! slot of
        None \<Rightarrow> False
      | Some t \<Rightarrow> t_state t = Zombie \<and> ppid t = cur_pid \<and> (target = - 1 \<or> pid t = target))"

definition live_child :: "kernel \<Rightarrow> u64 \<Rightarrow> nat \<Rightarrow> bool" where
  "live_child k cur_pid slot \<longleftrightarrow>
     (case tasks k ! slot of None \<Rightarrow> False | Some t \<Rightarrow> ppid t = cur_pid \<and> t_state t \<noteq> Zombie)"

text \<open>The status word is returned beside the result; the caller stores it when the pointer is
  not null.\<close>

definition waitpid_pass :: "u64 \<Rightarrow> u64 \<Rightarrow> bool \<Rightarrow> kernel \<Rightarrow> (kernel \<times> (int \<times> u32 option) pass) option" where
  "waitpid_pass cur_pid target no_hang k =
     (case scan (zombie_child k cur_pid target) 1 MAX_TASKS of
        Some slot \<Rightarrow>
          (case tasks k ! slot of
             None \<Rightarrow> None
           | Some t \<Rightarrow> Some (set_slot slot None k, Done (sint (pid t), Some (push_bit 8 (exit_code t AND 0xFF)))))
      | None \<Rightarrow>
          if scan (live_child k cur_pid) 1 MAX_TASKS = None then Some (k, Done (- 10, None))
          else if no_hang then Some (k, Done (0, None))
          else if cur_task k = None then None
          else map_option (\<lambda>k. (k, Again))
                 (schedule (upd_task (current k) (\<lambda>t. t\<lparr>waiting_for_pid := target, t_state := Blocked\<rparr>) k)))"

definition has_input :: "kernel \<Rightarrow> bool" where
  "has_input k \<longleftrightarrow> \<not> ring_is_empty (kbd_rx k) \<or> \<not> ring_is_empty (serial_rx k)"

definition block_current :: "kernel \<Rightarrow> kernel option" where
  "block_current k =
     (if cur_task k = None then None
      else schedule (upd_task (current k) (\<lambda>t. t\<lparr>t_state := Blocked\<rparr>) k))"

definition block_on_tty :: "kernel \<Rightarrow> kernel option" where
  "block_on_tty k =
     (if has_input k then Some k else block_current (k\<lparr>tty_waiter := Some (current k)\<rparr>))"

definition block_on_pipe :: "nat \<Rightarrow> kernel \<Rightarrow> kernel option" where
  "block_on_pipe i k =
     (if \<not> pipe_has_data i (k_pool k) \<and> pipe_write_open i (k_pool k)
      then block_current (k\<lparr>pipe_waiters := (pipe_waiters k)[i := Some (current k)]\<rparr>)
      else Some k)"

text \<open>One test of the loop of \<^verbatim>\<open>sleep_ticks\<close>; \<open>wake_at\<close> is computed once.\<close>

definition sleep_pass :: "u64 \<Rightarrow> kernel \<Rightarrow> (kernel \<times> unit pass) option" where
  "sleep_pass wake_at k =
     (if tick_count k < wake_at then map_option (\<lambda>k. (k, Again)) (schedule k) else Some (k, Done ()))"

definition raise_signal_to_pid :: "u64 \<Rightarrow> u8 \<Rightarrow> kernel \<Rightarrow> kernel \<times> bool" where
  "raise_signal_to_pid target sig k =
     (case slot_of_pid k (\<lambda>t. pid t = target \<and> t_state t \<noteq> Zombie) of
        None \<Rightarrow> (k, False)
      | Some s \<Rightarrow> (upd_task s (\<lambda>t. wake_task (fst (raise_signal sig t))) k, True))"

definition kill_task :: "nat \<Rightarrow> kernel \<Rightarrow> kernel \<times> bool" where
  "kill_task slot k =
     (if slot = 0 \<or> slot \<ge> MAX_TASKS \<or> slot = current k then (k, False)
      else case tasks k ! slot of
        None \<Rightarrow> (k, False)
      | Some t \<Rightarrow>
          if t_state t = Zombie then (k, False)
          else (upd_task slot (\<lambda>t. wake_task (fst (raise_signal SIGKILL t))) k, True))"

section \<open>Descriptors of the current task\<close>

definition upd_current :: "(task \<Rightarrow> task) \<Rightarrow> kernel \<Rightarrow> kernel" where
  "upd_current f k = upd_task (current k) f k"

definition current_fd_get :: "nat \<Rightarrow> kernel \<Rightarrow> fd_entry option" where
  "current_fd_get fd k = (case cur_task k of None \<Rightarrow> None | Some t \<Rightarrow> fdt_get fd (t_fds t))"

definition current_fd_alloc :: "fd_entry \<Rightarrow> kernel \<Rightarrow> kernel \<times> nat option" where
  "current_fd_alloc entry k =
     (case cur_task k of
        None \<Rightarrow> (k, None)
      | Some t \<Rightarrow>
          (case fdt_alloc entry (t_fds t) of (fds, r) \<Rightarrow> (upd_current (\<lambda>t. t\<lparr>t_fds := fds\<rparr>) k, r)))"

definition current_fd_close :: "nat \<Rightarrow> kernel \<Rightarrow> kernel \<times> fd_entry option" where
  "current_fd_close fd k =
     (case cur_task k of
        None \<Rightarrow> (k, None)
      | Some t \<Rightarrow>
          (case fdt_close fd (t_fds t) of (fds, r) \<Rightarrow> (upd_current (\<lambda>t. t\<lparr>t_fds := fds\<rparr>) k, r)))"

definition current_fd_dup :: "nat \<Rightarrow> kernel \<Rightarrow> kernel \<times> nat option" where
  "current_fd_dup oldfd k =
     (case current_fd_get oldfd k of None \<Rightarrow> (k, None) | Some entry \<Rightarrow> current_fd_alloc entry k)"

definition current_fd_dup2 :: "nat \<Rightarrow> nat \<Rightarrow> kernel \<Rightarrow> kernel \<times> nat option" where
  "current_fd_dup2 oldfd newfd k =
     (case cur_task k of
        None \<Rightarrow> (k, None)
      | Some t \<Rightarrow>
          (case fdt_get oldfd (t_fds t) of
             None \<Rightarrow> (k, None)
           | Some entry \<Rightarrow>
               (case fdt_alloc_at newfd entry (t_fds t) (k_pool k) of
                  (fds, pool, r) \<Rightarrow> ((upd_current (\<lambda>t. t\<lparr>t_fds := fds\<rparr>) k)\<lparr>k_pool := pool\<rparr>, r))))"

definition current_fd_set_offset :: "nat \<Rightarrow> u64 \<Rightarrow> kernel \<Rightarrow> kernel" where
  "current_fd_set_offset fd off k = upd_current (\<lambda>t. t\<lparr>t_fds := fdt_set_offset fd off (t_fds t)\<rparr>) k"

definition current_fd_set_dir_pos :: "nat \<Rightarrow> nat \<Rightarrow> kernel \<Rightarrow> kernel" where
  "current_fd_set_dir_pos fd p k = upd_current (\<lambda>t. t\<lparr>t_fds := fdt_set_dir_pos fd p (t_fds t)\<rparr>) k"

definition set_cwd :: "nat \<Rightarrow> kernel \<Rightarrow> kernel" where
  "set_cwd inode k = upd_current (\<lambda>t. t\<lparr>t_cwd := inode\<rparr>) k"

definition set_heap_brk :: "u64 \<Rightarrow> kernel \<Rightarrow> kernel" where
  "set_heap_brk addr k = upd_current (\<lambda>t. t\<lparr>heap_brk := addr\<rparr>) k"

definition get_fs_base :: "kernel \<Rightarrow> u64" where
  "get_fs_base k = (case cur_task k of Some t \<Rightarrow> t_fs_base t | None \<Rightarrow> 0)"

definition set_fs_base :: "u64 \<Rightarrow> kernel \<Rightarrow> kernel" where
  "set_fs_base val k = upd_current (\<lambda>t. t\<lparr>t_fs_base := val\<rparr>) k"

definition task_pid :: "nat \<Rightarrow> kernel \<Rightarrow> u64" where
  "task_pid slot k = (case tasks k ! slot of Some t \<Rightarrow> pid t | None \<Rightarrow> 0)"

definition task_count :: "kernel \<Rightarrow> nat" where
  "task_count k =
     length (filter (\<lambda>s. case s of Some t \<Rightarrow> t_state t \<noteq> Zombie | None \<Rightarrow> False) (drop 1 (tasks k)))"

definition for_each_task :: "kernel \<Rightarrow> (nat \<times> u64 \<times> task_state \<times> bool) list" where
  "for_each_task k =
     List.map_filter (\<lambda>(i, s). map_option (\<lambda>t. (i, pid t, t_state t, is_user t)) s) (enumerate 0 (tasks k))"

definition handle_user_page_fault :: "u64 \<Rightarrow> kernel \<Rightarrow> kernel \<times> bool" where
  "handle_user_page_fault va k =
     (let pt = current_page_table_phys k; va_page = page_floor (unat va) in
      if pt = 0 then (k, False)
      else if va_page < USER_BASE_VA then (k, False)
      else case alloc_pages 1 (k_mem k) of
        (m1, None) \<Rightarrow> (k\<lparr>k_mem := m1\<rparr>, False)
      | (m1, Some phys) \<Rightarrow>
          (case map_user_page (unat pt) va_page phys (PROT_READ OR PROT_WRITE OR PROT_EXEC OR PROT_USER)
                  (zero_page phys m1) of
             (m2, ok) \<Rightarrow> (k\<lparr>k_mem := m2\<rparr>, ok)))"

end
