(* ===== verification/SchedulerInv.thy ===== *)
theory SchedulerInv
  imports Scheduler
begin

text \<open>
  Correctness of the scheduler: the round-robin choice is fair, the task table keeps its
  invariant under every operation of \<^verbatim>\<open>scheduler/mod.rs\<close>, switching saves and restores the
  right registers, lethal signals end their task, and the pipe reference counts agree with the
  descriptors held.
\<close>

section \<open>Round robin\<close>

lemma MAX_TASKS_simps [simp]: "0 < MAX_TASKS" "Suc 0 < MAX_TASKS" "MAX_TASKS - Suc 0 = 63"
  by (simp_all add: MAX_TASKS_def)

lemma probe_eq: "probe cur i = (cur + i) mod 63 + 1"
  by (simp add: probe_def MAX_TASKS_def mod_simps)

lemma probe_bounds: "0 < probe cur i" "probe cur i < MAX_TASKS"
  by (simp_all add: probe_eq MAX_TASKS_def)

text \<open>How many probes lie before slot \<open>s\<close>, seen from \<open>cur\<close>.\<close>

definition rr_dist :: "nat \<Rightarrow> nat \<Rightarrow> nat" where
  "rr_dist cur s = circ_len 63 (s - 1) (cur mod 63)"

lemma rr_dist_less: "rr_dist cur s < 63"
  by (simp add: rr_dist_def circ_len_less)

lemma probe_rr_dist: "0 < s \<Longrightarrow> s < MAX_TASKS \<Longrightarrow> probe cur (rr_dist cur s) = s"
  using circ_head[of "s - 1" 63 "cur mod 63"]
  by (simp add: probe_eq rr_dist_def MAX_TASKS_def mod_simps)

lemma circ_len_advance:
  "h < N \<Longrightarrow> t < N \<Longrightarrow> i \<le> circ_len N h t \<Longrightarrow> circ_len N h ((t + i) mod N) + i = circ_len N h t"
proof (induction i)
  case (Suc i)
  have "circ_len N h ((t + i) mod N) \<noteq> 0" using Suc by simp
  then have "h \<noteq> (t + i) mod N" using circ_len_0_iff[of h N "(t + i) mod N"] Suc.prems by simp
  then have "Suc (circ_len N h (((t + i) mod N + 1) mod N)) = circ_len N h ((t + i) mod N)"
    using circ_len_step(3)[of h N "(t + i) mod N"] Suc.prems by simp
  moreover have "((t + i) mod N + 1) mod N = (t + Suc i) mod N" by (simp add: mod_simps)
  ultimately show ?case using Suc by simp
qed simp

lemma rr_dist_probe:
  assumes "0 < s" "s < MAX_TASKS" "i < rr_dist cur s"
  shows "rr_dist (probe cur i) s < rr_dist cur s"
proof -
  have "probe cur i mod 63 = (cur + Suc i) mod 63" by (simp add: probe_eq mod_Suc_eq)
  also have "\<dots> = (cur mod 63 + Suc i) mod 63" by (rule mod_add_left_eq[symmetric])
  finally have "probe cur i mod 63 = (cur mod 63 + Suc i) mod 63" .
  moreover have "circ_len 63 (s - 1) ((cur mod 63 + Suc i) mod 63) + Suc i = circ_len 63 (s - 1) (cur mod 63)"
    using assms by (intro circ_len_advance) (auto simp: rr_dist_def MAX_TASKS_def)
  ultimately show ?thesis by (simp add: rr_dist_def)
qed

lemma pick_next_ready: "pick_next k = 0 \<or> 0 < pick_next k \<and> pick_next k < MAX_TASKS \<and> slot_ready k (pick_next k)"
  by (auto simp: pick_next_def scan_Some probe_bounds split: option.splits)

lemma pick_next_less: "pick_next k < MAX_TASKS"
  using pick_next_ready[of k] by auto

lemma pick_next_before:
  assumes "0 < s" "s < MAX_TASKS" "slot_ready k s"
  shows "\<exists>i \<le> rr_dist (current k) s. pick_next k = probe (current k) i"
proof -
  have "slot_ready k (probe (current k) (rr_dist (current k) s))" using probe_rr_dist assms by simp
  then obtain i where "scan (\<lambda>i. slot_ready k (probe (current k) i)) 0 63 = Some i" "i \<le> rr_dist (current k) s"
    using scan_exists[of 0 "rr_dist (current k) s" 63 "\<lambda>i. slot_ready k (probe (current k) i)"] rr_dist_less by blast
  then show ?thesis by (intro exI[of _ i]) (simp add: pick_next_def)
qed

lemma pick_next_zero: "pick_next k = 0 \<longleftrightarrow> (\<forall>s. 0 < s \<longrightarrow> s < MAX_TASKS \<longrightarrow> \<not> slot_ready k s)"
proof
  assume z: "pick_next k = 0"
  show "\<forall>s. 0 < s \<longrightarrow> s < MAX_TASKS \<longrightarrow> \<not> slot_ready k s"
  proof (intro allI impI notI)
    fix s assume "0 < s" "s < MAX_TASKS" "slot_ready k s"
    then obtain i where "pick_next k = probe (current k) i" using pick_next_before by blast
    with z probe_bounds(1)[of "current k" i] show False by simp
  qed
qed (use pick_next_ready[of k] in auto)

lemma pick_next_progress:
  assumes "0 < s" "s < MAX_TASKS" "slot_ready k s" "pick_next k \<noteq> s"
  shows "rr_dist (pick_next k) s < rr_dist (current k) s"
proof -
  obtain i where i: "i \<le> rr_dist (current k) s" "pick_next k = probe (current k) i"
    using pick_next_before assms by blast
  with assms(4) probe_rr_dist assms(1,2) have "i \<noteq> rr_dist (current k) s" by metis
  with i rr_dist_probe[OF assms(1,2)] show ?thesis by simp
qed

text \<open>A slot that stays ready is chosen within 63 scheduling decisions.\<close>

lemma round_robin_fair:
  assumes s: "0 < s" "s < MAX_TASKS" and ready: "\<And>n. slot_ready (ks n) s"
    and step: "\<And>n. current (ks (Suc n)) = pick_next (ks n)"
  shows "\<exists>n < 63. pick_next (ks n) = s"
proof (rule ccontr)
  assume no: "\<not> (\<exists>n < 63. pick_next (ks n) = s)"
  have "n \<le> 63 \<Longrightarrow> rr_dist (current (ks n)) s + n \<le> rr_dist (current (ks 0)) s" for n
  proof (induction n)
    case (Suc n)
    then have "rr_dist (pick_next (ks n)) s < rr_dist (current (ks n)) s"
      using pick_next_progress[OF s ready] no by simp
    with Suc show ?case by (simp add: step)
  qed simp
  from this[of 63] rr_dist_less[of "current (ks 0)" s] show False by simp
qed

section \<open>The task table invariant\<close>

definition task_ok :: "u64 \<Rightarrow> nat \<Rightarrow> task \<Rightarrow> bool" where
  "task_ok np s t \<longleftrightarrow> fdt_wf (t_fds t) \<and> t_cwd t < MAX_INODES \<and> pid t < np \<and> (s \<noteq> 0 \<longrightarrow> ppid t < pid t)"

definition tasks_wf :: "u64 \<Rightarrow> task option list \<Rightarrow> bool" where
  "tasks_wf np ts \<longleftrightarrow> length ts = MAX_TASKS \<and> ts ! 0 \<noteq> None
     \<and> (\<forall>s < MAX_TASKS. \<forall>t. ts ! s = Some t \<longrightarrow> task_ok np s t)
     \<and> (\<forall>s < MAX_TASKS. \<forall>s' < MAX_TASKS. \<forall>t t'. ts ! s = Some t \<longrightarrow> ts ! s' = Some t' \<longrightarrow> pid t = pid t' \<longrightarrow> s = s')"

definition sched_wf :: "kernel \<Rightarrow> bool" where
  "sched_wf k \<longleftrightarrow> tasks_wf (next_pid k) (tasks k) \<and> current k < MAX_TASKS \<and> cur_task k \<noteq> None
     \<and> length (guard_phys k) = MAX_TASKS \<and> length (pipe_waiters k) = MAX_PIPES
     \<and> pool_wf (k_pool k) \<and> fs_wf (k_fs k) \<and> (\<forall>s n. saved_next k s = Some n \<longrightarrow> n < MAX_TASKS)"

lemma tasks_wfD:
  assumes "tasks_wf np ts"
  shows "length ts = MAX_TASKS" "ts ! 0 \<noteq> None"
    "s < MAX_TASKS \<Longrightarrow> ts ! s = Some t \<Longrightarrow> task_ok np s t"
    "s < MAX_TASKS \<Longrightarrow> s' < MAX_TASKS \<Longrightarrow> ts ! s = Some t \<Longrightarrow> ts ! s' = Some t' \<Longrightarrow> pid t = pid t' \<Longrightarrow> s = s'"
  using assms unfolding tasks_wf_def by blast+

lemma sched_wfD:
  assumes "sched_wf k"
  shows "tasks_wf (next_pid k) (tasks k)" "current k < MAX_TASKS" "cur_task k \<noteq> None"
    "length (guard_phys k) = MAX_TASKS" "length (pipe_waiters k) = MAX_PIPES" "pool_wf (k_pool k)" "fs_wf (k_fs k)"
    "saved_next k s = Some n \<Longrightarrow> n < MAX_TASKS"
  using assms unfolding sched_wf_def by blast+

text \<open>Changes to a task that keep its identity and its descriptor table well formed.\<close>

definition mild :: "(task \<Rightarrow> task) \<Rightarrow> bool" where
  "mild f \<longleftrightarrow> (\<forall>t. pid (f t) = pid t \<and> ppid (f t) = ppid t \<and> (fdt_wf (t_fds t) \<longrightarrow> fdt_wf (t_fds (f t)))
     \<and> (t_cwd t < MAX_INODES \<longrightarrow> t_cwd (f t) < MAX_INODES))"

lemma mild_task_ok: "mild f \<Longrightarrow> task_ok np s t \<Longrightarrow> task_ok np s (f t)"
  by (simp add: mild_def task_ok_def)

lemma tasks_wf_map:
  assumes "tasks_wf np ts" "length ts' = length ts"
    "\<And>s t'. s < MAX_TASKS \<Longrightarrow> ts' ! s = Some t' \<Longrightarrow> \<exists>t. ts ! s = Some t \<and> task_ok np s t' \<and> pid t' = pid t"
    "ts' ! 0 \<noteq> None"
  shows "tasks_wf np ts'"
  unfolding tasks_wf_def
proof (intro conjI allI impI)
  note D = tasks_wfD[OF assms(1)]
  show "length ts' = MAX_TASKS" using D(1) assms(2) by simp
  show "ts' ! 0 \<noteq> None" by (fact assms(4))
  show "task_ok np s t" if "s < MAX_TASKS" "ts' ! s = Some t" for s t using assms(3)[OF that] by blast
  show "s = s'" if "s < MAX_TASKS" "s' < MAX_TASKS" "ts' ! s = Some t" "ts' ! s' = Some t'" "pid t = pid t'" for s s' t t'
    using assms(3)[OF that(1,3)] assms(3)[OF that(2,4)] D(4)[OF that(1,2)] that(5) by metis
qed

lemma tasks_wf_upd_nth:
  assumes "tasks_wf np ts" "mild f"
  shows "tasks_wf np (upd_nth s (map_option f) ts)"
proof (rule tasks_wf_map[OF assms(1)])
  note D = tasks_wfD[OF assms(1)]
  show "upd_nth s (map_option f) ts ! 0 \<noteq> None" using D(1,2) by simp
  show "\<exists>t. ts ! r = Some t \<and> task_ok np r t' \<and> pid t' = pid t"
    if "r < MAX_TASKS" "upd_nth s (map_option f) ts ! r = Some t'" for r t'
    using that D(1) D(3)[OF that(1)] assms(2) mild_task_ok[OF assms(2)] by (auto simp: mild_def split: if_splits)
qed simp

lemma tasks_wf_map_option:
  assumes "tasks_wf np ts" "mild f"
  shows "tasks_wf np (map (map_option f) ts)"
proof (rule tasks_wf_map[OF assms(1)])
  note D = tasks_wfD[OF assms(1)]
  show "map (map_option f) ts ! 0 \<noteq> None" using D(1,2) by simp
  show "\<exists>t. ts ! r = Some t \<and> task_ok np r t' \<and> pid t' = pid t"
    if "r < MAX_TASKS" "map (map_option f) ts ! r = Some t'" for r t'
    using that D(1) D(3)[OF that(1)] assms(2) mild_task_ok[OF assms(2)] by (auto simp: mild_def)
qed simp

lemma upd_task_simps [simp, frame_simps]:
  "current (upd_task s f k) = current k" "next_pid (upd_task s f k) = next_pid k"
  "k_pool (upd_task s f k) = k_pool k" "k_fs (upd_task s f k) = k_fs k" "k_mem (upd_task s f k) = k_mem k"
  "guard_phys (upd_task s f k) = guard_phys k" "pipe_waiters (upd_task s f k) = pipe_waiters k"
  "k_hw (upd_task s f k) = k_hw k" "saved_next (upd_task s f k) = saved_next k" "tick_count (upd_task s f k) = tick_count k"
  "tasks (upd_task s f k) = upd_nth s (map_option f) (tasks k)"
  by (simp_all add: upd_task_def)

lemma set_slot_simps [simp, frame_simps]:
  "current (set_slot s t k) = current k" "next_pid (set_slot s t k) = next_pid k"
  "k_pool (set_slot s t k) = k_pool k" "k_fs (set_slot s t k) = k_fs k" "k_mem (set_slot s t k) = k_mem k"
  "guard_phys (set_slot s t k) = guard_phys k" "pipe_waiters (set_slot s t k) = pipe_waiters k"
  "k_hw (set_slot s t k) = k_hw k" "saved_next (set_slot s t k) = saved_next k"
  "tasks (set_slot s t k) = (tasks k)[s := t]"
  by (simp_all add: set_slot_def)

lemma upd_task_wf [wf_intros]: "sched_wf k \<Longrightarrow> mild f \<Longrightarrow> sched_wf (upd_task s f k)"
  using tasks_wf_upd_nth[of "next_pid k" "tasks k" f s]
  by (auto simp: sched_wf_def tasks_wf_def[of _ "tasks k"])

lemma mild_simps [simp]:
  "mild wake_task" "mild (\<lambda>t. fst (raise_signal s t))" "mild (\<lambda>t. fst (take_signal s t))"
  "mild (\<lambda>t. t\<lparr>t_state := st\<rparr>)" "mild (\<lambda>t. t\<lparr>waiting_for_pid := w, t_state := st\<rparr>)"
  "mild (\<lambda>t. t\<lparr>t_fs_base := fb, kernel_sp := sp\<rparr>)" "mild (\<lambda>t. wake_task (fst (raise_signal s t)))"
  "mild (\<lambda>t. t\<lparr>heap_brk := b\<rparr>)" "mild (\<lambda>t. t\<lparr>t_fs_base := fb\<rparr>)"
  "mild (\<lambda>t. t\<lparr>page_table_phys := pt, heap_brk := b, t_fs_base := fb\<rparr>)"
  by (auto simp: mild_def wake_task_def raise_signal_def take_signal_def)

section \<open>Switching\<close>

lemma schedule_cases:
  assumes "schedule k = Some k'"
  obtains (stay) "pick_next k = current k" "k' = k"
  | (switch) nt pt where "pick_next k \<noteq> current k" "tasks k ! pick_next k = Some nt" "cur_task k = Some pt"
      "resume (pick_next k) (switch_out (pick_next k) nt k) = Some k'"
  using assms by (auto simp: schedule_def Let_def split: if_splits option.splits)

lemma switch_out_simps [simp]:
  "current (switch_out n nt k) = n" "next_pid (switch_out n nt k) = next_pid k"
  "k_pool (switch_out n nt k) = k_pool k" "k_fs (switch_out n nt k) = k_fs k" "k_mem (switch_out n nt k) = k_mem k"
  "guard_phys (switch_out n nt k) = guard_phys k" "pipe_waiters (switch_out n nt k) = pipe_waiters k"
  "tasks (switch_out n nt k) = upd_nth (current k)
     (map_option (\<lambda>t. t\<lparr>t_fs_base := h_fs_base (k_hw k), kernel_sp := h_rsp (k_hw k)\<rparr>)) (tasks k)"
  "h_rsp (k_hw (switch_out n nt k)) = kernel_sp nt"
  "h_rsp0 (k_hw (switch_out n nt k)) = (if is_user nt then stack_top nt else 0)"
  "h_cr3 (k_hw (switch_out n nt k)) =
     (if page_table_phys nt \<noteq> 0 then page_table_phys nt else word_of_nat (k_pml4 (k_image k)))"
  "saved_next (switch_out n nt k) = (saved_next k)(current k := Some n)"
  "tick_count (switch_out n nt k) = tick_count k"
  by (simp_all add: switch_out_def Let_def)

lemma resume_frame:
  assumes "resume s k = Some k'"
  shows "tasks k' = tasks k" "current k' = current k" "next_pid k' = next_pid k" "k_pool k' = k_pool k"
    "k_fs k' = k_fs k" "k_mem k' = k_mem k" "guard_phys k' = guard_phys k" "pipe_waiters k' = pipe_waiters k"
    "saved_next k' = saved_next k" "h_rsp (k_hw k') = h_rsp (k_hw k)" "h_cr3 (k_hw k') = h_cr3 (k_hw k)"
    "h_rsp0 (k_hw k') = h_rsp0 (k_hw k)" "tick_count k' = tick_count k"
  using assms by (auto simp: resume_def split: option.splits)

lemma schedule_frame:
  assumes "schedule k = Some k'"
  shows "current k' = pick_next k" "next_pid k' = next_pid k" "k_pool k' = k_pool k" "k_fs k' = k_fs k" "k_mem k' = k_mem k"
    "guard_phys k' = guard_phys k" "pipe_waiters k' = pipe_waiters k" "tick_count k' = tick_count k"
    "saved_next k' = saved_next k \<or> saved_next k' = (saved_next k)(current k := Some (pick_next k))"
    "tasks k' = tasks k \<or> tasks k' = upd_nth (current k)
     (map_option (\<lambda>t. t\<lparr>t_fs_base := h_fs_base (k_hw k), kernel_sp := h_rsp (k_hw k)\<rparr>)) (tasks k)"
  using assms by (cases rule: schedule_cases; auto dest: resume_frame)+

lemma schedule_wf [wf_intros]:
  assumes "sched_wf k" "schedule k = Some k'"
  shows "sched_wf k'"
proof -
  note D = sched_wfD[OF assms(1)] and F = schedule_frame[OF assms(2)]
  have ts: "tasks_wf (next_pid k') (tasks k')"
    using F(2,10) D(1) tasks_wf_upd_nth[OF D(1) mild_simps(6)] by auto
  have "tasks k ! pick_next k \<noteq> None"
    using pick_next_ready[of k] tasks_wfD(2)[OF D(1)] by (auto simp: slot_ready_def split: option.splits)
  moreover have "(tasks k' ! s = None) = (tasks k ! s = None)" if "s < MAX_TASKS" for s
    using F(10) tasks_wfD(1)[OF D(1)] that by (auto split: if_splits)
  ultimately have "cur_task k' \<noteq> None" using F(1) pick_next_less[of k] by simp
  moreover have "\<forall>s n. saved_next k' s = Some n \<longrightarrow> n < MAX_TASKS"
    using F(9) D(8) pick_next_less[of k] by (auto split: if_splits)
  ultimately show ?thesis using ts F D(2-7) pick_next_less[of k] unfolding sched_wf_def by simp
qed

text \<open>The incoming task gets its own stack pointer, kernel stack and page table; the outgoing one
  keeps its stack pointer and FS base in its task record.\<close>

lemma schedule_registers:
  assumes sw: "schedule k = Some k'" "pick_next k \<noteq> current k" and wf: "sched_wf k"
    and nt: "tasks k ! pick_next k = Some nt"
  shows "h_rsp (k_hw k') = kernel_sp nt"
    "h_rsp0 (k_hw k') = (if is_user nt then stack_top nt else 0)"
    "h_cr3 (k_hw k') = (if page_table_phys nt \<noteq> 0 then page_table_phys nt else word_of_nat (k_pml4 (k_image k)))"
    "map_option kernel_sp (tasks k' ! current k) = Some (h_rsp (k_hw k))"
    "map_option t_fs_base (tasks k' ! current k) = Some (h_fs_base (k_hw k))"
proof -
  note D = sched_wfD[OF wf]
  obtain pt where p: "cur_task k = Some pt" "resume (pick_next k) (switch_out (pick_next k) nt k) = Some k'"
    using sw nt by (cases rule: schedule_cases[OF sw(1)]) auto
  note R = resume_frame[OF p(2)]
  show "h_rsp (k_hw k') = kernel_sp nt" "h_rsp0 (k_hw k') = (if is_user nt then stack_top nt else 0)"
    "h_cr3 (k_hw k') = (if page_table_phys nt \<noteq> 0 then page_table_phys nt else word_of_nat (k_pml4 (k_image k)))"
    using R by simp_all
  show "map_option kernel_sp (tasks k' ! current k) = Some (h_rsp (k_hw k))"
    "map_option t_fs_base (tasks k' ! current k) = Some (h_fs_base (k_hw k))"
    using R(1) p(1) D(2) tasks_wfD(1)[OF D(1)] by simp_all
qed

text \<open>The scheduler panics exactly on a broken canary or when the frame it resumes refers to a slot
  that has been emptied meanwhile.\<close>

lemma schedule_panics_iff:
  assumes "sched_wf k"
  shows "schedule k = None \<longleftrightarrow>
    \<not> canary_ok k (current k) \<or>
    pick_next k \<noteq> current k \<and> (\<exists>n. saved_next k (pick_next k) = Some n \<and> tasks k ! n = None)"
proof -
  note D = sched_wfD[OF assms]
  obtain nt where nt: "tasks k ! pick_next k = Some nt"
    using pick_next_ready[of k] tasks_wfD(2)[OF D(1)] by (auto simp: slot_ready_def split: option.splits)
  obtain pt where pt: "cur_task k = Some pt" using D(3) by blast
  have tn: "(tasks (switch_out (pick_next k) nt k) ! n = None) = (tasks k ! n = None)" if "n < MAX_TASKS" for n
    using that tasks_wfD(1)[OF D(1)] by simp
  have "schedule k = None \<longleftrightarrow> \<not> canary_ok k (current k) \<or> pick_next k \<noteq> current k \<and>
      (\<exists>n. saved_next k (pick_next k) = Some n \<and> tasks (switch_out (pick_next k) nt k) ! n = None)"
    by (auto simp: schedule_def Let_def nt pt resume_def split: option.splits)
  then show ?thesis using tn D(8) by blast
qed

section \<open>Every operation keeps the invariant\<close>

lemma sched_wf_frame [simp]:
  "sched_wf (k\<lparr>k_mem := m\<rparr>) = sched_wf k" "sched_wf (k\<lparr>k_hw := h\<rparr>) = sched_wf k"
  "sched_wf (k\<lparr>tick_count := n\<rparr>) = sched_wf k" "sched_wf (k\<lparr>tty_waiter := w\<rparr>) = sched_wf k"
  "sched_wf (k\<lparr>console := c\<rparr>) = sched_wf k" "sched_wf (k\<lparr>serial_rx := r\<rparr>) = sched_wf k"
  "sched_wf (k\<lparr>kbd_rx := r\<rparr>) = sched_wf k" "sched_wf (k\<lparr>exec_ctx := x\<rparr>) = sched_wf k"
  "sched_wf (k\<lparr>sys_user_regs := g\<rparr>) = sched_wf k"
  by (simp_all add: sched_wf_def)

lemma sched_wf_pool: "sched_wf k \<Longrightarrow> pool_wf p \<Longrightarrow> sched_wf (k\<lparr>k_pool := p\<rparr>)"
  by (simp add: sched_wf_def)

lemma sched_wf_fs: "sched_wf k \<Longrightarrow> fs_wf f \<Longrightarrow> sched_wf (k\<lparr>k_fs := f\<rparr>)"
  by (simp add: sched_wf_def)

lemma sched_wf_waiters: "sched_wf k \<Longrightarrow> length w = MAX_PIPES \<Longrightarrow> sched_wf (k\<lparr>pipe_waiters := w\<rparr>)"
  by (simp add: sched_wf_def)

lemma sched_wf_tasks:
  assumes "sched_wf k" "tasks_wf (next_pid k) ts" "ts ! current k \<noteq> None"
  shows "sched_wf (k\<lparr>tasks := ts\<rparr>)"
  using assms by (simp add: sched_wf_def)

lemma wake_child_waiters_wf [wf_intros]: "sched_wf k \<Longrightarrow> sched_wf (wake_child_waiters p pp k)"
  unfolding wake_child_waiters_def
  by (intro sched_wf_tasks tasks_wf_map_option) (auto simp: sched_wf_def mild_def tasks_wf_def[of _ "tasks k"])

lemma signal_parent_wf [wf_intros]: "sched_wf k \<Longrightarrow> sched_wf (signal_parent p sig k)"
  by (auto simp: signal_parent_def upd_task_wf split: option.splits)

lemma wake_pipe_waiter_wf [wf_intros]: "sched_wf k \<Longrightarrow> sched_wf (wake_pipe_waiter i k)"
  by (auto simp: wake_pipe_waiter_def sched_wfD intro!: upd_task_wf sched_wf_waiters split: option.splits)

lemma fold_sched_wf: "(\<And>i k. sched_wf k \<Longrightarrow> sched_wf (f i k)) \<Longrightarrow> sched_wf k \<Longrightarrow> sched_wf (fold f is k)"
  by (induction "is" arbitrary: k) auto

lemma wake_closed_wf [wf_intros]: "sched_wf k \<Longrightarrow> sched_wf (wake_closed_pipe_readers k)"
  unfolding wake_closed_pipe_readers_def by (rule fold_sched_wf) (auto intro: wake_pipe_waiter_wf)

lemma wake_tty_waiter_wf [wf_intros]: "sched_wf k \<Longrightarrow> sched_wf (wake_tty_waiter k)"
  by (auto simp: wake_tty_waiter_def intro!: upd_task_wf split: option.splits)

text \<open>Replacing the task in a slot by a changed version of it.\<close>

lemma set_slot_wf:
  assumes wf: "sched_wf k" and t: "tasks k ! s = Some t" "s < MAX_TASKS"
    and t': "pid t' = pid t" "ppid t' = ppid t" "fdt_wf (t_fds t')" "t_cwd t' < MAX_INODES"
  shows "sched_wf (set_slot s (Some t') k)"
proof -
  note D = sched_wfD[OF wf]
  have ok: "task_ok (next_pid k) s t'" using tasks_wfD(3)[OF D(1) t(2,1)] t' by (simp add: task_ok_def)
  have "tasks_wf (next_pid k) ((tasks k)[s := Some t'])"
    using tasks_wfD[OF D(1)] ok t t'(1)
    by (intro tasks_wf_map[OF D(1)]) (auto simp: nth_list_update split: if_splits)
  then show ?thesis using D(2,3) tasks_wfD(1)[OF D(1)] t
    unfolding set_slot_def by (intro sched_wf_tasks wf) (auto simp: nth_list_update)
qed

lemma cur_task_ok: "sched_wf k \<Longrightarrow> cur_task k = Some t \<Longrightarrow> task_ok (next_pid k) (current k) t"
  using tasks_wfD(3) sched_wfD by blast

lemma release_all_wf: "pool_wf p \<Longrightarrow> pool_wf (fold release_fd es p)"
  by (induction es arbitrary: p) (auto intro: release_fd_wf)

lemma inherit_all_wf: "pool_wf p \<Longrightarrow> pool_wf (fold inherit_fd es p)"
  by (induction es arbitrary: p) (auto intro: inherit_fd_wf)

lemma exit_task_wf [wf_intros]:
  assumes "sched_wf k" "s < MAX_TASKS"
  shows "sched_wf (exit_task s code k)"
proof (cases "tasks k ! s")
  case (Some t)
  have ok: "fdt_wf (t_fds t)" "t_cwd t < MAX_INODES"
    using tasks_wfD(3)[OF sched_wfD(1)[OF assms(1)] assms(2) Some] by (auto simp: task_ok_def)
  note E = task_exit_effect[OF ok(1), of code "k_pool k"]
  have "sched_wf (set_slot s (Some (fst (task_exit code t (k_pool k)))) k)"
    by (rule set_slot_wf[OF assms(1) Some assms(2)]) (use E ok in \<open>simp_all add: task_exit_def split: prod.splits\<close>)
  then show ?thesis
    using Some E(4) release_all_wf[OF sched_wfD(6)[OF assms(1)]]
    by (auto simp: exit_task_def split: prod.splits intro!: sched_wf_pool)
qed (use assms in \<open>simp add: exit_task_def\<close>)

lemma exit_current_wf [wf_intros]:
  assumes "sched_wf k" "exit_current code k = Some k'"
  shows "sched_wf k'"
  using assms sched_wfD(2)[OF assms(1)]
  by (auto simp: exit_current_def split: option.splits elim!: schedule_wf[rotated]
      intro!: wake_closed_wf signal_parent_wf wake_child_waiters_wf exit_task_wf)

lemma take_first_frame: "pid (fst (take_first ss t)) = pid t \<and> ppid (fst (take_first ss t)) = ppid t
    \<and> t_fds (fst (take_first ss t)) = t_fds t \<and> t_cwd (fst (take_first ss t)) = t_cwd t
    \<and> t_state (fst (take_first ss t)) = t_state t"
  by (induction ss arbitrary: t) (auto simp: take_signal_def)

lemma deliver_slot_wf [wf_intros]:
  assumes wf: "sched_wf k" and s: "s < MAX_TASKS"
  shows "sched_wf (deliver_slot s k)"
proof (cases "tasks k ! s")
  case (Some t)
  obtain t1 b where tf: "take_first [SIGKILL, SIGABRT, SIGQUIT, SIGTERM, SIGINT] t = (t1, b)" by fastforce
  obtain t2 c where ts: "take_signal SIGCHLD t1 = (t2, c)" by fastforce
  have ok: "fdt_wf (t_fds t)" "t_cwd t < MAX_INODES"
    using tasks_wfD(3)[OF sched_wfD(1)[OF wf] s Some] by (auto simp: task_ok_def)
  have f1: "pid t1 = pid t" "ppid t1 = ppid t" "t_fds t1 = t_fds t" "t_cwd t1 = t_cwd t"
    using take_first_frame[of "[SIGKILL, SIGABRT, SIGQUIT, SIGTERM, SIGINT]" t] tf by auto
  have f2: "pid t2 = pid t" "ppid t2 = ppid t" "t_fds t2 = t_fds t" "t_cwd t2 = t_cwd t"
    using ts f1 by (auto simp: take_signal_def split: if_splits)
  have w1: "sched_wf (set_slot s (Some t1) k)" by (rule set_slot_wf[OF wf Some s]) (use f1 ok in simp_all)
  have w2: "sched_wf (set_slot s (Some (if g then t2\<lparr>t_state := Ready, waiting_for_pid := 0\<rparr> else t2)) k)" for g
    by (rule set_slot_wf[OF wf Some s]) (use f2 ok in simp_all)
  show ?thesis
  proof (cases "t_state t = Zombie \<or> pending_signals t = 0")
    case False
    then have "deliver_slot s k = (if b then wake_child_waiters (pid t1) (ppid t1) (exit_task s 1 (set_slot s (Some t1) k))
      else set_slot s (Some (if c \<and> waiting_for_pid t2 \<noteq> 0 then t2\<lparr>t_state := Ready, waiting_for_pid := 0\<rparr> else t2)) k)"
      using Some tf ts by (simp add: deliver_slot_def)
    then show ?thesis using w1 w2 s by (simp add: wake_child_waiters_wf exit_task_wf)
  qed (use Some wf in \<open>simp add: deliver_slot_def\<close>)
qed (use wf in \<open>simp add: deliver_slot_def\<close>)

lemma deliver_all_wf [wf_intros]:
  assumes "sched_wf k"
  shows "sched_wf (deliver_all_signals k)"
proof -
  have "(\<forall>i \<in> set is. i < MAX_TASKS) \<Longrightarrow> sched_wf (fold deliver_slot is k)" for "is"
    using assms by (induction "is" arbitrary: k) (auto intro: deliver_slot_wf)
  then show ?thesis unfolding deliver_all_signals_def by simp
qed

lemma tick_wf [wf_intros]: "sched_wf k \<Longrightarrow> tick k = Some k' \<Longrightarrow> sched_wf k'"
  by (auto simp: tick_def Let_def split: if_splits intro: deliver_all_wf elim!: schedule_wf[rotated])

section \<open>New tasks and reaped tasks\<close>

lemma tasks_wf_install:
  assumes wf: "tasks_wf np ts" and s: "0 < s" "s < MAX_TASKS" and np: "np < np + 1"
    and t: "pid t = np" "ppid t < np" "fdt_wf (t_fds t)" "t_cwd t < MAX_INODES"
  shows "tasks_wf (np + 1) (ts[s := Some t])"
  unfolding tasks_wf_def
proof (intro conjI allI impI)
  note D = tasks_wfD[OF wf]
  have old: "task_ok (np + 1) r u" "pid u \<noteq> np" if "r < MAX_TASKS" "ts ! r = Some u" for r u
    using D(3)[OF that] np by (auto simp: task_ok_def)
  show "length (ts[s := Some t]) = MAX_TASKS" using D(1) by simp
  show "ts[s := Some t] ! 0 \<noteq> None" using D(2) s by simp
  show "task_ok (np + 1) r u" if "r < MAX_TASKS" "ts[s := Some t] ! r = Some u" for r u
    using that old(1)[of r u] D(1) np t by (cases "r = s") (auto simp: task_ok_def)
  have at: "ts[s := Some t] ! r = (if r = s then Some t else ts ! r)" if "r < MAX_TASKS" for r
    using that D(1) by (simp add: nth_list_update)
  show "r = r'" if "r < MAX_TASKS" "r' < MAX_TASKS" "ts[s := Some t] ! r = Some u" "ts[s := Some t] ! r' = Some u'" "pid u = pid u'" for r r' u u'
    using that(3-5) old(2)[OF that(1)] old(2)[OF that(2)] D(4)[OF that(1,2)] t(1)
    unfolding at[OF that(1)] at[OF that(2)] by (metis option.inject)
qed

lemma install_wf:
  assumes wf: "sched_wf k" and s: "first_vacant k = Some s" and np: "next_pid k < next_pid k + 1"
    and t: "pid t = next_pid k" "ppid t < next_pid k" "fdt_wf (t_fds t)" "t_cwd t < MAX_INODES"
  shows "sched_wf (install s t (k\<lparr>next_pid := next_pid k + 1, guard_phys := (guard_phys k)[s := g]\<rparr>))"
proof -
  note D = sched_wfD[OF wf]
  have s': "0 < s" "s < MAX_TASKS" using s scan_SomeD[of "vacant k" 1 MAX_TASKS s] by (auto simp: first_vacant_def)
  have "(tasks k)[s := Some t] ! current k \<noteq> None"
    using D(2,3) tasks_wfD(1)[OF D(1)] by (cases "s = current k") auto
  then show ?thesis
    using tasks_wf_install[OF D(1) s' np t] D
    unfolding install_def sched_wf_def by (auto split: if_splits)
qed

lemma current_pid_less: "sched_wf k \<Longrightarrow> current_pid k < next_pid k"
  using cur_task_ok sched_wfD(3) by (fastforce simp: current_pid_def task_ok_def split: option.splits)

lemma add_user_task_wf:
  assumes wf: "sched_wf k" and np: "next_pid k < next_pid k + 1"
    and mk: "mk = task_new_user ksp tos pt parent" "parent < next_pid k"
    and f: "\<And>t. pid (f t) = pid t" "\<And>t. ppid (f t) = ppid t" "\<And>n. fdt_wf (t_fds (f (fst (mk n))))"
      "\<And>n. t_cwd (f (fst (mk n))) < MAX_INODES"
  shows "sched_wf (fst (add_user_task g mk f k))"
proof (cases "first_vacant k")
  case (Some i)
  have "sched_wf (install i (f (fst (mk (next_pid k)))) (k\<lparr>next_pid := next_pid k + 1, guard_phys := (guard_phys k)[i := g]\<rparr>))"
    by (rule install_wf[OF wf Some np]) (use mk f in \<open>simp_all add: task_new_user_def\<close>)
  then show ?thesis using Some mk(1) by (simp add: add_user_task_def task_new_user_def)
qed (use wf in \<open>simp add: add_user_task_def\<close>)

lemma spawn_fn_wf [wf_intros]:
  assumes wf: "sched_wf k" and np: "next_pid k < next_pid k + 1"
  shows "sched_wf (fst (spawn_fn entry k))"
proof -
  have i: "sched_wf (install i t (k\<lparr>k_mem := m, next_pid := next_pid k + 1, guard_phys := (guard_phys k)[i := g]\<rparr>))"
    if "first_vacant k = Some i" "pid t = next_pid k" "ppid t = current_pid k" "t_fds t = fdt_new" "t_cwd t = 0" for i t m g
    using install_wf[of "k\<lparr>k_mem := m\<rparr>" i t g] wf np that current_pid_less[OF wf]
    by (simp add: first_vacant_def vacant_def[abs_def])
  show ?thesis
    unfolding spawn_fn_def using wf
    by (auto simp: Let_def task_new_kernel_def split: option.splits prod.splits intro!: i)
qed

lemma vacant_mem [simp]: "first_vacant (k\<lparr>k_mem := m\<rparr>) = first_vacant k" "first_vacant (k\<lparr>k_pool := p\<rparr>) = first_vacant k"
  "current_pid (k\<lparr>k_mem := m\<rparr>) = current_pid k"
  by (simp_all add: first_vacant_def vacant_def[abs_def] current_pid_def)

lemma spawn_user_wf [wf_intros]:
  assumes wf: "sched_wf k" and np: "next_pid k < next_pid k + 1"
  shows "sched_wf (fst (spawn_user prog k))"
  unfolding spawn_user_def using wf np current_pid_less[OF wf]
  by (auto simp: Let_def task_new_user_def split: option.splits prod.splits intro!: add_user_task_wf)

lemma spawn_elf_wf [wf_intros]:
  assumes wf: "sched_wf k" and np: "next_pid k < next_pid k + 1"
  shows "sched_wf (fst (spawn_elf seed data argv0 k))"
  unfolding spawn_elf_def using wf np current_pid_less[OF wf]
  by (auto simp: Let_def task_new_user_def split: option.splits prod.splits intro!: add_user_task_wf)

lemma spawn_fork_wf [wf_intros]:
  assumes wf: "sched_wf k" and np: "next_pid k < next_pid k + 1"
  shows "sched_wf (fst (spawn_fork ip sp regs cs k))"
proof -
  have "fdt_wf (t_fds t)" "t_cwd t < MAX_INODES" "pid t < next_pid k" if "cur_task k = Some t" for t
    using cur_task_ok[OF wf that] by (auto simp: task_ok_def)
  then show ?thesis
    unfolding spawn_fork_def using wf np inherit_all_wf[OF sched_wfD(6)[OF wf]]
    by (auto simp: Let_def task_new_user_def split: option.splits prod.splits intro!: add_user_task_wf sched_wf_pool)
qed

lemma execve_current_wf [wf_intros]: "sched_wf k \<Longrightarrow> sched_wf (fst (execve_current seed data a0 av ev k))"
  unfolding execve_current_def
  by (auto simp: Let_def split: option.splits prod.splits intro!: upd_task_wf)

lemma reap_wf:
  assumes wf: "sched_wf k" and s: "0 < s" "s < MAX_TASKS" "s \<noteq> current k"
  shows "sched_wf (set_slot s None k)"
proof -
  note D = sched_wfD[OF wf]
  have "tasks_wf (next_pid k) ((tasks k)[s := None])"
    using tasks_wfD[OF D(1)] s by (intro tasks_wf_map[OF D(1)]) (auto simp: nth_list_update split: if_splits)
  then show ?thesis using D(2,3) tasks_wfD(1)[OF D(1)] s
    unfolding set_slot_def by (intro sched_wf_tasks wf) auto
qed

lemma zombie_child_not_current:
  assumes wf: "sched_wf k" and z: "zombie_child k (current_pid k) target s" "0 < s" "s < MAX_TASKS"
  shows "s \<noteq> current k"
proof
  assume "s = current k"
  with z obtain t where "cur_task k = Some t" "ppid t = pid t"
    by (auto simp: zombie_child_def current_pid_def split: option.splits)
  with cur_task_ok[OF wf] \<open>s = current k\<close> z(2) show False by (auto simp: task_ok_def)
qed

lemma waitpid_pass_wf [wf_intros]:
  assumes wf: "sched_wf k" and w: "waitpid_pass (current_pid k) target nh k = Some (k', r)"
  shows "sched_wf k'"
proof (cases "scan (zombie_child k (current_pid k) target) 1 MAX_TASKS")
  case (Some s)
  then have "0 < s" "s < MAX_TASKS" "zombie_child k (current_pid k) target s" by (auto simp: scan_Some)
  with reap_wf[OF wf] zombie_child_not_current[OF wf] w Some show ?thesis
    by (auto simp: waitpid_pass_def split: option.splits)
next
  case None
  with w wf show ?thesis
    by (auto simp: waitpid_pass_def split: if_splits intro: upd_task_wf elim!: schedule_wf[rotated])
qed

lemma block_wf [wf_intros]:
  "sched_wf k \<Longrightarrow> block_on_tty k = Some k' \<Longrightarrow> sched_wf k'"
  "sched_wf k \<Longrightarrow> block_on_pipe i k = Some k' \<Longrightarrow> sched_wf k'"
  by (auto simp: block_on_tty_def block_on_pipe_def block_current_def sched_wfD split: if_splits
      intro!: upd_task_wf sched_wf_waiters elim!: schedule_wf[rotated])

lemma sleep_pass_wf [wf_intros]: "sched_wf k \<Longrightarrow> sleep_pass w k = Some (k', r) \<Longrightarrow> sched_wf k'"
  by (auto simp: sleep_pass_def split: if_splits elim!: schedule_wf[rotated])

lemma raise_signal_to_pid_wf [wf_intros]: "sched_wf k \<Longrightarrow> sched_wf (fst (raise_signal_to_pid p s k))"
  by (auto simp: raise_signal_to_pid_def upd_task_wf split: option.splits)

lemma kill_task_wf [wf_intros]: "sched_wf k \<Longrightarrow> sched_wf (fst (kill_task s k))"
  by (auto simp: kill_task_def upd_task_wf split: option.splits)

lemma page_fault_wf [wf_intros]: "sched_wf k \<Longrightarrow> sched_wf (fst (handle_user_page_fault va k))"
  by (auto simp: handle_user_page_fault_def Let_def split: option.splits prod.splits)

section \<open>Lethal signals\<close>

definition lethal :: "task \<Rightarrow> bool" where
  "lethal t \<longleftrightarrow> (\<exists>s \<in> {SIGKILL, SIGABRT, SIGQUIT, SIGTERM, SIGINT}. pending t s)"

lemma take_first_result: "snd (take_first ss t) \<longleftrightarrow> (\<exists>s \<in> set ss. pending t s)"
proof (induction ss arbitrary: t)
  case (Cons s ss)
  show ?case
  proof (cases "pending t s")
    case True
    then show ?thesis using take_signal_result[of s t] by (auto split: prod.splits)
  next
    case False
    then have "take_signal s t = (t, False)" by (simp add: take_signal_def pending_def)
    then show ?thesis using Cons False by simp
  qed
qed simp

text \<open>What delivery to another slot can do to a task: wake it.\<close>

definition same_life :: "task \<Rightarrow> task \<Rightarrow> bool" where
  "same_life t t' \<longleftrightarrow> pending_signals t' = pending_signals t \<and> (t_state t' = Zombie \<longleftrightarrow> t_state t = Zombie)
     \<and> exit_code t' = exit_code t \<and> pid t' = pid t"

lemma wake_child_waiters_at:
  assumes "s < length (tasks k)" "tasks k ! s = Some t"
  shows "\<exists>t'. tasks (wake_child_waiters p pp k) ! s = Some t' \<and> same_life t t' \<and> t_fds t' = t_fds t"
  using assms by (auto simp: wake_child_waiters_def same_life_def)

lemma exit_task_tasks:
  "tasks k ! s = Some t \<Longrightarrow> tasks (exit_task s c k) = (tasks k)[s := Some (fst (task_exit c t (k_pool k)))]"
  by (simp add: exit_task_def split: prod.splits)

lemma deliver_other:
  assumes wf: "sched_wf k" and s: "s < MAX_TASKS" "tasks k ! s = Some t" and r: "r \<noteq> s" "r < MAX_TASKS"
  shows "\<exists>t'. tasks (deliver_slot r k) ! s = Some t' \<and> same_life t t'"
proof (cases "tasks k ! r")
  case (Some u)
  obtain t1 b where tf: "take_first [SIGKILL, SIGABRT, SIGQUIT, SIGTERM, SIGINT] u = (t1, b)" by fastforce
  have len: "length (tasks k) = MAX_TASKS" using tasks_wfD(1)[OF sched_wfD(1)[OF wf]] .
  let ?k1 = "set_slot r (Some t1) k"
  have "tasks (exit_task r 1 ?k1) ! s = Some t" "s < length (tasks (exit_task r 1 ?k1))"
    using exit_task_tasks[of ?k1 r t1 1] s r len by simp_all
  then have "\<exists>t'. tasks (wake_child_waiters (pid t1) (ppid t1) (exit_task r 1 ?k1)) ! s = Some t' \<and> same_life t t'"
    using wake_child_waiters_at by blast
  moreover have "same_life t t" by (simp add: same_life_def)
  ultimately show ?thesis using Some tf s r
    by (cases b) (auto simp: deliver_slot_def split: prod.splits)
qed (use s in \<open>simp add: deliver_slot_def same_life_def\<close>)

lemma deliver_own:
  assumes wf: "sched_wf k" and s: "s < MAX_TASKS" "tasks k ! s = Some t" "t_state t \<noteq> Zombie" "lethal t"
  shows "\<exists>t'. tasks (deliver_slot s k) ! s = Some t' \<and> t_state t' = Zombie \<and> exit_code t' = 1 \<and> pid t' = pid t"
proof -
  obtain t1 b where tf: "take_first [SIGKILL, SIGABRT, SIGQUIT, SIGTERM, SIGINT] t = (t1, b)" by fastforce
  have b: b using take_first_result[of "[SIGKILL, SIGABRT, SIGQUIT, SIGTERM, SIGINT]" t] tf s(4) by (simp add: lethal_def)
  have p: "pending_signals t \<noteq> 0" using s(4) by (auto simp: lethal_def pending_def)
  have len: "length (tasks k) = MAX_TASKS" using tasks_wfD(1)[OF sched_wfD(1)[OF wf]] .
  have f: "pid t1 = pid t" "t_fds t1 = t_fds t" using take_first_frame[of "[SIGKILL, SIGABRT, SIGQUIT, SIGTERM, SIGINT]" t] tf by auto
  have ok: "fdt_wf (t_fds t1)" using f tasks_wfD(3)[OF sched_wfD(1)[OF wf] s(1,2)] by (simp add: task_ok_def)
  let ?k1 = "set_slot s (Some t1) k"
  have "tasks (exit_task s 1 ?k1) ! s = Some (fst (task_exit 1 t1 (k_pool k)))" "s < length (tasks (exit_task s 1 ?k1))"
    using exit_task_tasks[of ?k1 s t1 1] s len by simp_all
  from wake_child_waiters_at[OF this(2,1)] show ?thesis
    using s(2,3) tf b p task_exit_effect[OF ok, of 1 "k_pool k"] f(1)
    by (fastforce simp: deliver_slot_def same_life_def)
qed

lemma deliver_zombie_stays:
  assumes wf: "sched_wf k" and s: "s < MAX_TASKS" "tasks k ! s = Some t" "t_state t = Zombie" and r: "r < MAX_TASKS"
  shows "\<exists>t'. tasks (deliver_slot r k) ! s = Some t' \<and> same_life t t'"
  using deliver_other[OF wf s(1,2) _ r] s(2,3) by (cases "r = s") (auto simp: deliver_slot_def same_life_def)

lemma deliver_fold:
  assumes "\<forall>r \<in> set rs. r < MAX_TASKS" "sched_wf k" "s < MAX_TASKS" "tasks k ! s = Some t"
    "t_state t = Zombie \<and> exit_code t = 1 \<or> t_state t \<noteq> Zombie \<and> lethal t \<and> s \<in> set rs"
  shows "\<exists>t'. tasks (fold deliver_slot rs k) ! s = Some t' \<and> t_state t' = Zombie \<and> exit_code t' = 1 \<and> pid t' = pid t"
  using assms
proof (induction rs arbitrary: k t)
  case (Cons r rs)
  then have r: "r < MAX_TASKS" and wf': "sched_wf (deliver_slot r k)" by (auto intro: deliver_slot_wf)
  consider "t_state t = Zombie" "exit_code t = 1" | "t_state t \<noteq> Zombie" "lethal t" "r = s"
    | "t_state t \<noteq> Zombie" "lethal t" "r \<noteq> s" "s \<in> set rs" using Cons.prems(5) by auto
  then show ?case
  proof cases
    case 1
    then obtain t' where "tasks (deliver_slot r k) ! s = Some t'" "same_life t t'"
      using deliver_zombie_stays Cons.prems r by blast
    with 1 Cons.IH[OF _ wf' Cons.prems(3)] Cons.prems(1) show ?thesis by (auto simp: same_life_def)
  next
    case 2
    then obtain t' where "tasks (deliver_slot r k) ! s = Some t'" "t_state t' = Zombie" "exit_code t' = 1" "pid t' = pid t"
      using deliver_own[OF Cons.prems(2,3,4)] by blast
    with Cons.IH[OF _ wf' Cons.prems(3)] Cons.prems(1) show ?thesis by auto
  next
    case 3
    then obtain t' where t': "tasks (deliver_slot r k) ! s = Some t'" "same_life t t'"
      using deliver_other[OF Cons.prems(2,3,4) _ r] by blast
    then have "lethal t' = lethal t" by (simp add: same_life_def lethal_def pending_def)
    with t' 3 Cons.IH[OF _ wf' Cons.prems(3) t'(1)] Cons.prems(1) show ?thesis by (auto simp: same_life_def)
  qed
qed simp

section \<open>Waiting for children\<close>

lemma waitpid_reaps:
  assumes "scan (zombie_child k p target) 1 MAX_TASKS = Some s" "tasks k ! s = Some t"
  shows "waitpid_pass p target nh k = Some (set_slot s None k, Done (sint (pid t), Some (push_bit 8 (exit_code t AND 0xFF))))"
  using assms by (simp add: waitpid_pass_def)

lemma waitpid_no_child:
  assumes "\<And>s. 0 < s \<Longrightarrow> s < MAX_TASKS \<Longrightarrow> \<not> live_child k p s \<and> \<not> zombie_child k p target s"
  shows "waitpid_pass p target nh k = Some (k, Done (- 10, None))"
proof -
  have "scan (zombie_child k p target) 1 MAX_TASKS = None" "scan (live_child k p) 1 MAX_TASKS = None"
    using assms by (auto simp: scan_None)
  then show ?thesis by (simp add: waitpid_pass_def)
qed

end
