(* ===== verification/Syscall.thy ===== *)
theory Syscall
  imports SchedulerInv
begin

text \<open>
  \<^verbatim>\<open>kernel/src/syscall/mod.rs\<close>: the system call handlers and the dispatcher.  Arguments are
  the 64-bit registers.  A handler returns the new kernel state and a reply, or \<open>None\<close> for a
  panic.  The reply says what the caller sees: a value at once; a value once the scheduler comes
  back to the task; that the handler's loop runs again when the task is resumed (blocking reads,
  \<^verbatim>\<open>wait4\<close>); that it sleeps until a tick; or that the task is gone.  What the hardware and the
  build provide (entropy, the callee-saved registers of the caller, the version string) is the
  record \<open>env\<close>.
\<close>

datatype reply = Reply int | Later int | Retry | SleepUntil u64 | Gone

type_synonym sysres = "(kernel \<times> reply) option"

record env =
  e_seed :: "nat \<Rightarrow> u64"
  e_callee_saved :: "u64 list"
  e_version :: bytes

definition isize :: "nat \<Rightarrow> int" where
  "isize n = sint (word_of_nat n :: u64)"

definition ret :: "int \<Rightarrow> kernel \<Rightarrow> sysres" where
  "ret v k = Some (k, Reply v)"

definition ret_fd :: "int \<Rightarrow> kernel \<times> nat option \<Rightarrow> sysres" where
  "ret_fd err r = (case r of (k, Some fd) \<Rightarrow> ret (isize fd) k | (k, None) \<Rightarrow> ret err k)"

section \<open>Paths\<close>

definition read_path :: "kernel \<Rightarrow> nat \<Rightarrow> bytes option" where
  "read_path k ptr =
     (if ptr = 0 then None
      else let len = (case scan (\<lambda>i. user_rd8 k (ptr + i) = 0) 0 256 of Some n \<Rightarrow> n | None \<Rightarrow> 256);
               s = user_read k ptr len
           in if utf8_valid s then Some s else None)"

text \<open>\<^verbatim>\<open>Some(s) if !s.is_empty() => s, _ => return err\<close>.\<close>

definition with_path :: "nat \<Rightarrow> int \<Rightarrow> (bytes \<Rightarrow> kernel \<Rightarrow> sysres) \<Rightarrow> kernel \<Rightarrow> sysres" where
  "with_path ptr err f k =
     (case read_path k ptr of None \<Rightarrow> ret err k | Some s \<Rightarrow> if s = [] then ret err k else f s k)"

section \<open>read and write\<close>

definition echo_stdin_byte :: "u8 \<Rightarrow> kernel \<Rightarrow> kernel" where
  "echo_stdin_byte b k =
     k\<lparr>console := console k @
        (if b = 0x0D \<or> b = 0x0A then serial_print_bytes [0x0D, 0x0A]
         else if b = 0x7F \<or> b = 0x08 then serial_print_bytes [0x08, 0x20, 0x08]
         else [b])\<rparr>"

definition icrnl :: "u8 \<Rightarrow> u8" where
  "icrnl b = (if b = 0x0D then 0x0A else b)"

definition SCANCODE_MAP :: bytes where
  "SCANCODE_MAP =
     [0, 0] @ ascii ''1234567890-='' @ [0x08, 0x09] @ ascii ''qwertyuiop[]'' @ [0x0A, 0]
     @ ascii ''asdfghjkl;'' @ [0x27, 0x60, 0, 0x5C] @ ascii ''zxcvbnm,./'' @ [0, 0, 0, 0x20]"

definition scancode_to_ascii :: "u8 \<Rightarrow> u8 option" where
  "scancode_to_ascii sc =
     (if sc AND 0x80 \<noteq> 0 then None
      else if unat sc < length SCANCODE_MAP then
        (if SCANCODE_MAP ! unat sc \<noteq> 0 then Some (SCANCODE_MAP ! unat sc) else None)
      else None)"

definition give_byte :: "nat \<Rightarrow> u8 \<Rightarrow> kernel \<Rightarrow> sysres" where
  "give_byte buf b k = ret 1 (user_write buf [icrnl b] (echo_stdin_byte b k))"

definition read_stdin :: "nat \<Rightarrow> kernel \<Rightarrow> sysres" where
  "read_stdin buf k =
     (case ring_pop (serial_rx k) of
        (rx, Some b) \<Rightarrow> give_byte buf b (k\<lparr>serial_rx := rx\<rparr>)
      | (rx, None) \<Rightarrow>
          (case ring_pop (kbd_rx k) of
             (kb, sc) \<Rightarrow>
               let k1 = k\<lparr>kbd_rx := kb\<rparr> in
               case Option.bind sc scancode_to_ascii of
                 Some c \<Rightarrow> give_byte buf c k1
               | None \<Rightarrow> map_option (\<lambda>k. (k, Retry)) (block_on_tty k1)))"

definition read_pipe :: "nat \<Rightarrow> nat \<Rightarrow> nat \<Rightarrow> kernel \<Rightarrow> sysres" where
  "read_pipe i buf len k =
     (case pipe_read i len (k_pool k) of
        (pool, out) \<Rightarrow>
          let k1 = user_write buf out (k\<lparr>k_pool := pool\<rparr>) in
          if out \<noteq> [] then ret (isize (length out)) k1
          else if \<not> pipe_write_open i (k_pool k1) then ret 0 k1
          else map_option (\<lambda>k. (k, Retry)) (block_on_pipe i k1))"

definition random_fill :: "env \<Rightarrow> nat \<Rightarrow> bytes" where
  "random_fill ev len = take len (concat (map (\<lambda>i. le_bytes 8 (e_seed ev i)) [0..<(len + 7) div 8]))"

definition sys_read :: "env \<Rightarrow> nat \<Rightarrow> nat \<Rightarrow> nat \<Rightarrow> kernel \<Rightarrow> sysres" where
  "sys_read ev fd buf len k =
     (if len = 0 then ret 0 k
      else if buf = 0 then ret (- 14) k
      else case current_fd_get fd k of
        None \<Rightarrow> ret (- 9) k
      | Some entry \<Rightarrow>
          (case entry of
             Stdin \<Rightarrow> read_stdin buf k
           | VfsFile inode offset w \<Rightarrow>
               let out = inode_read (k_fs k) inode (unat offset) len;
                   k1 = user_write buf out k;
                   k2 = (if out \<noteq> [] then current_fd_set_offset fd (offset + word_of_nat (length out)) k1 else k1)
               in ret (isize (length out)) k2
           | PipeRead i \<Rightarrow> read_pipe i buf len k
           | SocketPair r w \<Rightarrow> read_pipe r buf len k
           | DevNull \<Rightarrow> ret 0 k
           | DevZero \<Rightarrow> ret (isize len) (user_write buf (replicate len 0) k)
           | DevUrandom \<Rightarrow> ret (isize len) (user_write buf (random_fill ev len) k)
           | VfsDir _ _ \<Rightarrow> ret (- 21) k
           | _ \<Rightarrow> ret (- 9) k))"

definition write_pipe :: "nat \<Rightarrow> bytes \<Rightarrow> kernel \<Rightarrow> sysres" where
  "write_pipe i data k =
     (if \<not> pipe_read_open i (k_pool k) then ret (- 32) k
      else case pipe_write i data (k_pool k) of
        (pool, n) \<Rightarrow>
          let k1 = k\<lparr>k_pool := pool\<rparr> in
          ret (isize n) (if n > 0 then wake_pipe_waiter i k1 else k1))"

definition sys_write :: "nat \<Rightarrow> nat \<Rightarrow> nat \<Rightarrow> kernel \<Rightarrow> sysres" where
  "sys_write fd buf len k =
     (if len = 0 then ret 0 k
      else if buf = 0 then ret (- 14) k
      else case current_fd_get fd k of
        None \<Rightarrow> ret (- 9) k
      | Some entry \<Rightarrow>
          let data = user_read k buf len;
              tty = ret (isize len) (k\<lparr>console := console k @ serial_print_bytes data\<rparr>)
          in (case entry of
             Stdout \<Rightarrow> tty
           | Stderr \<Rightarrow> tty
           | VfsFile inode offset writable \<Rightarrow>
               if \<not> writable then ret (- 13) k
               else (case inode_write inode (unat offset) data (k_fs k) of
                 (fs, n) \<Rightarrow>
                   let k1 = k\<lparr>k_fs := fs\<rparr> in
                   ret (isize n) (if n > 0 then current_fd_set_offset fd (offset + word_of_nat n) k1 else k1))
           | PipeWrite i \<Rightarrow> write_pipe i data k
           | SocketPair r w \<Rightarrow> write_pipe w data k
           | DevNull \<Rightarrow> ret (isize len) k
           | DevZero \<Rightarrow> ret (isize len) k
           | DevUrandom \<Rightarrow> ret (isize len) k
           | VfsDir _ _ \<Rightarrow> ret (- 21) k
           | _ \<Rightarrow> ret (- 9) k))"

section \<open>open and close\<close>

definition open_dev_path :: "bytes \<Rightarrow> fd_entry option" where
  "open_dev_path path =
     (if path = ascii ''/dev/null'' then Some DevNull
      else if path = ascii ''/dev/zero'' then Some DevZero
      else if path = ascii ''/dev/urandom'' \<or> path = ascii ''/dev/random'' \<or> path = ascii ''/dev/hwrng''
        then Some DevUrandom
      else if path = ascii ''/dev/tty'' \<or> path = ascii ''/dev/console'' then Some Stdout
      else None)"

text \<open>The common body of \<^verbatim>\<open>sys_open\<close> and \<^verbatim>\<open>sys_openat\<close>, which differ in the directory.\<close>

definition open_at :: "nat \<Rightarrow> bytes \<Rightarrow> u64 \<Rightarrow> kernel \<Rightarrow> sysres" where
  "open_at cwd path flags k =
     (let writable = (flags AND 3 \<noteq> 0); create = (flags AND 0x40 \<noteq> 0);
          truncate = (flags AND 0x200 \<noteq> 0); append = (flags AND 0x400 \<noteq> 0);
          k1 = (if create then k\<lparr>k_fs := fst (ramfs_touch path cwd 0 0 (k_fs k))\<rparr> else k)
      in case open_check (k_fs k1) path cwd 0 0 writable of
           Some inode \<Rightarrow>
             let k2 = (if truncate \<and> writable then k1\<lparr>k_fs := fst (inode_write inode 0 [] (k_fs k1))\<rparr> else k1);
                 offset = (if append \<and> writable then word_of_nat (inode_size (k_fs k2) inode) else 0)
             in ret_fd (- 24) (current_fd_alloc (VfsFile inode offset writable) k2)
         | None \<Rightarrow>
             if writable then ret (- 2) k1
             else (case open_dir (k_fs k1) path cwd of
                     Some dir_inode \<Rightarrow> ret_fd (- 24) (current_fd_alloc (VfsDir dir_inode 0) k1)
                   | None \<Rightarrow> ret (- 2) k1))"

definition sys_open :: "nat \<Rightarrow> u64 \<Rightarrow> kernel \<Rightarrow> sysres" where
  "sys_open path_ptr flags k =
     (if path_ptr = 0 then ret (- 14) k
      else with_path path_ptr (- 2) (\<lambda>path k.
        case open_dev_path path of
          Some dev \<Rightarrow> ret_fd (- 24) (current_fd_alloc dev k)
        | None \<Rightarrow> open_at (current_cwd k) path flags k) k)"

definition AT_FDCWD :: u64 where "AT_FDCWD = - 100"

definition at_cwd :: "u64 \<Rightarrow> kernel \<Rightarrow> nat" where
  "at_cwd dirfd k =
     (if dirfd = AT_FDCWD then current_cwd k
      else case current_fd_get (unat dirfd) k of
        Some (VfsDir inode _) \<Rightarrow> inode
      | Some (VfsFile inode _ _) \<Rightarrow> inode
      | _ \<Rightarrow> current_cwd k)"

definition sys_openat :: "u64 \<Rightarrow> nat \<Rightarrow> u64 \<Rightarrow> kernel \<Rightarrow> sysres" where
  "sys_openat dirfd path_ptr flags k =
     (if path_ptr = 0 then ret (- 14) k
      else with_path path_ptr (- 2) (\<lambda>path k.
        case open_dev_path path of
          Some dev \<Rightarrow> ret_fd (- 24) (current_fd_alloc dev k)
        | None \<Rightarrow> open_at (at_cwd dirfd k) path flags k) k)"

definition wake_if_closed :: "nat \<Rightarrow> kernel \<Rightarrow> kernel" where
  "wake_if_closed i k = (if \<not> pipe_write_open i (k_pool k) then wake_pipe_waiter i k else k)"

definition sys_close :: "nat \<Rightarrow> kernel \<Rightarrow> sysres" where
  "sys_close fd k =
     (case current_fd_close fd k of
        (k1, None) \<Rightarrow> ret (- 9) k1
      | (k1, Some (PipeRead i)) \<Rightarrow> ret 0 (k1\<lparr>k_pool := close_pipe_read i (k_pool k1)\<rparr>)
      | (k1, Some (PipeWrite i)) \<Rightarrow>
          ret 0 (wake_if_closed i (k1\<lparr>k_pool := close_pipe_write i (k_pool k1)\<rparr>))
      | (k1, Some (SocketPair r w)) \<Rightarrow>
          ret 0 (wake_if_closed w (k1\<lparr>k_pool := close_pipe_write w (close_pipe_read r (k_pool k1))\<rparr>))
      | (k1, Some _) \<Rightarrow> ret 0 k1)"

section \<open>stat\<close>

record stat =
  st_dev :: u64
  st_ino :: u64
  st_nlink :: u64
  st_mode :: u32
  st_uid :: u32
  st_gid :: u32
  st_rdev :: u64
  st_size :: u64
  st_blksize :: u64
  st_blocks :: u64

definition stat_zero :: stat where
  "stat_zero = \<lparr>st_dev = 0, st_ino = 0, st_nlink = 0, st_mode = 0, st_uid = 0, st_gid = 0,
     st_rdev = 0, st_size = 0, st_blksize = 0, st_blocks = 0\<rparr>"

text \<open>The 144 bytes of the C structure: the padding, the times and the tail stay zero.\<close>

definition stat_bytes :: "stat \<Rightarrow> bytes" where
  "stat_bytes s =
     le_bytes 8 (st_dev s) @ le_bytes 8 (st_ino s) @ le_bytes 8 (st_nlink s)
     @ le_bytes 4 (st_mode s) @ le_bytes 4 (st_uid s) @ le_bytes 4 (st_gid s) @ replicate 4 0
     @ le_bytes 8 (st_rdev s) @ le_bytes 8 (st_size s) @ le_bytes 8 (st_blksize s)
     @ le_bytes 8 (st_blocks s) @ replicate 72 0"

definition inode_stat :: "nat \<Rightarrow> inode \<Rightarrow> stat" where
  "inode_stat idx n =
     (let dir = (i_kind n = Dir); sz = (if dir then 4096 else word_of_nat (i_size n)) in
      stat_zero\<lparr>st_dev := 1, st_ino := word_of_nat idx, st_nlink := 1,
                st_mode := (if dir then 0x4000 else 0x8000) OR ucast (i_mode n),
                st_uid := ucast (i_uid n), st_gid := ucast (i_gid n), st_size := sz,
                st_blksize := 4096, st_blocks := (sz + 511) div 512\<rparr>)"

definition fill_inode_stat :: "nat \<Rightarrow> nat \<Rightarrow> kernel \<Rightarrow> sysres" where
  "fill_inode_stat buf idx k =
     (if buf = 0 then ret (- 14) k
      else case stat_inode_by_idx (k_fs k) idx of
        Some n \<Rightarrow> ret 0 (user_write buf (stat_bytes (inode_stat idx n)) k)
      | None \<Rightarrow> ret (- 2) k)"

definition tty_stat :: "nat \<Rightarrow> stat" where
  "tty_stat fd = stat_zero\<lparr>st_dev := 5, st_ino := word_of_nat fd + 1, st_nlink := 1, st_mode := 0x2190,
     st_rdev := 0x440, st_blksize := 1024\<rparr>"

definition dev_stat :: "u64 \<Rightarrow> stat" where
  "dev_stat rdev = stat_zero\<lparr>st_dev := 1, st_ino := rdev AND 0xFF, st_nlink := 1, st_mode := 0x2180,
     st_rdev := rdev, st_blksize := 4096\<rparr>"

definition dev_path_stat :: "bytes \<Rightarrow> stat option" where
  "dev_path_stat path =
     (if path = ascii ''/dev/null'' then Some (dev_stat 0x103)
      else if path = ascii ''/dev/zero'' then Some (dev_stat 0x105)
      else if path = ascii ''/dev/urandom'' \<or> path = ascii ''/dev/random'' then Some (dev_stat 0x109)
      else if path = ascii ''/dev/tty'' \<or> path = ascii ''/dev/console'' then Some (tty_stat 0)
      else None)"

definition stat_path :: "nat \<Rightarrow> bytes \<Rightarrow> nat \<Rightarrow> kernel \<Rightarrow> sysres" where
  "stat_path cwd path buf k =
     (case dev_path_stat path of
        Some s \<Rightarrow> ret 0 (user_write buf (stat_bytes s) k)
      | None \<Rightarrow>
          (case resolve (k_fs k) path cwd of
             None \<Rightarrow> ret (- 2) k
           | Some idx \<Rightarrow> fill_inode_stat buf idx k))"

definition sys_stat :: "nat \<Rightarrow> nat \<Rightarrow> kernel \<Rightarrow> sysres" where
  "sys_stat path_ptr buf k =
     (if buf = 0 then ret (- 14) k
      else with_path path_ptr (- 2) (\<lambda>path k. stat_path (current_cwd k) path buf k) k)"

definition sys_fstat :: "nat \<Rightarrow> nat \<Rightarrow> kernel \<Rightarrow> sysres" where
  "sys_fstat fd buf k =
     (if buf = 0 then ret (- 14) k
      else case current_fd_get fd k of
        None \<Rightarrow> ret (- 9) k
      | Some entry \<Rightarrow>
          let tty = ret 0 (user_write buf (stat_bytes (tty_stat fd)) k);
              dev = (\<lambda>rdev. ret 0 (user_write buf (stat_bytes ((dev_stat rdev)\<lparr>st_ino := 3\<rparr>)) k))
          in (case entry of
             VfsFile inode _ _ \<Rightarrow> fill_inode_stat buf inode k
           | VfsDir inode _ \<Rightarrow> fill_inode_stat buf inode k
           | Stdin \<Rightarrow> tty | Stdout \<Rightarrow> tty | Stderr \<Rightarrow> tty
           | DevNull \<Rightarrow> dev 0x103 | DevZero \<Rightarrow> dev 0x105 | DevUrandom \<Rightarrow> dev 0x109
           | _ \<Rightarrow> ret (- 9) k))"

definition sys_newfstatat :: "u64 \<Rightarrow> nat \<Rightarrow> nat \<Rightarrow> kernel \<Rightarrow> sysres" where
  "sys_newfstatat dirfd path_ptr buf k =
     (if buf = 0 then ret (- 14) k
      else case read_path k path_ptr of
        None \<Rightarrow> ret (- 14) k
      | Some path \<Rightarrow>
          if path = [] then (if dirfd = AT_FDCWD then ret (- 22) k else sys_fstat (unat dirfd) buf k)
          else stat_path (at_cwd dirfd k) path buf k)"

section \<open>Memory\<close>

text \<open>The mapping loop of \<^verbatim>\<open>brk\<close> and \<^verbatim>\<open>mmap\<close>: a zeroed page at every address, until one fails.\<close>

fun map_zeroed :: "nat \<Rightarrow> nat list \<Rightarrow> u32 \<Rightarrow> mem \<Rightarrow> mem \<times> bool" where
  "map_zeroed pt [] prot m = (m, True)"
| "map_zeroed pt (va # vas) prot m =
     (case alloc_pages 1 m of
        (m1, None) \<Rightarrow> (m1, False)
      | (m1, Some phys) \<Rightarrow>
          (case map_user_page pt va phys prot (zero_page phys m1) of
             (m2, False) \<Rightarrow> (m2, False)
           | (m2, True) \<Rightarrow> map_zeroed pt vas prot m2))"

definition page_ceil :: "u64 \<Rightarrow> nat" where
  "page_ceil a = unat ((a + 0xFFF) AND NOT 0xFFF)"

definition sys_brk :: "u64 \<Rightarrow> kernel \<Rightarrow> sysres" where
  "sys_brk addr k =
     (let cur = current_heap_brk k; pt = current_page_table_phys k in
      if addr = 0 \<or> pt = 0 then ret (sint cur) k
      else if addr \<le> cur then ret (sint addr) (set_heap_brk addr k)
      else let lo = page_ceil cur; hi = page_ceil addr;
               vas = map (\<lambda>i. lo + i * 4096) [0..<(hi - lo) div 4096]
           in case map_zeroed (unat pt) vas (PROT_READ OR PROT_WRITE OR PROT_USER) (k_mem k) of
                (m, False) \<Rightarrow> ret (sint cur) (k\<lparr>k_mem := m\<rparr>)
              | (m, True) \<Rightarrow> ret (sint addr) (set_heap_brk addr (k\<lparr>k_mem := m\<rparr>)))"

definition mmap_prot :: "u64 \<Rightarrow> u32" where
  "mmap_prot prot =
     PROT_USER OR (if prot AND 1 \<noteq> 0 then PROT_READ else 0)
               OR (if prot AND 2 \<noteq> 0 then PROT_WRITE else 0)
               OR (if prot AND 4 \<noteq> 0 then PROT_EXEC else 0)"

definition sys_mmap :: "u64 \<Rightarrow> u64 \<Rightarrow> u64 \<Rightarrow> u64 \<Rightarrow> kernel \<Rightarrow> sysres" where
  "sys_mmap addr len prot flags k =
     (if len = 0 then ret (- 22) k
      else if flags AND 0x20 = 0 then ret (- 38) k
      else if current_page_table_phys k = 0 then ret (- 22) k
      else let n_pages = unat (len + 0xFFF) div 4096;
               base = (if addr \<noteq> 0 \<and> unat addr \<ge> USER_BASE_VA then unat addr else page_ceil (current_heap_brk k));
               vas = map (\<lambda>i. wrap_add base (i * 4096)) [0..<n_pages]
           in case map_zeroed (unat (current_page_table_phys k)) vas (mmap_prot prot) (k_mem k) of
                (m, False) \<Rightarrow> ret (- 12) (k\<lparr>k_mem := m\<rparr>)
              | (m, True) \<Rightarrow>
                  let k1 = k\<lparr>k_mem := m\<rparr>; tos = word_of_nat (wrap_add base (n_pages * 4096)) in
                  ret (isize base) (if tos > current_heap_brk k1 then set_heap_brk tos k1 else k1))"

section \<open>Pipes and descriptors\<close>

definition write_fd_pair :: "nat \<Rightarrow> nat \<Rightarrow> nat \<Rightarrow> kernel \<Rightarrow> kernel" where
  "write_fd_pair ptr a b k =
     user_write (ptr + 4) (le_bytes 4 (word_of_nat b :: u32)) (user_write ptr (le_bytes 4 (word_of_nat a :: u32)) k)"

definition sys_pipe :: "nat \<Rightarrow> kernel \<Rightarrow> sysres" where
  "sys_pipe fds_ptr k =
     (if fds_ptr = 0 then ret (- 14) k
      else case alloc_pipe (k_pool k) of
        (pool, None) \<Rightarrow> ret (- 24) (k\<lparr>k_pool := pool\<rparr>)
      | (pool, Some i) \<Rightarrow>
          (case current_fd_alloc (PipeRead i) (k\<lparr>k_pool := pool\<rparr>) of
             (k1, r_fd) \<Rightarrow>
               (case current_fd_alloc (PipeWrite i) k1 of
                  (k2, w_fd) \<Rightarrow>
                    (case (r_fd, w_fd) of
                       (Some r, Some w) \<Rightarrow> ret 0 (write_fd_pair fds_ptr r w k2)
                     | _ \<Rightarrow> ret (- 24) (k2\<lparr>k_pool := close_pipe_write i (close_pipe_read i (k_pool k2))\<rparr>)))))"

definition close_both :: "nat option \<Rightarrow> pool \<Rightarrow> pool" where
  "close_both i pool = (case i of None \<Rightarrow> pool | Some i \<Rightarrow> close_pipe_write i (close_pipe_read i pool))"

definition sys_socketpair :: "nat \<Rightarrow> kernel \<Rightarrow> sysres" where
  "sys_socketpair sv_ptr k =
     (if sv_ptr = 0 then ret (- 14) k
      else case alloc_pipe (k_pool k) of
        (pool1, a) \<Rightarrow>
          (case alloc_pipe pool1 of
             (pool2, b) \<Rightarrow>
               (case (a, b) of
                  (Some a, Some b) \<Rightarrow>
                    (case current_fd_alloc (SocketPair a b) (k\<lparr>k_pool := pool2\<rparr>) of
                       (k1, fd0) \<Rightarrow>
                         (case current_fd_alloc (SocketPair b a) k1 of
                            (k2, fd1) \<Rightarrow>
                              (case (fd0, fd1) of
                                 (Some f0, Some f1) \<Rightarrow> ret 0 (write_fd_pair sv_ptr f0 f1 k2)
                               | _ \<Rightarrow> ret (- 24) (k2\<lparr>k_pool := close_pipe_read b (close_pipe_write b
                                         (close_pipe_read a (k_pool k2)))\<rparr>))))
                | _ \<Rightarrow> ret (- 24) (k\<lparr>k_pool := close_both b (close_both a pool2)\<rparr>))))"

definition sys_dup :: "nat \<Rightarrow> kernel \<Rightarrow> sysres" where
  "sys_dup oldfd k = ret_fd (- 9) (current_fd_dup oldfd k)"

definition sys_dup2 :: "nat \<Rightarrow> nat \<Rightarrow> kernel \<Rightarrow> sysres" where
  "sys_dup2 oldfd newfd k =
     (if oldfd = newfd then ret (if current_fd_get oldfd k = None then - 9 else isize oldfd) k
      else ret_fd (- 9) (current_fd_dup2 oldfd newfd k))"

definition sys_fcntl :: "nat \<Rightarrow> nat \<Rightarrow> kernel \<Rightarrow> sysres" where
  "sys_fcntl fd cmd k =
     (if current_fd_get fd k = None then ret (- 9) k
      else if cmd = 0 then sys_dup fd k
      else if cmd = 1 \<or> cmd = 2 \<or> cmd = 4 then ret 0 k
      else if cmd = 3 then ret 2 k
      else ret (- 22) k)"

definition sys_ioctl :: "nat \<Rightarrow> nat \<Rightarrow> nat \<Rightarrow> kernel \<Rightarrow> sysres" where
  "sys_ioctl fd cmd arg k =
     (case current_fd_get fd k of
        None \<Rightarrow> ret (- 9) k
      | Some entry \<Rightarrow>
          if entry \<noteq> Stdin \<and> entry \<noteq> Stdout \<and> entry \<noteq> Stderr then ret (- 25) k
          else if cmd = 0x5413 then
            (if arg = 0 then ret (- 14) k else ret 0 (user_write arg [24, 0, 80, 0, 0, 0, 0, 0] k))
          else ret (- 25) k)"

text \<open>Offsets are \<^verbatim>\<open>i64\<close>: the word is read as a signed number, the additions wrap.\<close>

definition sys_lseek :: "nat \<Rightarrow> u64 \<Rightarrow> nat \<Rightarrow> kernel \<Rightarrow> sysres" where
  "sys_lseek fd offset whence k =
     (case current_fd_get fd k of
        None \<Rightarrow> ret (- 9) k
      | Some (VfsFile inode cur_off _) \<Rightarrow>
          if whence > 2 then ret (- 22) k
          else let new_off = (if whence = 0 then offset else if whence = 1 then cur_off + offset
                              else word_of_nat (inode_size (k_fs k) inode) + offset)
               in if sint new_off < 0 then ret (- 22) k
                  else ret (sint new_off) (current_fd_set_offset fd new_off k)
      | Some (VfsDir _ _) \<Rightarrow> ret (- 21) k
      | Some _ \<Rightarrow> ret (- 29) k)"

section \<open>Directories\<close>

definition sys_getcwd :: "nat \<Rightarrow> nat \<Rightarrow> kernel \<Rightarrow> sysres" where
  "sys_getcwd buf len k =
     (if buf = 0 \<or> len = 0 then ret (- 14) k
      else case inode_path (k_fs k) (current_cwd k) (user_read k buf len) of
        (out, n) \<Rightarrow>
          let k1 = user_write buf out k in
          if n = 0 \<or> n \<ge> len then ret (- 34) k1
          else ret (isize buf) (user_write (buf + n) [0] k1))"

definition sys_chdir :: "nat \<Rightarrow> kernel \<Rightarrow> sysres" where
  "sys_chdir path_ptr k =
     with_path path_ptr (- 2) (\<lambda>path k.
       case open_dir (k_fs k) path (current_cwd k) of
         None \<Rightarrow> ret (- 2) k
       | Some inode \<Rightarrow> ret 0 (set_cwd inode k)) k"

definition ret_fs :: "int \<Rightarrow> ramfs \<times> bool \<Rightarrow> kernel \<Rightarrow> sysres" where
  "ret_fs err r k = (case r of (fs, ok) \<Rightarrow> ret (if ok then 0 else err) (k\<lparr>k_fs := fs\<rparr>))"

definition sys_mkdir :: "nat \<Rightarrow> u64 \<Rightarrow> kernel \<Rightarrow> sysres" where
  "sys_mkdir path_ptr mode k =
     with_path path_ptr (- 2)
       (\<lambda>path k. ret_fs (- 17) (ramfs_mkdir path (current_cwd k) 0 0 (ucast mode) (k_fs k)) k) k"

definition sys_rmdir :: "nat \<Rightarrow> kernel \<Rightarrow> sysres" where
  "sys_rmdir path_ptr k =
     with_path path_ptr (- 2) (\<lambda>path k. ret_fs (- 2) (ramfs_rmdir path (current_cwd k) 0 0 (k_fs k)) k) k"

definition sys_unlink :: "nat \<Rightarrow> kernel \<Rightarrow> sysres" where
  "sys_unlink path_ptr k =
     with_path path_ptr (- 2) (\<lambda>path k. ret_fs (- 2) (ramfs_unlink path (current_cwd k) 0 0 (k_fs k)) k) k"

definition sys_unlinkat :: "u64 \<Rightarrow> nat \<Rightarrow> u64 \<Rightarrow> kernel \<Rightarrow> sysres" where
  "sys_unlinkat dirfd path_ptr flags k =
     with_path path_ptr (- 2) (\<lambda>path k.
       let cwd = at_cwd dirfd k in
       ret_fs (- 2) (if flags AND 0x200 \<noteq> 0 then ramfs_rmdir path cwd 0 0 (k_fs k)
                     else ramfs_unlink path cwd 0 0 (k_fs k)) k) k"

definition sys_mkdirat :: "u64 \<Rightarrow> nat \<Rightarrow> u64 \<Rightarrow> kernel \<Rightarrow> sysres" where
  "sys_mkdirat dirfd path_ptr mode k =
     with_path path_ptr (- 2)
       (\<lambda>path k. ret_fs (- 17) (ramfs_mkdir path (at_cwd dirfd k) 0 0 (ucast mode) (k_fs k)) k) k"

text \<open>One directory record, \<open>None\<close> when it does not fit into \<open>avail\<close> bytes.\<close>

definition write_dirent64 :: "nat \<Rightarrow> u64 \<Rightarrow> u64 \<Rightarrow> bytes \<Rightarrow> u8 \<Rightarrow> bytes option" where
  "write_dirent64 avail ino d_off name d_type =
     (let reclen = (19 + length name + 1 + 7) div 8 * 8 in
      if reclen > avail then None
      else Some (le_bytes 8 ino @ le_bytes 8 d_off @ le_bytes 2 (word_of_nat reclen :: u16) @ [d_type]
                 @ name @ replicate (reclen - 19 - length name) 0))"

text \<open>The callback of \<^verbatim>\<open>sys_getdents64\<close> on the state (bytes written, entry index, position).\<close>

definition dents_step :: "ramfs \<Rightarrow> nat \<Rightarrow> nat \<Rightarrow> nat \<Rightarrow> bytes \<times> nat \<times> nat \<Rightarrow> bytes \<times> nat \<times> nat" where
  "dents_step fs count p idx st =
     (case st of (written, entry_idx, new_pos) \<Rightarrow>
        if entry_idx < p then (written, entry_idx + 1, new_pos)
        else let n = fs ! idx; d_type = (if i_kind n = Dir then 4 else 8) in
          case write_dirent64 (count - length written) (word_of_nat idx) (word_of_nat (new_pos + 1))
                 (take (i_name_len n) (i_name n)) d_type of
            Some rec \<Rightarrow> (written @ rec, entry_idx + 1, new_pos + 1)
          | None \<Rightarrow> (written, entry_idx + 1, new_pos))"

definition sys_getdents64 :: "nat \<Rightarrow> nat \<Rightarrow> nat \<Rightarrow> kernel \<Rightarrow> sysres" where
  "sys_getdents64 fd buf count k =
     (if buf = 0 \<or> count = 0 then ret (- 22) k
      else case current_fd_get fd k of
        None \<Rightarrow> ret (- 9) k
      | Some (VfsDir dir p) \<Rightarrow>
          (case fold (dents_step (k_fs k) count p) (list_dir_indexed (k_fs k) dir) ([], 0, p) of
             (written, _, new_pos) \<Rightarrow>
               let k1 = user_write buf written k in
               ret (isize (length written)) (if written \<noteq> [] then current_fd_set_dir_pos fd new_pos k1 else k1))
      | Some _ \<Rightarrow> ret (- 20) k)"

section \<open>Processes\<close>

definition sys_execve :: "env \<Rightarrow> nat \<Rightarrow> nat \<Rightarrow> nat \<Rightarrow> kernel \<Rightarrow> sysres" where
  "sys_execve ev path_ptr argv envp k =
     (if path_ptr = 0 then ret (- 14) k
      else with_path path_ptr (- 2) (\<lambda>path k.
        case read_at (k_fs k) path (current_cwd k) 0 0 of
          None \<Rightarrow> ret (- 2) k
        | Some data \<Rightarrow>
            if \<not> is_elf data then ret (- 8) k
            else (case execve_current (e_seed ev 0) data path argv envp k of
                    (k1, Some ctx) \<Rightarrow> ret 0 (k1\<lparr>exec_ctx := Some ctx\<rparr>)
                  | (k1, None) \<Rightarrow> ret (- 12) k1)) k)"

definition take_exec_ctx :: "kernel \<Rightarrow> kernel \<times> (u64 \<times> u64 \<times> u64) option" where
  "take_exec_ctx k = (k\<lparr>exec_ctx := None\<rparr>, exec_ctx k)"

definition later :: "int \<Rightarrow> kernel option \<Rightarrow> sysres" where
  "later v r = map_option (\<lambda>k. (k, Later v)) r"

definition sys_yield :: "kernel \<Rightarrow> sysres" where
  "sys_yield k = later 0 (schedule k)"

definition sys_nanosleep :: "nat \<Rightarrow> kernel \<Rightarrow> sysres" where
  "sys_nanosleep req k =
     (if req = 0 then ret (- 14) k
      else let secs = user_rd64 k req; nsecs = user_rd64 k (req + 8) in
        if sint secs < 0 \<or> sint nsecs < 0 \<or> sint nsecs \<ge> 1000000000 then ret (- 22) k
        else let ticks = secs * 100 + nsecs div 10000000 in
          if ticks = 0 then ret 0 k
          else let wake_at = tick_count k + ticks in
            (case sleep_pass wake_at k of
               None \<Rightarrow> None
             | Some (k1, Done _) \<Rightarrow> ret 0 k1
             | Some (k1, Again) \<Rightarrow> Some (k1, SleepUntil wake_at)))"

definition sys_getpid :: "kernel \<Rightarrow> sysres" where
  "sys_getpid k = ret (sint (current_pid k)) k"

definition sys_getppid :: "kernel \<Rightarrow> sysres" where
  "sys_getppid k = ret (sint (current_ppid k)) k"

definition sys_wait4 :: "u64 \<Rightarrow> nat \<Rightarrow> u64 \<Rightarrow> kernel \<Rightarrow> sysres" where
  "sys_wait4 target status_ptr options k =
     (case waitpid_pass (current_pid k) target (options AND 1 \<noteq> 0) k of
        None \<Rightarrow> None
      | Some (k1, Again) \<Rightarrow> Some (k1, Retry)
      | Some (k1, Done (v, st)) \<Rightarrow>
          ret v (case st of
                   Some w \<Rightarrow> if status_ptr \<noteq> 0 then user_write status_ptr (le_bytes 4 w) k1 else k1
                 | None \<Rightarrow> k1))"

definition is_fatal :: "u8 \<Rightarrow> bool" where
  "is_fatal sig \<longleftrightarrow> sig \<in> {SIGKILL, SIGTERM, SIGABRT, SIGQUIT, SIGHUP}"

definition deliver_kill :: "u64 \<Rightarrow> u8 \<Rightarrow> kernel \<Rightarrow> sysres" where
  "deliver_kill target sig k =
     (case raise_signal_to_pid target sig k of (k1, ok) \<Rightarrow> ret (if ok then 0 else - 3) k1)"

definition sys_kill :: "u64 \<Rightarrow> u64 \<Rightarrow> kernel \<Rightarrow> sysres" where
  "sys_kill target sig0 k =
     (let sig = ucast sig0 :: u8 in
      if sig > 31 then ret (- 22) k
      else if sig > 0 \<and> is_fatal sig \<and> (target = current_pid k \<or> target = 0) then
        (case exit_current (ucast sig) k of
           None \<Rightarrow> None
         | Some k1 \<Rightarrow> if current k1 = current k then deliver_kill target sig k1 else Some (k1, Gone))
      else deliver_kill target sig k)"

definition sys_exit :: "u64 \<Rightarrow> kernel \<Rightarrow> sysres" where
  "sys_exit code k =
     (case exit_current (ucast code) k of
        None \<Rightarrow> None
      | Some k1 \<Rightarrow> if current k1 = current k then ret 0 k1 else Some (k1, Gone))"

definition spawn_fork_with_sp :: "env \<Rightarrow> u64 \<Rightarrow> kernel \<Rightarrow> sysres" where
  "spawn_fork_with_sp ev sp k =
     (if sys_user_ip k = 0 then ret (- 38) k
      else case spawn_fork (sys_user_ip k) sp (sys_user_regs k) (e_callee_saved ev) k of
        (k1, Some slot) \<Rightarrow> ret (sint (task_pid slot k1)) k1
      | (k1, None) \<Rightarrow> ret (- 12) k1)"

definition sys_clone :: "env \<Rightarrow> u64 \<Rightarrow> u64 \<Rightarrow> kernel \<Rightarrow> sysres" where
  "sys_clone ev flags child_stack k =
     (if flags AND 0x10000 \<noteq> 0 then ret (- 38) k
      else spawn_fork_with_sp ev (if child_stack \<noteq> 0 then child_stack else sys_user_sp k) k)"

definition sys_fork :: "env \<Rightarrow> kernel \<Rightarrow> sysres" where
  "sys_fork ev k = spawn_fork_with_sp ev (sys_user_sp k) k"

section \<open>poll\<close>

definition poll_in :: "nat \<Rightarrow> kernel \<Rightarrow> u16" where
  "poll_in i k = (if pipe_has_data i (k_pool k) then 1 else if \<not> pipe_write_open i (k_pool k) then 0x10 else 0)"

definition poll_out :: "nat \<Rightarrow> kernel \<Rightarrow> u16" where
  "poll_out i k = (if pipe_read_open i (k_pool k) then 4 else 0x18)"

text \<open>The events of one descriptor and by how much they raise \<^verbatim>\<open>ready\<close>.\<close>

definition poll_one :: "nat \<Rightarrow> u16 \<Rightarrow> kernel \<Rightarrow> u16 \<times> nat" where
  "poll_one fd ev k =
     (let one = (\<lambda>r. (r, if r = 0 then 0 else 1 :: nat));
          out = (if ev AND 4 \<noteq> 0 then (4, 1) else (0, 0)) in
      case current_fd_get fd k of
        None \<Rightarrow> (0x20, 1)
      | Some entry \<Rightarrow>
          (case entry of
             Stdin \<Rightarrow> if ev AND 1 \<noteq> 0 \<and> has_input k then (1, 1) else (0, 0)
           | Stdout \<Rightarrow> out | Stderr \<Rightarrow> out | DevNull \<Rightarrow> out | DevZero \<Rightarrow> out | DevUrandom \<Rightarrow> out
           | VfsFile _ _ _ \<Rightarrow> one (ev AND 5)
           | PipeRead i \<Rightarrow> one (if ev AND 1 \<noteq> 0 then poll_in i k else 0)
           | PipeWrite i \<Rightarrow> one (if ev AND 4 \<noteq> 0 then poll_out i k else 0)
           | SocketPair r w \<Rightarrow>
               (case (one (if ev AND 1 \<noteq> 0 then poll_in r k else 0), one (if ev AND 4 \<noteq> 0 then poll_out w k else 0)) of
                  ((r1, n1), (r2, n2)) \<Rightarrow> (r1 OR r2, n1 + n2))
           | _ \<Rightarrow> (0x20, 1)))"

fun poll_loop :: "nat \<Rightarrow> nat \<Rightarrow> kernel \<Rightarrow> u32 \<Rightarrow> kernel \<times> u32" where
  "poll_loop p 0 k ready = (k, ready)"
| "poll_loop p (Suc n) k ready =
     (let fd = from_le_bytes (user_read k p 4) :: u32; ev = from_le_bytes (user_read k (p + 4) 2) :: u16 in
      if sint fd < 0 then poll_loop (p + 8) n (user_write (p + 6) [0, 0] k) ready
      else case poll_one (unat fd) ev k of
        (revents, m) \<Rightarrow> poll_loop (p + 8) n (user_write (p + 6) (le_bytes 2 revents) k) (ready + word_of_nat m))"

definition sys_poll :: "nat \<Rightarrow> nat \<Rightarrow> u32 \<Rightarrow> kernel \<Rightarrow> sysres" where
  "sys_poll fds_ptr nfds timeout_ms k =
     (if nfds = 0 then ret 0 k
      else if fds_ptr = 0 then ret (- 14) k
      else case poll_loop fds_ptr nfds k 0 of
        (k1, ready) \<Rightarrow>
          if sint ready > 0 \<or> timeout_ms = 0 then ret (sint ready) k1
          else later 0 (schedule k1))"

section \<open>The rest\<close>

definition uname_field :: "nat \<Rightarrow> bytes \<Rightarrow> kernel \<Rightarrow> kernel" where
  "uname_field p s k = user_write p (take 64 s @ [0]) k"

definition sys_uname :: "env \<Rightarrow> nat \<Rightarrow> kernel \<Rightarrow> sysres" where
  "sys_uname ev buf k =
     (if buf = 0 then ret (- 14) k
      else ret 0 (uname_field (buf + 260) (ascii ''x86_64'')
             (uname_field (buf + 195) (ascii ''#1 SMP'')
             (uname_field (buf + 130) (e_version ev)
             (uname_field (buf + 65) (ascii ''ferrugem'')
             (uname_field buf (ascii ''Ferrugem'') k))))))"

fun random_chunks :: "u64 \<Rightarrow> nat \<Rightarrow> bytes" where
  "random_chunks seed 0 = []"
| "random_chunks seed (Suc n) =
     (let seed1 = seed * 0x9E3779B97F4A7C15 + 0x6C62272E07BB0142
      in take (Suc n) (le_bytes 8 seed1) @ random_chunks seed1 (Suc n - 8))"

definition sys_getrandom :: "env \<Rightarrow> nat \<Rightarrow> nat \<Rightarrow> kernel \<Rightarrow> sysres" where
  "sys_getrandom ev buf len k =
     (if buf = 0 then ret (- 14) k else ret (isize len) (user_write buf (random_chunks (e_seed ev 0) len) k))"

definition sys_futex :: "nat \<Rightarrow> u64 \<Rightarrow> u64 \<Rightarrow> kernel \<Rightarrow> sysres" where
  "sys_futex uaddr fop val k =
     (let op_clean = fop AND NOT 128 in
      if op_clean = 0 then
        (if uaddr = 0 then ret (- 14) k
         else if ucast (from_le_bytes (user_read k uaddr 4) :: u32) \<noteq> val then ret (- 11) k
         else later 0 (schedule k))
      else if op_clean = 1 then ret 0 k
      else ret (- 38) k)"

definition sys_rt_sigaction :: "u64 \<Rightarrow> nat \<Rightarrow> nat \<Rightarrow> kernel \<Rightarrow> sysres" where
  "sys_rt_sigaction sig oact sigsetsize k =
     (if sig = 0 \<or> sig > 64 then ret (- 22) k
      else ret 0 (if oact \<noteq> 0 then user_write oact (replicate (24 + min sigsetsize 128) 0) k else k))"

definition sys_rt_sigprocmask :: "nat \<Rightarrow> nat \<Rightarrow> kernel \<Rightarrow> sysres" where
  "sys_rt_sigprocmask oldset sigsetsize k =
     ret 0 (if oldset \<noteq> 0 then user_write oldset (replicate (min sigsetsize 128) 0) k else k)"

definition sys_sigaltstack :: "nat \<Rightarrow> kernel \<Rightarrow> sysres" where
  "sys_sigaltstack old_ss k =
     ret 0 (if old_ss \<noteq> 0 then user_write old_ss (replicate 8 0 @ [2] @ replicate 15 0) k else k)"

definition sys_arch_prctl :: "nat \<Rightarrow> u64 \<Rightarrow> kernel \<Rightarrow> sysres" where
  "sys_arch_prctl code addr k =
     (if code = 0x1002 then
        ret 0 (let k1 = set_fs_base addr k in k1\<lparr>k_hw := (k_hw k1)\<lparr>h_fs_base := addr\<rparr>\<rparr>)
      else if code = 0x1003 then
        (if addr = 0 then ret (- 14) k else ret 0 (user_write (unat addr) (le_bytes 8 (get_fs_base k)) k))
      else ret (- 22) k)"

definition sys_clock_gettime :: "nat \<Rightarrow> nat \<Rightarrow> kernel \<Rightarrow> sysres" where
  "sys_clock_gettime clock_id ts k =
     (if ts = 0 then ret (- 14) k
      else if clock_id > 1 then ret (- 22) k
      else let ticks = tick_count k in
        ret 0 (user_write ts (le_bytes 8 (ticks div 100) @ le_bytes 8 (ticks mod 100 * 10000000)) k))"

section \<open>The dispatcher\<close>

definition dispatch :: "env \<Rightarrow> nat \<Rightarrow> u64 \<Rightarrow> u64 \<Rightarrow> u64 \<Rightarrow> u64 \<Rightarrow> u64 \<Rightarrow> u64 \<Rightarrow> kernel \<Rightarrow> sysres" where
  "dispatch ev nr a0 a1 a2 a3 a4 a5 k0 =
     (let k = k0\<lparr>sys_user_regs := [a0, a1, a2, a3, a4, a5]\<rparr>;
          n0 = unat a0; n1 = unat a1; n2 = unat a2; n3 = unat a3
      in if nr = 0 then sys_read ev n0 n1 n2 k
         else if nr = 1 then sys_write n0 n1 n2 k
         else if nr = 2 then sys_open n0 a1 k
         else if nr = 3 then sys_close n0 k
         else if nr = 4 \<or> nr = 6 then sys_stat n0 n1 k
         else if nr = 5 then sys_fstat n0 n1 k
         else if nr = 7 then sys_poll n0 n1 (ucast a2) k
         else if nr = 8 then sys_lseek n0 a1 n2 k
         else if nr = 9 then sys_mmap a0 a1 a2 a3 k
         else if nr \<in> {10, 11, 15, 273, 302} then ret 0 k
         else if nr = 12 then sys_brk a0 k
         else if nr = 13 then sys_rt_sigaction a0 n2 n3 k
         else if nr = 14 then sys_rt_sigprocmask n2 n3 k
         else if nr = 16 then sys_ioctl n0 n1 n2 k
         else if nr = 22 \<or> nr = 293 then sys_pipe n0 k
         else if nr = 24 then sys_yield k
         else if nr = 32 then sys_dup n0 k
         else if nr = 33 then sys_dup2 n0 n1 k
         else if nr = 35 then sys_nanosleep n0 k
         else if nr = 39 \<or> nr = 186 \<or> nr = 218 then sys_getpid k
         else if nr = 44 then sys_write n0 n1 n2 k
         else if nr = 45 then sys_read ev n0 n1 n2 k
         else if nr = 53 then sys_socketpair n3 k
         else if nr = 56 then sys_clone ev a0 a1 k
         else if nr = 57 then sys_fork ev k
         else if nr = 59 then sys_execve ev n0 n1 n2 k
         else if nr = 60 \<or> nr = 231 then sys_exit a0 k
         else if nr = 61 then sys_wait4 a0 n1 a2 k
         else if nr = 62 \<or> nr = 200 then sys_kill a0 a1 k
         else if nr = 63 then sys_uname ev n0 k
         else if nr = 72 then sys_fcntl n0 n1 k
         else if nr = 79 then sys_getcwd n0 n1 k
         else if nr = 80 then sys_chdir n0 k
         else if nr = 83 then sys_mkdir n0 a1 k
         else if nr = 84 then sys_rmdir n0 k
         else if nr = 87 then sys_unlink n0 k
         else if nr \<in> {102, 104, 107, 108} then ret 0 k
         else if nr = 110 then sys_getppid k
         else if nr = 131 then sys_sigaltstack n1 k
         else if nr = 158 then sys_arch_prctl n0 a1 k
         else if nr = 202 then sys_futex n0 a1 a2 k
         else if nr = 217 then sys_getdents64 n0 n1 n2 k
         else if nr = 228 then sys_clock_gettime n0 n1 k
         else if nr = 234 then sys_kill a1 a2 k
         else if nr = 257 then sys_openat a0 n1 a2 k
         else if nr = 258 then sys_mkdirat a0 n1 a2 k
         else if nr = 262 then sys_newfstatat a0 n1 n2 k
         else if nr = 263 then sys_unlinkat a0 n1 a2 k
         else if nr = 267 then ret (- 22) k
         else if nr = 318 then sys_getrandom ev n0 n1 k
         else ret (- 38) k)"

end
