(* ===== verification/SyscallInv.thy ===== *)
theory SyscallInv
  imports Syscall
begin

text \<open>
  Every system call keeps the kernel invariant, and what the pipe, descriptor, file and process
  calls do.  The last section closes the system: the states reachable from boot by clock ticks,
  input interrupts, page faults and system calls all satisfy the invariant.
\<close>

section \<open>User memory is apart from the tables\<close>

lemma user_write_mem: "\<exists>m. user_write va bs k = k\<lparr>k_mem := m\<rparr>"
proof (induction bs arbitrary: va k)
  case Nil
  show ?case by (rule exI[of _ "k_mem k"]) simp
next
  case (Cons b bs)
  have "\<exists>m. user_wr8 va b k = k\<lparr>k_mem := m\<rparr>"
    by (auto simp: user_wr8_def split: option.splits intro: exI[of _ "k_mem k"])
  then obtain m where "user_wr8 va b k = k\<lparr>k_mem := m\<rparr>" by blast
  moreover obtain m' where "user_write (va + 1) bs (k\<lparr>k_mem := m\<rparr>) = k\<lparr>k_mem := m\<rparr>\<lparr>k_mem := m'\<rparr>"
    using Cons.IH by blast
  ultimately show ?case by auto
qed

lemma user_write_frame [simp, frame_simps]:
  "tasks (user_write va bs k) = tasks k" "current (user_write va bs k) = current k"
  "k_pool (user_write va bs k) = k_pool k" "k_fs (user_write va bs k) = k_fs k"
  "next_pid (user_write va bs k) = next_pid k" "pipe_waiters (user_write va bs k) = pipe_waiters k"
  "console (user_write va bs k) = console k" "sched_wf (user_write va bs k) = sched_wf k"
  "current_cwd (user_write va bs k) = current_cwd k" "tick_count (user_write va bs k) = tick_count k"
  using user_write_mem[of va bs k] by (auto simp: current_cwd_def)

declare user_write.simps [simp del]

section \<open>The invariant\<close>

definition res_wf :: "sysres \<Rightarrow> bool" where
  "res_wf r \<longleftrightarrow> (\<forall>k v. r = Some (k, v) \<longrightarrow> sched_wf k)"

named_theorems sys_wf \<open>handlers keep the invariant\<close>

lemma res_wf_None [simp, sys_wf]: "res_wf None"
  by (simp add: res_wf_def)

lemma res_wf_ret [simp]: "res_wf (ret v k) = sched_wf k"
  by (simp add: res_wf_def ret_def)

lemma res_wf_Some [simp]: "res_wf (Some (k, v)) = sched_wf k"
  by (simp add: res_wf_def)

lemma res_wf_ret_fd [simp]: "res_wf (ret_fd err r) = sched_wf (fst r)"
  by (auto simp: ret_fd_def split: prod.splits option.splits)

lemma res_wf_map: "(\<And>k'. r = Some k' \<Longrightarrow> sched_wf k') \<Longrightarrow> res_wf (map_option (\<lambda>k. (k, v)) r)"
  by (auto simp: res_wf_def)

lemma res_wf_later: "(\<And>k'. r = Some k' \<Longrightarrow> sched_wf k') \<Longrightarrow> res_wf (later v r)"
  by (auto simp: later_def res_wf_def)

lemma with_path_wf: "sched_wf k \<Longrightarrow> (\<And>s. res_wf (f s k)) \<Longrightarrow> res_wf (with_path p err f k)"
  by (auto simp: with_path_def split: option.splits)

lemma cur_fds_wf: "sched_wf k \<Longrightarrow> cur_task k = Some t \<Longrightarrow> fdt_wf (t_fds t)"
  using cur_task_ok by (auto simp: task_ok_def)

lemma current_fd_get_ok: "sched_wf k \<Longrightarrow> current_fd_get fd k = Some e \<Longrightarrow> fd_ok e"
  by (auto simp: current_fd_get_def split: option.splits dest: cur_fds_wf fdt_get_ok)

lemma mild_fds: "fdt_wf fds \<Longrightarrow> mild (\<lambda>t. t\<lparr>t_fds := fds\<rparr>)"
  by (simp add: mild_def)

lemma upd_fds_wf: "sched_wf k \<Longrightarrow> fdt_wf fds \<Longrightarrow> sched_wf (upd_current (\<lambda>t. t\<lparr>t_fds := fds\<rparr>) k)"
  unfolding upd_current_def by (intro upd_task_wf mild_fds)

lemma current_fd_alloc_wf [wf_intros]:
  assumes "sched_wf k" "fd_ok e"
  shows "sched_wf (fst (current_fd_alloc e k))"
proof (cases "cur_task k")
  case (Some t)
  then have "fdt_wf (fst (fdt_alloc e (t_fds t)))" using assms cur_fds_wf fdt_alloc_wf by blast
  with Some assms(1) show ?thesis by (auto simp: current_fd_alloc_def upd_fds_wf split: prod.splits)
qed (use assms in \<open>simp add: current_fd_alloc_def\<close>)

lemma current_fd_close_wf [wf_intros]:
  assumes "sched_wf k"
  shows "sched_wf (fst (current_fd_close fd k))"
proof (cases "cur_task k")
  case (Some t)
  then have "fdt_wf (fst (fdt_close fd (t_fds t)))" using assms cur_fds_wf fdt_close_wf by blast
  with Some assms(1) show ?thesis by (auto simp: current_fd_close_def upd_fds_wf split: prod.splits)
qed (use assms in \<open>simp add: current_fd_close_def\<close>)

lemma current_fd_dup_wf [wf_intros]: "sched_wf k \<Longrightarrow> sched_wf (fst (current_fd_dup fd k))"
  by (auto simp: current_fd_dup_def split: option.splits intro: current_fd_alloc_wf current_fd_get_ok)

lemma current_fd_dup2_wf [wf_intros]:
  assumes wf: "sched_wf k"
  shows "sched_wf (fst (current_fd_dup2 o_fd n_fd k))"
proof -
  have "sched_wf ((upd_current (\<lambda>t. t\<lparr>t_fds := fds\<rparr>) k)\<lparr>k_pool := pool\<rparr>)"
    if t: "cur_task k = Some t" "fdt_get o_fd (t_fds t) = Some e" "fdt_alloc_at n_fd e (t_fds t) (k_pool k) = (fds, pool, r)"
    for t e fds pool r
  proof (rule sched_wf_pool)
    have "fdt_wf fds" using fdt_alloc_at_wf[OF cur_fds_wf[OF wf t(1)] fdt_get_ok[OF cur_fds_wf[OF wf t(1)] t(2)], of n_fd "k_pool k"] t(3) by simp
    then show "sched_wf (upd_current (\<lambda>t. t\<lparr>t_fds := fds\<rparr>) k)"
      unfolding upd_current_def by (intro upd_task_wf wf mild_fds)
    show "pool_wf pool" using t(3) sched_wfD(6)[OF wf] by (auto simp: fdt_alloc_at_def release_fd_wf split: if_splits)
  qed
  with wf show ?thesis by (auto simp: current_fd_dup2_def split: option.splits prod.splits)
qed

lemma current_set_wf [wf_intros]:
  "sched_wf k \<Longrightarrow> sched_wf (current_fd_set_offset fd off k)" "sched_wf k \<Longrightarrow> sched_wf (current_fd_set_dir_pos fd p k)"
  "sched_wf k \<Longrightarrow> sched_wf (set_heap_brk b k)" "sched_wf k \<Longrightarrow> sched_wf (set_fs_base v k)"
  "sched_wf k \<Longrightarrow> i < MAX_INODES \<Longrightarrow> sched_wf (set_cwd i k)"
  unfolding current_fd_set_offset_def current_fd_set_dir_pos_def set_heap_brk_def set_fs_base_def set_cwd_def upd_current_def
  by (auto intro!: upd_task_wf simp: mild_def fdt_set_wf)

lemma current_cwd_less: "sched_wf k \<Longrightarrow> current_cwd k < MAX_INODES"
  using cur_task_ok by (auto simp: current_cwd_def task_ok_def split: option.splits)

lemma at_cwd_less: "sched_wf k \<Longrightarrow> at_cwd d k < MAX_INODES"
  by (auto simp: at_cwd_def current_cwd_less split: option.splits fd_entry.splits dest: current_fd_get_ok)

text \<open>Results written as a state and a value.\<close>

lemma pool_upd_wf:
  "sched_wf k \<Longrightarrow> sched_wf (k\<lparr>k_pool := close_pipe_read i (k_pool k)\<rparr>)"
  "sched_wf k \<Longrightarrow> sched_wf (k\<lparr>k_pool := close_pipe_write i (k_pool k)\<rparr>)"
  "sched_wf k \<Longrightarrow> sched_wf (k\<lparr>k_pool := close_pipe_write i (close_pipe_read j (k_pool k))\<rparr>)"
  by (auto intro!: sched_wf_pool close_pipe_read_wf close_pipe_write_wf dest: sched_wfD(6))

lemma read_stdin_wf [sys_wf]: "sched_wf k \<Longrightarrow> res_wf (read_stdin buf k)"
  by (auto simp: read_stdin_def give_byte_def echo_stdin_byte_def Let_def split: prod.splits option.splits
      intro!: res_wf_map elim!: block_wf(1)[rotated])

lemma read_pipe_wf [sys_wf]: "sched_wf k \<Longrightarrow> res_wf (read_pipe i buf len k)"
  using pipe_read_wf[OF sched_wfD(6), of k i len]
  by (auto simp: read_pipe_def Let_def sched_wf_pool split: prod.splits
      intro!: res_wf_map elim!: block_wf(2)[rotated])

lemma sys_read_wf [sys_wf]: "sched_wf k \<Longrightarrow> res_wf (sys_read ev fd buf len k)"
  by (auto simp: sys_read_def Let_def read_stdin_wf read_pipe_wf current_set_wf split: option.splits fd_entry.splits)

lemma write_pipe_wf [sys_wf]: "sched_wf k \<Longrightarrow> res_wf (write_pipe i data k)"
  using pipe_write_wf[OF sched_wfD(6), of k i data]
  by (auto simp: write_pipe_def Let_def sched_wf_pool wake_pipe_waiter_wf split: prod.splits)

lemma sys_write_wf [sys_wf]:
  assumes "sched_wf k"
  shows "res_wf (sys_write fd buf len k)"
proof -
  have "sched_wf (k\<lparr>k_fs := fs\<rparr>)" if "inode_write i off d (k_fs k) = (fs, n)" for i off d fs n
    using inode_write_wf[OF sched_wfD(7)[OF assms], of i off d] that by (simp add: assms sched_wf_fs)
  then show ?thesis
    using assms by (auto simp: sys_write_def Let_def write_pipe_wf current_set_wf split: option.splits fd_entry.splits prod.splits)
qed

lemma open_check_less: "fs_wf fs \<Longrightarrow> cwd < MAX_INODES \<Longrightarrow> open_check fs p cwd u g w = Some i \<Longrightarrow> i < MAX_INODES"
  by (auto simp: open_check_def split: option.splits if_splits dest: resolve_bound)

lemma open_at_wf [sys_wf]:
  assumes wf: "sched_wf k" and c: "cwd < MAX_INODES"
  shows "res_wf (open_at cwd path flags k)"
proof -
  let ?k1 = "if flags AND 0x40 \<noteq> 0 then k\<lparr>k_fs := fst (ramfs_touch path cwd 0 0 (k_fs k))\<rparr> else k"
  have w1: "sched_wf ?k1" using wf ramfs_touch_wf[OF sched_wfD(7)[OF wf] c] by (simp add: sched_wf_fs)
  have w2: "sched_wf (?k1\<lparr>k_fs := fst (inode_write i 0 [] (k_fs ?k1))\<rparr>)" for i
    using w1 inode_write_wf[OF sched_wfD(7)[OF w1]] by (rule sched_wf_fs)
  have o: "i < MAX_INODES" if "open_check (k_fs ?k1) path cwd 0 0 w = Some i" for i w
    using open_check_less[OF sched_wfD(7)[OF w1] c that] .
  have d: "i < MAX_INODES" if "open_dir (k_fs ?k1) path cwd = Some i" for i
    using open_dir_Some(1)[OF sched_wfD(7)[OF w1] c that] .
  show ?thesis
    unfolding open_at_def Let_def
    by (simp only: split: option.split) (use w1 w2 o d in \<open>auto intro!: current_fd_alloc_wf\<close>)
qed

lemma open_dev_ok: "open_dev_path p = Some e \<Longrightarrow> fd_ok e"
  by (auto simp: open_dev_path_def split: if_splits)

lemma sys_open_wf [sys_wf]: "sched_wf k \<Longrightarrow> res_wf (sys_open p flags k)"
  by (auto simp: sys_open_def current_cwd_less open_dev_ok split: option.splits
      intro!: with_path_wf current_fd_alloc_wf open_at_wf)

lemma sys_openat_wf [sys_wf]: "sched_wf k \<Longrightarrow> res_wf (sys_openat d p flags k)"
  by (auto simp: sys_openat_def at_cwd_less open_dev_ok split: option.splits
      intro!: with_path_wf current_fd_alloc_wf open_at_wf)

lemma wake_if_closed_wf [wf_intros]: "sched_wf k \<Longrightarrow> sched_wf (wake_if_closed i k)"
  by (simp add: wake_if_closed_def wake_pipe_waiter_wf)

lemma sys_close_wf [sys_wf]:
  assumes "sched_wf k"
  shows "res_wf (sys_close fd k)"
  using current_fd_close_wf[OF assms, of fd]
  by (auto simp: sys_close_def pool_upd_wf wake_if_closed_wf split: prod.splits option.splits fd_entry.splits)

lemma fill_inode_stat_wf [sys_wf]: "sched_wf k \<Longrightarrow> res_wf (fill_inode_stat buf i k)"
  by (auto simp: fill_inode_stat_def split: option.splits)

lemma stat_path_wf [sys_wf]: "sched_wf k \<Longrightarrow> res_wf (stat_path cwd p buf k)"
  by (auto simp: stat_path_def fill_inode_stat_wf split: option.splits)

lemma sys_stat_wf [sys_wf]: "sched_wf k \<Longrightarrow> res_wf (sys_stat p buf k)"
  by (auto simp: sys_stat_def stat_path_wf intro!: with_path_wf)

lemma sys_fstat_wf [sys_wf]: "sched_wf k \<Longrightarrow> res_wf (sys_fstat fd buf k)"
  by (auto simp: sys_fstat_def Let_def fill_inode_stat_wf split: option.splits fd_entry.splits)

lemma sys_newfstatat_wf [sys_wf]: "sched_wf k \<Longrightarrow> res_wf (sys_newfstatat d p buf k)"
  by (auto simp: sys_newfstatat_def sys_fstat_wf stat_path_wf split: option.splits)

lemma sys_brk_wf [sys_wf]: "sched_wf k \<Longrightarrow> res_wf (sys_brk a k)"
  by (auto simp: sys_brk_def Let_def current_set_wf split: prod.splits bool.splits)

lemma sys_mmap_wf [sys_wf]: "sched_wf k \<Longrightarrow> res_wf (sys_mmap a l p f k)"
  by (auto simp: sys_mmap_def Let_def current_set_wf split: prod.splits bool.splits)

lemma alloc_pipe_idx: "pool_wf p \<Longrightarrow> alloc_pipe p = (p', Some i) \<Longrightarrow> i < MAX_PIPES"
  by (rule alloc_pipe_Some(1))

lemma sys_pipe_wf [sys_wf]:
  assumes wf: "sched_wf k"
  shows "res_wf (sys_pipe ptr k)"
proof -
  obtain p r where a: "alloc_pipe (k_pool k) = (p, r)" by fastforce
  have w: "sched_wf (k\<lparr>k_pool := p\<rparr>)"
    using alloc_pipe_wf[OF sched_wfD(6)[OF wf]] a wf by (simp add: sched_wf_pool)
  show ?thesis
  proof (cases r)
    case (Some i)
    then have i: "i < MAX_PIPES" using alloc_pipe_idx[OF sched_wfD(6)[OF wf]] a by simp
    obtain k1 r1 where 1: "current_fd_alloc (PipeRead i) (k\<lparr>k_pool := p\<rparr>) = (k1, r1)" by fastforce
    obtain k2 r2 where 2: "current_fd_alloc (PipeWrite i) k1 = (k2, r2)" by fastforce
    have "sched_wf k1" using current_fd_alloc_wf[OF w, of "PipeRead i"] 1 i by simp
    then have "sched_wf k2" using current_fd_alloc_wf[of k1 "PipeWrite i"] 2 i by simp
    then show ?thesis using a Some wf 1 2
      by (auto simp: sys_pipe_def write_fd_pair_def pool_upd_wf split: option.splits)
  qed (use a w wf in \<open>simp add: sys_pipe_def\<close>)
qed

lemma close_both_wf: "pool_wf p \<Longrightarrow> pool_wf (close_both i p)"
  by (auto simp: close_both_def close_pipe_read_wf close_pipe_write_wf split: option.splits)

lemma sys_socketpair_wf [sys_wf]:
  assumes wf: "sched_wf k"
  shows "res_wf (sys_socketpair ptr k)"
proof -
  obtain p1 a where a: "alloc_pipe (k_pool k) = (p1, a)" by fastforce
  obtain p2 b where b: "alloc_pipe p1 = (p2, b)" by fastforce
  have p1: "pool_wf p1" using alloc_pipe_wf[OF sched_wfD(6)[OF wf]] a by simp
  then have p2: "pool_wf p2" using alloc_pipe_wf[OF p1] b by simp
  show ?thesis
  proof (cases "a = None \<or> b = None")
    case True
    then show ?thesis using a b wf p2
      by (auto simp: sys_socketpair_def sched_wf_pool close_both_wf split: option.splits)
  next
    case False
    then obtain i j where ij: "a = Some i" "b = Some j" by auto
    have i: "i < MAX_PIPES" "j < MAX_PIPES" using alloc_pipe_idx[OF sched_wfD(6)[OF wf]] alloc_pipe_idx[OF p1] a b ij by auto
    obtain k1 r1 where 1: "current_fd_alloc (SocketPair i j) (k\<lparr>k_pool := p2\<rparr>) = (k1, r1)" by fastforce
    obtain k2 r2 where 2: "current_fd_alloc (SocketPair j i) k1 = (k2, r2)" by fastforce
    have "sched_wf k1" using current_fd_alloc_wf[OF sched_wf_pool[OF wf p2], of "SocketPair i j"] 1 i by simp
    then have "sched_wf k2" using current_fd_alloc_wf[of k1 "SocketPair j i"] 2 i by simp
    moreover from this have "pool_wf (close_pipe_read j (close_pipe_write j (close_pipe_read i (k_pool k2))))"
      by (intro close_pipe_read_wf close_pipe_write_wf) (rule sched_wfD(6))
    ultimately show ?thesis using a b ij wf 1 2
      by (auto simp: sys_socketpair_def write_fd_pair_def sched_wf_pool split: option.splits)
  qed
qed

lemma sys_dup_wf [sys_wf]: "sched_wf k \<Longrightarrow> res_wf (sys_dup fd k)"
  by (simp add: sys_dup_def current_fd_dup_wf)

lemma sys_dup2_wf [sys_wf]: "sched_wf k \<Longrightarrow> res_wf (sys_dup2 a b k)"
  by (simp add: sys_dup2_def current_fd_dup2_wf)

lemma sys_fcntl_wf [sys_wf]: "sched_wf k \<Longrightarrow> res_wf (sys_fcntl a b k)"
  by (simp add: sys_fcntl_def sys_dup_wf)

lemma sys_ioctl_wf [sys_wf]: "sched_wf k \<Longrightarrow> res_wf (sys_ioctl a b c k)"
  by (auto simp: sys_ioctl_def split: option.splits)

lemma sys_lseek_wf [sys_wf]: "sched_wf k \<Longrightarrow> res_wf (sys_lseek fd off w k)"
  by (auto simp: sys_lseek_def Let_def current_set_wf split: option.splits fd_entry.splits)

lemma ret_fs_wf: "sched_wf k \<Longrightarrow> fs_wf (fst r) \<Longrightarrow> res_wf (ret_fs err r k)"
  by (auto simp: ret_fs_def sched_wf_fs split: prod.splits)

lemma sys_getcwd_wf [sys_wf]: "sched_wf k \<Longrightarrow> res_wf (sys_getcwd buf len k)"
  by (auto simp: sys_getcwd_def Let_def split: prod.splits)

lemma sys_chdir_wf [sys_wf]:
  assumes "sched_wf k"
  shows "res_wf (sys_chdir p k)"
  using assms open_dir_Some(1)[OF sched_wfD(7)[OF assms] current_cwd_less[OF assms]]
  by (auto simp: sys_chdir_def split: option.splits intro!: with_path_wf current_set_wf)

lemma sys_fs_wf [sys_wf]:
  "sched_wf k \<Longrightarrow> res_wf (sys_mkdir p mode k)" "sched_wf k \<Longrightarrow> res_wf (sys_rmdir p k)"
  "sched_wf k \<Longrightarrow> res_wf (sys_unlink p k)" "sched_wf k \<Longrightarrow> res_wf (sys_unlinkat d p fl k)"
  "sched_wf k \<Longrightarrow> res_wf (sys_mkdirat d p mode k)"
  by (auto simp: sys_mkdir_def sys_rmdir_def sys_unlink_def sys_unlinkat_def sys_mkdirat_def Let_def
      sched_wfD(7) current_cwd_less at_cwd_less
      intro!: with_path_wf ret_fs_wf ramfs_mkdir_wf ramfs_rmdir_wf ramfs_unlink_wf)

lemma sys_getdents64_wf [sys_wf]: "sched_wf k \<Longrightarrow> res_wf (sys_getdents64 fd buf c k)"
  by (auto simp: sys_getdents64_def Let_def current_set_wf split: option.splits fd_entry.splits prod.splits)

lemma sys_execve_wf [sys_wf]:
  assumes wf: "sched_wf k"
  shows "res_wf (sys_execve ev p av en k)"
proof -
  have "sched_wf k1" if "execve_current s d a0 av en k = (k1, r)" for s d a0 k1 r
    using execve_current_wf[OF wf, of s d a0 av en] that by simp
  with wf show ?thesis by (auto simp: sys_execve_def split: option.splits prod.splits intro!: with_path_wf)
qed

lemma sys_sched_wf [sys_wf]:
  "sched_wf k \<Longrightarrow> res_wf (sys_yield k)" "sched_wf k \<Longrightarrow> res_wf (sys_getpid k)" "sched_wf k \<Longrightarrow> res_wf (sys_getppid k)"
  "sched_wf k \<Longrightarrow> res_wf (sys_futex u f v k)"
  by (auto simp: sys_yield_def sys_getpid_def sys_getppid_def sys_futex_def Let_def intro!: res_wf_later
      elim!: schedule_wf[rotated])

lemma sys_nanosleep_wf [sys_wf]: "sched_wf k \<Longrightarrow> res_wf (sys_nanosleep r k)"
  by (auto simp: sys_nanosleep_def Let_def split: option.splits pass.splits prod.splits dest: sleep_pass_wf)

lemma sys_wait4_wf [sys_wf]: "sched_wf k \<Longrightarrow> res_wf (sys_wait4 t st op k)"
  by (auto simp: sys_wait4_def split: option.splits pass.splits prod.splits dest: waitpid_pass_wf)

lemma deliver_kill_wf [sys_wf]: "sched_wf k \<Longrightarrow> res_wf (deliver_kill t s k)"
  using raise_signal_to_pid_wf[of k t s] by (auto simp: deliver_kill_def split: prod.splits)

lemma sys_kill_wf [sys_wf]: "sched_wf k \<Longrightarrow> res_wf (sys_kill t s k)"
  by (auto simp: sys_kill_def Let_def deliver_kill_wf split: option.splits dest: exit_current_wf)

lemma sys_exit_wf [sys_wf]: "sched_wf k \<Longrightarrow> res_wf (sys_exit c k)"
  by (auto simp: sys_exit_def split: option.splits dest: exit_current_wf)

lemma spawn_fork_with_sp_wf [sys_wf]:
  assumes "sched_wf k" "next_pid k < next_pid k + 1"
  shows "res_wf (spawn_fork_with_sp ev sp k)"
  using spawn_fork_wf[OF assms, of "sys_user_ip k" sp "sys_user_regs k" "e_callee_saved ev"] assms(1)
  by (auto simp: spawn_fork_with_sp_def split: prod.splits option.splits)

lemma sys_fork_wf [sys_wf]:
  "sched_wf k \<Longrightarrow> next_pid k < next_pid k + 1 \<Longrightarrow> res_wf (sys_clone ev f st k)"
  "sched_wf k \<Longrightarrow> next_pid k < next_pid k + 1 \<Longrightarrow> res_wf (sys_fork ev k)"
  by (simp_all add: sys_clone_def sys_fork_def spawn_fork_with_sp_wf)

lemma poll_loop_wf: "sched_wf k \<Longrightarrow> sched_wf (fst (poll_loop p n k r))"
  by (induction p n k r rule: poll_loop.induct) (auto simp: Let_def split: prod.splits)

lemma sys_poll_wf [sys_wf]:
  assumes "sched_wf k"
  shows "res_wf (sys_poll p n t k)"
  using poll_loop_wf[OF assms, of p n 0] assms
  by (auto simp: sys_poll_def split: prod.splits intro!: res_wf_later elim!: schedule_wf[rotated])

lemma sys_misc_wf [sys_wf]:
  "sched_wf k \<Longrightarrow> res_wf (sys_uname ev b k)" "sched_wf k \<Longrightarrow> res_wf (sys_getrandom ev b l k)"
  "sched_wf k \<Longrightarrow> res_wf (sys_rt_sigaction sg oa sz k)" "sched_wf k \<Longrightarrow> res_wf (sys_rt_sigprocmask os sz k)"
  "sched_wf k \<Longrightarrow> res_wf (sys_sigaltstack os k)" "sched_wf k \<Longrightarrow> res_wf (sys_arch_prctl c a k)"
  "sched_wf k \<Longrightarrow> res_wf (sys_clock_gettime ci ts k)"
  by (auto simp: sys_uname_def uname_field_def sys_getrandom_def sys_rt_sigaction_def sys_rt_sigprocmask_def
      sys_sigaltstack_def sys_arch_prctl_def sys_clock_gettime_def Let_def current_set_wf)

lemma res_wf_if: "res_wf a \<Longrightarrow> res_wf b \<Longrightarrow> res_wf (if c then a else b)"
  by simp

lemma dispatch_wf:
  assumes "sched_wf k" "next_pid k < next_pid k + 1"
  shows "res_wf (dispatch ev nr a0 a1 a2 a3 a4 a5 k)"
proof -
  let ?k = "k\<lparr>sys_user_regs := [a0, a1, a2, a3, a4, a5]\<rparr>"
  have k: "sched_wf ?k" "next_pid ?k < next_pid ?k + 1" "res_wf (ret v ?k)" for v using assms by simp_all
  show ?thesis unfolding dispatch_def Let_def by (intro res_wf_if sys_wf k)
qed

section \<open>The whole system\<close>

text \<open>The state after \<^verbatim>\<open>memory::init\<close>, \<^verbatim>\<open>fs::init\<close> and \<^verbatim>\<open>scheduler::init\<close>; the arguments are what
  boot has put into memory, the image layout and the file installed as \<^verbatim>\<open>/bin/hello\<close>.\<close>

definition kernel_boot :: "mem \<Rightarrow> kimage \<Rightarrow> u64 \<Rightarrow> u64 \<Rightarrow> hw \<Rightarrow> bytes \<Rightarrow> kernel" where
  "kernel_boot m ki ut ft h hello =
     scheduler_init
       \<lparr>tasks = replicate MAX_TASKS None, guard_phys = replicate MAX_TASKS 0, current = 0, tick_count = 0,
        tty_waiter = None, pipe_waiters = replicate MAX_PIPES None, k_pool = pool_init,
        k_fs = fs_init hello ramfs_new, k_mem = m, next_pid = 1, k_hw = h, saved_next = (\<lambda>_. None),
        serial_rx = ring_new 64, kbd_rx = ring_new 64, console = [], sys_user_ip = 0, sys_user_sp = 0,
        sys_user_regs = replicate 6 0, exec_ctx = None, k_image = ki, user_tramp = ut, fork_tramp = ft\<rparr>"

definition serial_irq :: "bytes \<Rightarrow> kernel \<Rightarrow> kernel" where
  "serial_irq arrived k =
     (case serial_handle_irq (serial_rx k) arrived of
        (rx, woke) \<Rightarrow> let k1 = k\<lparr>serial_rx := rx\<rparr> in if woke then wake_tty_waiter k1 else k1)"

definition keyboard_irq :: "u8 \<Rightarrow> kernel \<Rightarrow> kernel" where
  "keyboard_irq sc k = wake_tty_waiter (k\<lparr>kbd_rx := fst (ring_push (kbd_rx k) sc)\<rparr>)"

text \<open>One event: an interrupt, a system call (with a process identifier left to give out), a page
  fault, a kernel-side spawn or kill, or a store by the running program.\<close>

inductive kstep :: "kernel \<Rightarrow> kernel \<Rightarrow> bool" where
  step_tick: "tick k = Some k' \<Longrightarrow> kstep k k'"
| step_serial: "kstep k (serial_irq arrived k)"
| step_keyboard: "kstep k (keyboard_irq sc k)"
| step_syscall: "next_pid k < next_pid k + 1 \<Longrightarrow> dispatch ev nr a0 a1 a2 a3 a4 a5 k = Some (k', r) \<Longrightarrow> kstep k k'"
| step_sleep: "sleep_pass w k = Some (k', r) \<Longrightarrow> kstep k k'"
| step_fault: "handle_user_page_fault va k = (k', ok) \<Longrightarrow> kstep k k'"
| step_exit: "exit_current code k = Some k' \<Longrightarrow> kstep k k'"
| step_spawn_fn: "next_pid k < next_pid k + 1 \<Longrightarrow> spawn_fn entry k = (k', r) \<Longrightarrow> kstep k k'"
| step_spawn_user: "next_pid k < next_pid k + 1 \<Longrightarrow> spawn_user prog k = (k', r) \<Longrightarrow> kstep k k'"
| step_spawn_elf: "next_pid k < next_pid k + 1 \<Longrightarrow> spawn_elf seed data argv0 k = (k', r) \<Longrightarrow> kstep k k'"
| step_kill: "kill_task slot k = (k', ok) \<Longrightarrow> kstep k k'"
| step_store: "kstep k (user_write va bs k)"
| step_context: "kstep k (k\<lparr>sys_user_ip := ip, sys_user_sp := sp\<rparr>)"
| step_stack: "kstep k (k\<lparr>k_hw := (k_hw k)\<lparr>h_rsp := sp\<rparr>\<rparr>)"

inductive_cases kstepE: "kstep k k'"

inductive reachable :: "kernel \<Rightarrow> bool" where
  boot: "reachable (kernel_boot m ki ut ft h hello)"
| event: "reachable k \<Longrightarrow> kstep k k' \<Longrightarrow> reachable k'"

lemma kernel_boot_wf [wf_intros]: "sched_wf (kernel_boot m ki ut ft h hello)"
proof -
  have "task_ok 1 0 task_idle" by (simp add: task_ok_def task_idle_def)
  then have "tasks_wf 1 ((replicate MAX_TASKS None)[0 := Some task_idle])"
    unfolding tasks_wf_def by (auto simp: nth_list_update split: if_splits)
  then show ?thesis
    by (simp add: kernel_boot_def scheduler_init_def set_slot_def sched_wf_def fs_init_wf)
qed

lemma kstep_wf: "kstep k k' \<Longrightarrow> sched_wf k \<Longrightarrow> sched_wf k'"
proof (induction rule: kstep.induct)
  case (step_serial k arrived)
  then show ?case by (auto simp: serial_irq_def Let_def wake_tty_waiter_wf split: prod.splits)
next
  case (step_syscall k ev nr a0 a1 a2 a3 a4 a5 k' r)
  then show ?case using dispatch_wf[of k ev nr a0 a1 a2 a3 a4 a5] by (simp add: res_wf_def)
next
  case (step_fault va k k' ok)
  then show ?case using page_fault_wf[of k va] by simp
next
  case (step_spawn_fn k entry k' r)
  then show ?case using spawn_fn_wf[of k entry] by simp
next
  case (step_spawn_user k prog k' r)
  then show ?case using spawn_user_wf[of k prog] by simp
next
  case (step_spawn_elf k seed data argv0 k' r)
  then show ?case using spawn_elf_wf[of k seed data argv0] by simp
next
  case (step_kill slot k k' ok)
  then show ?case using kill_task_wf[of k slot] by simp
qed (auto simp: keyboard_irq_def sched_wf_def[of "_\<lparr>sys_user_ip := _, sys_user_sp := _\<rparr>"] sched_wfD(8)
      intro: tick_wf sleep_pass_wf exit_current_wf wake_tty_waiter_wf dest: sched_wfD)

lemma reachable_wf: "reachable k \<Longrightarrow> sched_wf k"
  by (induction rule: reachable.induct) (auto intro: kernel_boot_wf kstep_wf)

end
