(* ===== verification/Refs.thy ===== *)
theory Refs
  imports SyscallInv
begin

text \<open>
  Pipe reference counts against the descriptors of all tasks: the counters of the pool equal the
  number of descriptors that refer to each pipe end.  Fork, exit, close and a successful
  \<^verbatim>\<open>pipe\<close> keep this; \<^verbatim>\<open>dup\<close> does not, because it copies a descriptor without taking a
  reference.
\<close>

section \<open>Counting\<close>

definition task_weight :: "task option \<Rightarrow> pipe_end \<Rightarrow> nat" where
  "task_weight s e = (case s of None \<Rightarrow> 0 | Some t \<Rightarrow> (\<Sum>fd\<leftarrow>t_fds t. fd_weight fd e))"

definition held :: "task option list \<Rightarrow> pipe_end \<Rightarrow> nat" where
  "held ts e = (\<Sum>s\<leftarrow>ts. task_weight s e)"

definition refs_ok :: "kernel \<Rightarrow> bool" where
  "refs_ok k \<longleftrightarrow> (\<forall>e. end_count (k_pool k) e = held (tasks k) e)
     \<and> (\<forall>s < length (tasks k). \<forall>t. tasks k ! s = Some t \<longrightarrow> t_state t = Zombie \<longrightarrow> (\<forall>e. task_weight (Some t) e = 0))"

lemma refs_okD:
  assumes "refs_ok k"
  shows "end_count (k_pool k) e = held (tasks k) e"
    "s < length (tasks k) \<Longrightarrow> tasks k ! s = Some t \<Longrightarrow> t_state t = Zombie \<Longrightarrow> task_weight (Some t) e = 0"
  using assms unfolding refs_ok_def by blast+

lemma held_update: "s < length ts \<Longrightarrow> held (ts[s := x]) e + task_weight (ts ! s) e = held ts e + task_weight x e"
  unfolding held_def by (induction ts arbitrary: s) (auto split: nat.split simp: nth_Cons')

lemma held_ge: "s < length ts \<Longrightarrow> task_weight (ts ! s) e \<le> held ts e"
  unfolding held_def by (induction ts arbitrary: s) (auto simp: nth_Cons' intro: trans_le_add2)

lemma held_same:
  assumes "length ts' = length ts" "\<And>s. s < length ts \<Longrightarrow> task_weight (ts' ! s) e = task_weight (ts ! s) e"
  shows "held ts' e = held ts e"
proof -
  have "map (\<lambda>s. task_weight s e) ts' = map (\<lambda>s. task_weight s e) ts" by (rule nth_equalityI) (use assms in auto)
  then show ?thesis by (simp add: held_def)
qed

text \<open>A step that keeps the pool and every descriptor table, and makes no zombies.\<close>

lemma refs_same:
  assumes r: "refs_ok k" and p: "k_pool k' = k_pool k" and l: "length (tasks k') = length (tasks k)"
    and t: "\<And>s t'. s < length (tasks k) \<Longrightarrow> tasks k' ! s = Some t' \<Longrightarrow>
      \<exists>t. tasks k ! s = Some t \<and> t_fds t' = t_fds t \<and> (t_state t' = Zombie \<longrightarrow> t_state t = Zombie)"
    and n: "\<And>s. s < length (tasks k) \<Longrightarrow> tasks k' ! s = None \<Longrightarrow> tasks k ! s = None"
  shows "refs_ok k'"
proof -
  have w: "task_weight (tasks k' ! s) e = task_weight (tasks k ! s) e" if "s < length (tasks k)" for s e
    using t[OF that] n[OF that] by (cases "tasks k' ! s") (fastforce simp: task_weight_def)+
  have "held (tasks k') e = held (tasks k) e" for e using held_same l w by blast
  moreover have "task_weight (Some t') e = 0" if "s < length (tasks k')" "tasks k' ! s = Some t'" "t_state t' = Zombie" for s t' e
    using t[of s t'] refs_okD(2)[OF r, of s _ e] that l by (fastforce simp: task_weight_def)
  ultimately show ?thesis unfolding refs_ok_def using refs_okD(1)[OF r] p by simp
qed

lemma refs_upd_task:
  assumes "refs_ok k" "\<And>t. t_fds (f t) = t_fds t" "\<And>t. t_state (f t) = Zombie \<Longrightarrow> t_state t = Zombie"
  shows "refs_ok (upd_task s f k)"
  by (rule refs_same[OF assms(1)]) (use assms(2,3) in \<open>auto split: if_splits\<close>)

lemma refs_ok_cong: "tasks k' = tasks k \<Longrightarrow> k_pool k' = k_pool k \<Longrightarrow> refs_ok k' = refs_ok k"
  by (simp add: refs_ok_def)

lemma refs_frame [simp]:
  "refs_ok (k\<lparr>k_mem := m\<rparr>) = refs_ok k" "refs_ok (k\<lparr>pipe_waiters := w\<rparr>) = refs_ok k"
  "refs_ok (k\<lparr>tty_waiter := x\<rparr>) = refs_ok k" "refs_ok (user_write va bs k) = refs_ok k"
  by (simp_all add: refs_ok_def)

lemma refs_wake_child: "refs_ok k \<Longrightarrow> refs_ok (wake_child_waiters p pp k)"
  by (rule refs_same, assumption) (auto simp: wake_child_waiters_def split: if_splits)

lemma refs_wake:
  "refs_ok k \<Longrightarrow> refs_ok (signal_parent p sig k)" "refs_ok k \<Longrightarrow> refs_ok (wake_pipe_waiter i k)"
  by (auto simp: signal_parent_def wake_pipe_waiter_def wake_task_def
      intro!: refs_upd_task split: option.splits if_splits)

lemma refs_wake_closed: "refs_ok k \<Longrightarrow> refs_ok (wake_closed_pipe_readers k)"
proof -
  have "refs_ok k \<Longrightarrow> refs_ok (fold (\<lambda>i k. if \<not> pipe_write_open i (k_pool k) then wake_pipe_waiter i k else k) is k)" for "is" k
    by (induction "is" arbitrary: k) (auto intro: refs_wake)
  then show "refs_ok k \<Longrightarrow> refs_ok (wake_closed_pipe_readers k)" by (simp add: wake_closed_pipe_readers_def)
qed

lemma refs_schedule:
  assumes "refs_ok k" "schedule k = Some k'"
  shows "refs_ok k'"
  by (rule refs_same[OF assms(1)]) (use schedule_frame[OF assms(2)] in \<open>auto split: if_splits\<close>)

section \<open>Exit and close\<close>

lemma sum_weight_empty [simp]: "(\<Sum>fd\<leftarrow>replicate n Empty. fd_weight fd e) = 0"
  by (induction n) auto

lemma refs_set_fds:
  assumes r: "refs_ok k" and s: "s < length (tasks k)"
    and p: "\<And>e. end_count p e + task_weight (tasks k ! s) e = end_count (k_pool k) e + task_weight (Some t') e"
    and z: "t_state t' = Zombie \<Longrightarrow> \<forall>e. task_weight (Some t') e = 0"
  shows "refs_ok ((set_slot s (Some t') k)\<lparr>k_pool := p\<rparr>)"
  unfolding refs_ok_def
proof (intro conjI allI impI)
  fix e
  show "end_count (k_pool ((set_slot s (Some t') k)\<lparr>k_pool := p\<rparr>)) e = held (tasks ((set_slot s (Some t') k)\<lparr>k_pool := p\<rparr>)) e"
    using held_update[OF s, of "Some t'" e] p[of e] refs_okD(1)[OF r, of e] by simp
next
  fix r' u e
  assume "r' < length (tasks ((set_slot s (Some t') k)\<lparr>k_pool := p\<rparr>))"
    "tasks ((set_slot s (Some t') k)\<lparr>k_pool := p\<rparr>) ! r' = Some u" "t_state u = Zombie"
  then show "task_weight (Some u) e = 0"
    using z refs_okD(2)[OF r, of r' u e] s by (cases "r' = s") auto
qed

lemma refs_exit_task:
  assumes wf: "sched_wf k" and r: "refs_ok k" and s: "s < MAX_TASKS"
  shows "refs_ok (exit_task s c k)"
proof (cases "tasks k ! s")
  case (Some t)
  have len: "s < length (tasks k)" using tasks_wfD(1)[OF sched_wfD(1)[OF wf]] s by simp
  have fw: "fdt_wf (t_fds t)" using tasks_wfD(3)[OF sched_wfD(1)[OF wf] s Some] by (simp add: task_ok_def)
  note E = task_exit_effect[OF fw, of c "k_pool k"]
  have le: "(\<Sum>h\<leftarrow>t_fds t. fd_weight h e) \<le> end_count (k_pool k) e" for e
    using held_ge[OF len, of e] refs_okD(1)[OF r, of e] Some by (simp add: task_weight_def)
  have "end_count (snd (task_exit c t (k_pool k))) e + task_weight (tasks k ! s) e
      = end_count (k_pool k) e + task_weight (Some (fst (task_exit c t (k_pool k)))) e" for e
    using fds.release_all(2)[OF sched_wfD(6)[OF wf] le] le[of e] E(3,4) Some by (simp add: task_weight_def)
  from refs_set_fds[OF r len this] have "refs_ok ((set_slot s (Some (fst (task_exit c t (k_pool k)))) k)\<lparr>k_pool := snd (task_exit c t (k_pool k))\<rparr>)"
    using E(3) by (simp add: task_weight_def)
  then show ?thesis using Some by (cases "task_exit c t (k_pool k)") (simp add: exit_task_def)
qed (use r in \<open>simp add: exit_task_def\<close>)

lemma refs_exit_current:
  assumes "sched_wf k" "refs_ok k" "exit_current c k = Some k'"
  shows "refs_ok k'"
  using assms refs_exit_task[OF assms(1,2) sched_wfD(2)[OF assms(1)]]
  by (auto simp: exit_current_def split: option.splits
      intro!: refs_wake_closed refs_wake refs_wake_child elim!: refs_schedule[rotated])

lemma weight_update:
  "fd < length fds \<Longrightarrow> (\<Sum>h\<leftarrow>fds[fd := x]. fd_weight h e) + fd_weight (fds ! fd) e = (\<Sum>h\<leftarrow>fds. fd_weight h e) + fd_weight x e"
  by (induction fds arbitrary: fd) (auto split: nat.split simp: nth_Cons')

lemma weight_elem: "fd < length fds \<Longrightarrow> fd_weight (fds ! fd) e \<le> (\<Sum>h\<leftarrow>fds. fd_weight h e)"
  by (induction fds arbitrary: fd) (auto simp: nth_Cons' intro: trans_le_add2)

lemma upd_current_set_slot:
  assumes "cur_task k = Some t" "current k < length (tasks k)"
  shows "upd_current f k = set_slot (current k) (Some (f t)) k"
  using assms by (simp add: upd_current_def upd_task_def set_slot_def upd_nth_def)

lemma upd_current_same: "cur_task k = Some t \<Longrightarrow> f t = t \<Longrightarrow> upd_current f k = k"
proof -
  assume "cur_task k = Some t" "f t = t"
  then have "map_option f (cur_task k) = cur_task k" by simp
  then show "upd_current f k = k" unfolding upd_current_def upd_task_def upd_nth_def by (simp del: option.map_sel)
qed

text \<open>Exchanging one descriptor of the running task against the matching change of the pool.\<close>

lemma refs_set_fd:
  assumes wf: "sched_wf k" and r: "refs_ok k" and t: "cur_task k = Some t" "t_state t \<noteq> Zombie"
    and fd: "fd < MAX_FDS"
    and c: "\<And>e. end_count p e + fd_weight (t_fds t ! fd) e = end_count (k_pool k) e + fd_weight x e"
  shows "refs_ok ((upd_current (\<lambda>t. t\<lparr>t_fds := (t_fds t)[fd := x]\<rparr>) k)\<lparr>k_pool := p\<rparr>)"
proof -
  have len: "current k < length (tasks k)" using tasks_wfD(1)[OF sched_wfD(1)[OF wf]] sched_wfD(2)[OF wf] by simp
  have fl: "fd < length (t_fds t)" using cur_fds_wf[OF wf t(1)] fd by (simp add: fdt_wf_def)
  let ?t = "t\<lparr>t_fds := (t_fds t)[fd := x]\<rparr>"
  have "end_count p e + task_weight (tasks k ! current k) e = end_count (k_pool k) e + task_weight (Some ?t) e" for e
    using c[of e] weight_update[OF fl, of e x] t(1) by (simp add: task_weight_def)
  from refs_set_fds[OF r len this] show ?thesis
    unfolding upd_current_set_slot[OF t(1) len] using t(2) by simp
qed

lemma held_current:
  assumes wf: "sched_wf k" and r: "refs_ok k" and t: "cur_task k = Some t"
  shows "(\<Sum>h\<leftarrow>t_fds t. fd_weight h e) \<le> end_count (k_pool k) e"
    and "fd < MAX_FDS \<Longrightarrow> fd_weight (t_fds t ! fd) e \<le> end_count (k_pool k) e"
proof -
  have len: "current k < length (tasks k)" using tasks_wfD(1)[OF sched_wfD(1)[OF wf]] sched_wfD(2)[OF wf] by simp
  show le: "(\<Sum>h\<leftarrow>t_fds t. fd_weight h e) \<le> end_count (k_pool k) e"
    using held_ge[OF len, of e] refs_okD(1)[OF r, of e] t by (simp add: task_weight_def)
  show "fd < MAX_FDS \<Longrightarrow> fd_weight (t_fds t ! fd) e \<le> end_count (k_pool k) e"
    using weight_elem[of fd "t_fds t" e] le cur_fds_wf[OF wf t] by (simp add: fdt_wf_def)
qed

text \<open>Closing a descriptor releases exactly the references it held.\<close>

lemma refs_release:
  assumes wf: "sched_wf k" and r: "refs_ok k" and t: "cur_task k = Some t" "t_state t \<noteq> Zombie"
    and fd: "fd < MAX_FDS"
  shows "refs_ok ((upd_current (\<lambda>t. t\<lparr>t_fds := (t_fds t)[fd := Empty]\<rparr>) k)\<lparr>k_pool := release_fd (t_fds t ! fd) (k_pool k)\<rparr>)"
proof (rule refs_set_fd[OF wf r t fd])
  note le = held_current(2)[OF wf r t(1) fd]
  show "end_count (release_fd (t_fds t ! fd) (k_pool k)) e + fd_weight (t_fds t ! fd) e
      = end_count (k_pool k) e + fd_weight Empty e" for e
    using fds.release_count[OF sched_wfD(6)[OF wf] le] le[of e] by simp
qed

lemma refs_sys_close:
  assumes wf: "sched_wf k" and r: "refs_ok k" and t: "cur_task k = Some t" "t_state t \<noteq> Zombie"
    and c: "sys_close fd k = Some (k', res)"
  shows "refs_ok k'"
proof (cases "fd < MAX_FDS")
  case True
  note same = upd_current_same[OF t(1), of "t_fds_update (\<lambda>_. t_fds t)"]
  have k: "k_pool (upd_current f k) = k_pool k" for f by (simp add: upd_current_def)
  let ?k1 = "upd_current (\<lambda>u. u\<lparr>t_fds := (t_fds t)[fd := Empty]\<rparr>) k"
  have eq: "?k1 = upd_current (\<lambda>u. u\<lparr>t_fds := (t_fds u)[fd := Empty]\<rparr>) k" (is "_ = ?k2")
    using t(1) by (simp add: upd_current_def upd_task_def upd_nth_def)
  have p0: "refs_ok (?k1\<lparr>k_pool := k_pool k\<rparr>) = refs_ok ?k1" by (rule refs_ok_cong) (simp_all add: upd_current_def)
  have m: "refs_ok (?k1\<lparr>k_pool := release_fd (t_fds t ! fd) (k_pool k)\<rparr>)"
    unfolding eq by (rule refs_release[OF wf r t True])
  show ?thesis using c True t(1) m r p0 same
    by (auto simp: sys_close_def current_fd_close_def fdt_close_def release_fd_def k wake_if_closed_def ret_def Let_def
        intro: refs_wake split: fd_entry.splits if_splits option.splits)
next
  case False
  then show ?thesis using c r t(1) upd_current_same[OF t(1), of "t_fds_update (\<lambda>_. t_fds t)"]
    by (auto simp: sys_close_def current_fd_close_def fdt_close_def ret_def)
qed

section \<open>Fork\<close>

lemma vacant_weight:
  assumes "refs_ok k" "vacant k i" "i < length (tasks k)"
  shows "task_weight (tasks k ! i) e = 0"
  using refs_okD(2)[OF assms(1,3)] assms(2) by (auto simp: vacant_def task_weight_def split: option.splits)

lemma refs_install:
  assumes r: "refs_ok k" and i: "vacant k i" "i < length (tasks k)"
    and p: "\<And>e. end_count p e = end_count (k_pool k) e + task_weight (Some t) e"
    and z: "t_state t \<noteq> Zombie"
  shows "refs_ok (install i t (k\<lparr>k_pool := p\<rparr>))"
proof -
  have "refs_ok ((set_slot i (Some t) k)\<lparr>k_pool := p\<rparr>)"
    by (rule refs_set_fds[OF r i(2)]) (use p z vacant_weight[OF r i] in auto)
  then show ?thesis by (simp add: install_def refs_ok_def set_slot_def)
qed

lemma first_vacant_cong:
  assumes "tasks k1 = tasks k"
  shows "first_vacant k1 = first_vacant k"
proof -
  have "vacant k1 = vacant k" using assms by (simp add: vacant_def fun_eq_iff)
  then show ?thesis by (simp add: first_vacant_def)
qed

lemma refs_add_user_task:
  assumes r: "refs_ok k" and l: "length (tasks k) = MAX_TASKS" and v: "first_vacant k \<noteq> None"
    and k1: "tasks k1 = tasks k"
    and p: "\<And>e. end_count (k_pool k1) e = end_count (k_pool k) e + task_weight (Some (f (fst (mk (next_pid k1))))) e"
    and z: "t_state (f (fst (mk (next_pid k1)))) \<noteq> Zombie"
  shows "refs_ok (fst (add_user_task g mk f k1))"
proof -
  obtain i where i: "first_vacant k = Some i" using v by blast
  have "i < MAX_TASKS \<and> vacant k i" using i by (auto simp: first_vacant_def dest: scan_SomeD)
  then have "refs_ok (install i (f (fst (mk (next_pid k1)))) (k\<lparr>k_pool := k_pool k1\<rparr>))"
    using refs_install[OF r _ _ p z] l by simp
  moreover have "first_vacant k1 = Some i" using i first_vacant_cong[OF k1] by simp
  ultimately show ?thesis using k1
    by (simp add: add_user_task_def split: prod.split) (simp add: install_def set_slot_def refs_ok_def)
qed

lemma refs_spawn_fork:
  assumes wf: "sched_wf k" and r: "refs_ok k"
    and t: "cur_task k = Some t" and cap: "\<And>e. end_count (k_pool k) e + task_weight (Some t) e \<le> 255"
  shows "refs_ok (fst (spawn_fork ip sp regs cs k))"
proof -
  have c: "end_count (fold inherit_fd (t_fds t) (k_pool k)) e = end_count (k_pool k) e + (\<Sum>h\<leftarrow>t_fds t. fd_weight h e)" for e
  proof (rule fds.acquire_all(2)[OF sched_wfD(6)[OF wf]])
    show "end_count (k_pool k) e \<noteq> 0" if "(\<Sum>h\<leftarrow>t_fds t. fd_weight h e) \<noteq> 0" for e
      using held_current(1)[OF wf r t, of e] that by linarith
    show "end_count (k_pool k) e + (\<Sum>h\<leftarrow>t_fds t. fd_weight h e) \<le> 255" for e
      using cap[of e] by (simp add: task_weight_def)
  qed
  have len: "length (tasks k) = MAX_TASKS" by (rule tasks_wfD(1)[OF sched_wfD(1)[OF wf]])
  have fv: "first_vacant (k\<lparr>k_mem := m\<rparr>) = first_vacant k" for m by (rule first_vacant_cong) simp
  show ?thesis
    using t r c by (auto simp: spawn_fork_def fv task_new_user_def task_weight_def Let_def
        intro!: refs_add_user_task[OF r len] split: prod.splits option.splits)
qed

section \<open>Pipe creation\<close>

lemma current_fd_alloc_Some:
  assumes "cur_task k = Some t" "current k < length (tasks k)" "current_fd_alloc x k = (k', Some fd)"
  shows "3 \<le> fd" "fd < MAX_FDS" "t_fds t ! fd = Empty" "k' = upd_current (\<lambda>t. t\<lparr>t_fds := (t_fds t)[fd := x]\<rparr>) k"
  using assms fdt_alloc_Some[of x "t_fds t"]
  by (fastforce simp: current_fd_alloc_def upd_current_set_slot split: prod.splits)+

lemma end_count_alloc:
  assumes "pool_wf pool" "alloc_pipe pool = (pool', Some i)"
  shows "end_count pool' e = end_count pool e + (if e = REnd i \<or> e = WEnd i then 1 else 0)"
proof -
  note A = alloc_pipe_Some[OF assms]
  have z: "read_count (pool ! i) = 0" "write_count (pool ! i) = 0"
    using pool_wfD(2)[OF assms(1) A(1)] A(2) by (auto simp: slot_wf_def)
  show ?thesis
  proof (cases e)
    case (REnd j)
    then show ?thesis using A(1,5) A(7)[of j] z by (cases "j = i") auto
  next
    case (WEnd j)
    then show ?thesis using A(1,6) A(7)[of j] z by (cases "j = i") auto
  qed
qed

text \<open>Placing two new descriptors of the running task in one step.\<close>

lemma refs_two_fds:
  assumes wf: "sched_wf k" and r: "refs_ok k" and t: "cur_task k = Some t" "t_state t \<noteq> Zombie"
    and c: "\<And>e. end_count pool e = end_count (k_pool k) e + fd_weight x e + fd_weight y e"
    and a: "current_fd_alloc x (k\<lparr>k_pool := pool\<rparr>) = (k1, Some f0)" "current_fd_alloc y k1 = (k2, Some f1)"
  shows "refs_ok k2"
proof -
  have len: "current k < length (tasks k)" using tasks_wfD(1)[OF sched_wfD(1)[OF wf]] sched_wfD(2)[OF wf] by simp
  have A: "f0 < MAX_FDS" "t_fds t ! f0 = Empty" "k1 = upd_current (\<lambda>t. t\<lparr>t_fds := (t_fds t)[f0 := x]\<rparr>) (k\<lparr>k_pool := pool\<rparr>)"
    using current_fd_alloc_Some[OF _ _ a(1)] t(1) len by simp_all
  let ?t = "t\<lparr>t_fds := (t_fds t)[f0 := x]\<rparr>"
  have k1: "k1 = set_slot (current k) (Some ?t) (k\<lparr>k_pool := pool\<rparr>)"
    using A(3) upd_current_set_slot[of "k\<lparr>k_pool := pool\<rparr>" t] t(1) len by simp
  have B: "f1 < MAX_FDS" "t_fds ?t ! f1 = Empty" "k2 = upd_current (\<lambda>t. t\<lparr>t_fds := (t_fds t)[f1 := y]\<rparr>) k1"
    using current_fd_alloc_Some[OF _ _ a(2), of ?t] k1 len by simp_all
  let ?u = "t\<lparr>t_fds := (t_fds t)[f0 := x, f1 := y]\<rparr>"
  have k2: "k2 = (set_slot (current k) (Some ?u) k)\<lparr>k_pool := pool\<rparr>"
    using B(3) upd_current_set_slot[of k1 ?t] k1 len by (simp add: set_slot_def)
  have fl: "f0 < length (t_fds t)" "f1 < length (t_fds t)" using cur_fds_wf[OF wf t(1)] A(1) B(1) by (auto simp: fdt_wf_def)
  show ?thesis unfolding k2
  proof (rule refs_set_fds[OF r len])
    fix e show "end_count pool e + task_weight (cur_task k) e = end_count (k_pool k) e + task_weight (Some ?u) e"
      using c[of e] weight_update[OF fl(1), of e x] weight_update[of f1 "(t_fds t)[f0 := x]" e y] fl A(2) B(2) t(1)
      by (simp add: task_weight_def)
  qed (use t(2) in simp)
qed

lemma refs_sys_pipe:
  assumes wf: "sched_wf k" and r: "refs_ok k" and t: "cur_task k = Some t" "t_state t \<noteq> Zombie"
    and c: "sys_pipe p k = Some (k', Reply 0)"
  shows "refs_ok k'"
proof -
  obtain pool i k1 f0 k2 f1 where d: "alloc_pipe (k_pool k) = (pool, Some i)"
    "current_fd_alloc (PipeRead i) (k\<lparr>k_pool := pool\<rparr>) = (k1, Some f0)"
    "current_fd_alloc (PipeWrite i) k1 = (k2, Some f1)" "k' = write_fd_pair p f0 f1 k2"
    using c by (auto simp: sys_pipe_def ret_def split: if_splits prod.splits option.splits)
  have "refs_ok k2"
    by (rule refs_two_fds[OF wf r t _ d(2,3)])
       (use end_count_alloc[OF sched_wfD(6)[OF wf] d(1)] in auto)
  then show ?thesis by (simp add: d(4) write_fd_pair_def)
qed

section \<open>Duplication\<close>

text \<open>\<^verbatim>\<open>dup\<close> copies the descriptor and leaves the pool as it was.\<close>

lemma refs_sys_dup:
  assumes wf: "sched_wf k" and r: "refs_ok k" and t: "cur_task k = Some t"
    and d: "sys_dup fd k = Some (k', Reply n)" "0 \<le> n" and e: "fd_weight (t_fds t ! fd) e \<noteq> 0"
  shows "\<not> refs_ok k'"
proof
  assume r': "refs_ok k'"
  have len: "current k < length (tasks k)" using tasks_wfD(1)[OF sched_wfD(1)[OF wf]] sched_wfD(2)[OF wf] by simp
  obtain f where a: "current_fd_alloc (t_fds t ! fd) k = (k', Some f)"
    using d t by (auto simp: sys_dup_def ret_fd_def ret_def current_fd_dup_def current_fd_get_def fdt_get_def
        split: option.splits prod.splits if_splits)
  note A = current_fd_alloc_Some[OF t len a]
  have fl: "f < length (t_fds t)" using cur_fds_wf[OF wf t] A(2) by (simp add: fdt_wf_def)
  have k': "k' = set_slot (current k) (Some (t\<lparr>t_fds := (t_fds t)[f := t_fds t ! fd]\<rparr>)) k"
    using A(4) upd_current_set_slot[OF t len] by simp
  have "held (tasks k') e = held (tasks k) e + fd_weight (t_fds t ! fd) e"
    using held_update[OF len, of "Some (t\<lparr>t_fds := (t_fds t)[f := t_fds t ! fd]\<rparr>)" e]
      weight_update[OF fl, of e "t_fds t ! fd"] A(3) t by (simp add: k' task_weight_def)
  moreover have "k_pool k' = k_pool k" by (simp add: k')
  ultimately show False using refs_okD(1)[OF r, of e] refs_okD(1)[OF r', of e] e by simp
qed

end
