(* ===== verification/KernelProps.thy ===== *)
theory KernelProps
  imports Refs
begin

text \<open>
  The properties of the scheduler, of the pipe references and of the system calls, with concrete
  kernels on which they are instantiated: the kernel after boot, the same with two kernel tasks,
  and one in which the running task holds both ends of a pipe.
\<close>

section \<open>Concrete kernels\<close>

definition boot_kernel :: kernel where
  "boot_kernel = kernel_boot demo_mem \<lparr>k_pml4 = 0x1000, k_pdpt = 0x2000, k_pd = 0x3000\<rparr> 0 0
     \<lparr>h_rsp = 0, h_cr3 = 0, h_rsp0 = 0, h_fs_base = 0\<rparr> []"

definition demo_task :: "u64 \<Rightarrow> u64 \<Rightarrow> task" where
  "demo_task p pp = task_idle\<lparr>pid := p, ppid := pp\<rparr>"

definition add_demo :: "task \<Rightarrow> kernel \<Rightarrow> kernel" where
  "add_demo t k =
     (case first_vacant k of
        None \<Rightarrow> k
      | Some s \<Rightarrow> install s t (k\<lparr>next_pid := next_pid k + 1, guard_phys := (guard_phys k)[s := 0]\<rparr>))"

text \<open>Tasks 1 and 2 in slots 1 and 2; task 1 runs.\<close>

definition two_kernel :: kernel where
  "two_kernel = (add_demo (demo_task 2 1) (add_demo (demo_task 1 0) boot_kernel))\<lparr>current := 1\<rparr>"

lemma boot_kernel_wf: "sched_wf boot_kernel"
  by (simp add: boot_kernel_def kernel_boot_wf)

lemma boot_kernel_simps [simp]:
  "next_pid boot_kernel = 1" "current boot_kernel = 0" "tasks boot_kernel = (replicate MAX_TASKS None)[0 := Some task_idle]"
  "guard_phys boot_kernel = replicate MAX_TASKS 0" "k_pool boot_kernel = pool_init" "saved_next boot_kernel = (\<lambda>_. None)"
  "pipe_waiters boot_kernel = replicate MAX_PIPES None" "k_mem boot_kernel = demo_mem" "tick_count boot_kernel = 0"
  by (simp_all add: boot_kernel_def kernel_boot_def scheduler_init_def set_slot_def)

lemma replicate_update [simp]: "(replicate n x)[i := x] = replicate n x"
  by (cases "i < n") (auto simp: list_eq_iff_nth_eq nth_list_update)

lemma scan_hit: "lo < hi \<Longrightarrow> P lo \<Longrightarrow> scan P lo hi = Some lo"
  by (simp add: scan_Some)

lemma set_current_wf: "sched_wf k \<Longrightarrow> s < MAX_TASKS \<Longrightarrow> tasks k ! s \<noteq> None \<Longrightarrow> sched_wf (k\<lparr>current := s\<rparr>)"
  unfolding sched_wf_def by auto

lemma sched_wf_tick [simp]: "sched_wf (k\<lparr>tick_count := c\<rparr>) = sched_wf k"
  by (simp add: sched_wf_def)

lemma two_kernel_parts:
  "tasks two_kernel = (replicate MAX_TASKS None)[0 := Some task_idle, 1 := Some (demo_task 1 0), 2 := Some (demo_task 2 1)]"
  "current two_kernel = 1" "next_pid two_kernel = 3" "guard_phys two_kernel = replicate MAX_TASKS 0"
  "k_pool two_kernel = pool_init" "saved_next two_kernel = (\<lambda>_. None)" "pipe_waiters two_kernel = replicate MAX_PIPES None"
  "k_mem two_kernel = demo_mem" "tick_count two_kernel = 0" "sched_wf two_kernel"
proof -
  have v1: "first_vacant boot_kernel = Some 1"
    unfolding first_vacant_def by (rule scan_hit) (simp_all add: vacant_def MAX_TASKS_def)
  let ?k = "add_demo (demo_task 1 0) boot_kernel"
  have k: "?k = install 1 (demo_task 1 0) (boot_kernel\<lparr>next_pid := 2, guard_phys := replicate MAX_TASKS 0\<rparr>)"
    by (simp add: add_demo_def v1)
  have t1: "tasks ?k = (replicate MAX_TASKS None)[0 := Some task_idle, 1 := Some (demo_task 1 0)]"
    by (simp add: k install_def set_slot_def)
  have "vacant ?k 2" "\<not> vacant ?k 1"
    unfolding vacant_def t1 by (simp_all add: MAX_TASKS_def demo_task_def task_idle_def)
  moreover have "1 \<le> j \<and> j < 2 \<longleftrightarrow> j = 1" for j :: nat by auto
  ultimately have v2: "first_vacant ?k = Some 2"
    by (auto simp: first_vacant_def scan_Some MAX_TASKS_def le_less_Suc_eq numeral_2_eq_2)
  have f: "fdt_wf (t_fds (demo_task p q))" "t_cwd (demo_task p q) < MAX_INODES" for p q
    by (simp_all add: demo_task_def task_idle_def)
  have "sched_wf (install 1 (demo_task 1 0) (boot_kernel\<lparr>next_pid := next_pid boot_kernel + 1, guard_phys := (guard_phys boot_kernel)[1 := 0]\<rparr>))"
    by (rule install_wf[OF boot_kernel_wf v1]) (simp_all add: f, simp_all add: demo_task_def task_idle_def)
  then have w1: "sched_wf ?k" by (simp add: add_demo_def v1)
  let ?k2 = "add_demo (demo_task 2 1) ?k"
  have n1: "next_pid ?k = 2" "guard_phys ?k = replicate MAX_TASKS 0" by (simp_all add: k install_def set_slot_def)
  have "sched_wf (install 2 (demo_task 2 1) (?k\<lparr>next_pid := next_pid ?k + 1, guard_phys := (guard_phys ?k)[2 := 0]\<rparr>))"
    by (rule install_wf[OF w1 v2]) (simp_all add: f n1, simp_all add: demo_task_def task_idle_def)
  then have w2: "sched_wf ?k2" by (simp add: add_demo_def[of _ ?k] v2)
  show t: "tasks two_kernel = (replicate MAX_TASKS None)[0 := Some task_idle, 1 := Some (demo_task 1 0), 2 := Some (demo_task 2 1)]"
    by (simp add: two_kernel_def add_demo_def[of _ ?k] v2 install_def set_slot_def t1)
  show "current two_kernel = 1" "next_pid two_kernel = 3" "guard_phys two_kernel = replicate MAX_TASKS 0"
    "k_pool two_kernel = pool_init" "saved_next two_kernel = (\<lambda>_. None)" "pipe_waiters two_kernel = replicate MAX_PIPES None"
    "k_mem two_kernel = demo_mem" "tick_count two_kernel = 0"
    by (simp_all add: two_kernel_def add_demo_def[of _ ?k] v2 n1, simp_all add: install_def set_slot_def k)
  show "sched_wf two_kernel"
    unfolding two_kernel_def by (rule set_current_wf[OF w2]) (use t in \<open>simp_all add: two_kernel_def MAX_TASKS_def\<close>)
qed

lemma two_kernel_tasks [simp]:
  "tasks two_kernel ! 0 = Some task_idle" "tasks two_kernel ! 1 = Some (demo_task 1 0)" "tasks two_kernel ! 2 = Some (demo_task 2 1)"
  "tasks two_kernel ! Suc 0 = Some (demo_task 1 0)" "length (tasks two_kernel) = MAX_TASKS"
  by (simp_all add: two_kernel_parts(1) MAX_TASKS_def)

lemma two_kernel_pick: "pick_next two_kernel = 2"
proof -
  have "slot_ready two_kernel 2" by (simp add: slot_ready_def demo_task_def task_idle_def)
  then have "scan (\<lambda>i. slot_ready two_kernel (probe (current two_kernel) i)) 0 (MAX_TASKS - 1) = Some 0"
    by (intro scan_hit) (simp_all add: probe_eq two_kernel_parts MAX_TASKS_def numeral_2_eq_2)
  then show ?thesis by (simp add: pick_next_def probe_eq two_kernel_parts)
qed

lemma two_kernel_canary: "canary_ok two_kernel s" if "s < MAX_TASKS"
  using that by (simp add: canary_ok_def two_kernel_parts)

section \<open>The invariant of the running system\<close>



section \<open>Scheduling\<close>

text \<open>C12: Round-robin fairness: a slot that stays ready is running after at most 63 scheduling decisions,
  whatever else happens between them.\<close>

theorem schedule_fair:
  assumes "0 < s" "s < MAX_TASKS" "\<And>n. slot_ready (ks n) s"
    "\<And>n. schedule (ks n) = Some (ks' n)" "\<And>n. current (ks (Suc n)) = current (ks' n)"
  shows "\<exists>n < 63. current (ks' n) = s"
  using round_robin_fair[OF assms(1-3)] schedule_frame(1)[OF assms(4)] assms(5) by auto

lemma two_kernel_pick_2: "pick_next (two_kernel\<lparr>current := 2\<rparr>) = 1"
proof -
  have "slot_ready two_kernel 1" by (simp add: slot_ready_def demo_task_def task_idle_def)
  then have r: "slot_ready (two_kernel\<lparr>current := 2\<rparr>) 1" by (simp add: slot_ready_def)
  have n: "\<not> slot_ready (two_kernel\<lparr>current := 2\<rparr>) (probe 2 j)" if "j < 61" for j
    using that by (simp add: slot_ready_def probe_eq two_kernel_parts(1) MAX_TASKS_def nth_list_update)
  have "probe 2 61 = 1" by (simp add: probe_eq)
  then have "scan (\<lambda>i. slot_ready (two_kernel\<lparr>current := 2\<rparr>) (probe 2 i)) 0 (MAX_TASKS - 1) = Some 61"
    using r n by (simp add: scan_Some MAX_TASKS_def)
  with \<open>probe 2 61 = 1\<close> show ?thesis by (simp add: pick_next_def)
qed

lemma two_kernel_schedule:
  assumes "s = 1 \<or> s = 2"
  shows "\<exists>k'. schedule (two_kernel\<lparr>current := s\<rparr>) = Some k' \<and> current k' = 3 - s"
proof -
  have e: "two_kernel\<lparr>current := 1\<rparr> = two_kernel" using two_kernel_parts(2) by simp
  have "sched_wf (two_kernel\<lparr>current := s\<rparr>)" using assms by (intro set_current_wf two_kernel_parts) (auto simp: MAX_TASKS_def)
  moreover have "canary_ok (two_kernel\<lparr>current := s\<rparr>) s" using two_kernel_canary[of s] assms
    by (auto simp: canary_ok_def MAX_TASKS_def)
  ultimately have "schedule (two_kernel\<lparr>current := s\<rparr>) \<noteq> None"
    by (simp add: schedule_panics_iff two_kernel_parts)
  then obtain k' where k': "schedule (two_kernel\<lparr>current := s\<rparr>) = Some k'" by blast
  with schedule_frame(1)[OF k'] assms two_kernel_pick two_kernel_pick_2 e show ?thesis by auto
qed

theorem schedule_fair_witness:
  "\<exists>n < (63 :: nat). current (the (schedule (two_kernel\<lparr>current := (if even n then 1 else 2)\<rparr>))) = 2"
proof (rule schedule_fair[where ks = "\<lambda>n. two_kernel\<lparr>current := (if even n then 1 else 2)\<rparr>"])
  show "slot_ready (two_kernel\<lparr>current := (if even n then 1 else 2)\<rparr>) 2" for n
    by (simp add: slot_ready_def demo_task_def task_idle_def)
  fix n :: nat
  obtain k' where "schedule (two_kernel\<lparr>current := (if even n then 1 else 2)\<rparr>) = Some k'"
    "current k' = 3 - (if even n then 1 else 2)" using two_kernel_schedule[of 1] two_kernel_schedule[of 2] by (cases "even n") auto
  then show "schedule (two_kernel\<lparr>current := (if even n then 1 else 2)\<rparr>) = Some (the (schedule (two_kernel\<lparr>current := (if even n then 1 else 2)\<rparr>)))"
    "current (two_kernel\<lparr>current := (if even (Suc n) then 1 else 2)\<rparr>) = current (the (schedule (two_kernel\<lparr>current := (if even n then 1 else 2)\<rparr>)))"
    by auto
qed (simp_all add: MAX_TASKS_def)

text \<open>C22: With a well-formed task table \<^verbatim>\<open>schedule\<close> panics in exactly two situations: the canary of the
  running task's stack was overwritten, or the task it switches to was last switched out in favour
  of a slot that has been emptied since.\<close>

theorem schedule_panics_only:
  assumes "sched_wf k"
  shows "schedule k = None \<longleftrightarrow> \<not> canary_ok k (current k)
    \<or> pick_next k \<noteq> current k \<and> (\<exists>n. saved_next k (pick_next k) = Some n \<and> tasks k ! n = None)"
  using assms by (rule schedule_panics_iff)

theorem schedule_panics_only_witness: "\<exists>k'. schedule two_kernel = Some k'"
  using schedule_panics_only[OF two_kernel_parts(10)] two_kernel_canary[of 1]
  by (auto simp: two_kernel_parts MAX_TASKS_def)

text \<open>A context switch loads the incoming task: its kernel stack pointer, its kernel stack for traps
  from user mode and its page table (the kernel's own for a kernel task); the outgoing task keeps
  the stack pointer and the FS base it was running with.\<close>

theorem switch_loads_task:
  assumes "schedule k = Some k'" "pick_next k \<noteq> current k" "sched_wf k" "tasks k ! pick_next k = Some nt"
  shows "h_rsp (k_hw k') = kernel_sp nt \<and> h_rsp0 (k_hw k') = (if is_user nt then stack_top nt else 0)
    \<and> h_cr3 (k_hw k') = (if page_table_phys nt \<noteq> 0 then page_table_phys nt else word_of_nat (k_pml4 (k_image k)))
    \<and> map_option kernel_sp (tasks k' ! current k) = Some (h_rsp (k_hw k))
    \<and> map_option t_fs_base (tasks k' ! current k) = Some (h_fs_base (k_hw k))"
  using schedule_registers[OF assms] by simp

theorem switch_loads_task_witness:
  "\<exists>k'. schedule two_kernel = Some k' \<and> h_rsp (k_hw k') = kernel_sp (demo_task 2 1)"
proof -
  have "schedule two_kernel \<noteq> None"
    using schedule_panics_iff[OF two_kernel_parts(10)] two_kernel_canary[of 1]
    by (simp add: two_kernel_parts MAX_TASKS_def)
  then obtain k' where k': "schedule two_kernel = Some k'" by blast
  with switch_loads_task[OF k' _ two_kernel_parts(10), of "demo_task 2 1"] show ?thesis
    by (simp add: two_kernel_pick two_kernel_parts(2))
qed

section \<open>Signals and waiting\<close>

text \<open>C33: A lethal signal kills: at a timer tick that delivers signals, every live task other than the idle
  one that has SIGKILL, SIGABRT, SIGQUIT, SIGTERM or SIGINT pending becomes a zombie with exit
  code 1 and the same process identifier.\<close>

theorem lethal_signal_kills:
  assumes wf: "sched_wf k" and s: "0 < s" "s < MAX_TASKS" "tasks k ! s = Some t" "t_state t \<noteq> Zombie" "lethal t"
    and tk: "(tick_count k + 1) mod 5 = 0" "tick k = Some k'"
  shows "\<exists>t'. tasks k' ! s = Some t' \<and> t_state t' = Zombie \<and> exit_code t' = 1 \<and> pid t' = pid t"
proof -
  let ?k1 = "k\<lparr>tick_count := tick_count k + 1\<rparr>"
  have w1: "sched_wf ?k1" using wf by (simp add: sched_wf_def)
  have "\<exists>t'. tasks (fold deliver_slot [1..<MAX_TASKS] ?k1) ! s = Some t' \<and> t_state t' = Zombie \<and> exit_code t' = 1 \<and> pid t' = pid t"
    by (rule deliver_fold[OF _ w1]) (use s in auto)
  then obtain t' where t': "tasks (deliver_all_signals ?k1) ! s = Some t'" "t_state t' = Zombie" "exit_code t' = 1" "pid t' = pid t"
    by (auto simp: deliver_all_signals_def)
  have k': "k' = deliver_all_signals ?k1 \<or> schedule (deliver_all_signals ?k1) = Some k'"
    using tk by (auto simp: tick_def Let_def split: if_splits)
  have "\<exists>t''. tasks k' ! s = Some t'' \<and> t_state t'' = t_state t' \<and> exit_code t'' = exit_code t' \<and> pid t'' = pid t'"
    using k'
  proof
    assume sc: "schedule (deliver_all_signals ?k1) = Some k'"
    have "length (tasks (deliver_all_signals ?k1)) = MAX_TASKS"
      using deliver_all_wf[OF w1] sched_wfD(1) tasks_wfD(1) by blast
    then show ?thesis using schedule_frame(10)[OF sc] t'(1) s(2) by auto
  qed (use t'(1) in simp)
  with t' show ?thesis by auto
qed

theorem lethal_signal_kills_witness:
  "\<exists>k' t'. tick ((upd_task 2 (\<lambda>t. fst (raise_signal SIGKILL t)) two_kernel)\<lparr>tick_count := 4\<rparr>) = Some k'
     \<and> tasks k' ! 2 = Some t' \<and> t_state t' = Zombie \<and> exit_code t' = 1"
proof -
  let ?k = "(upd_task 2 (\<lambda>t. fst (raise_signal SIGKILL t)) two_kernel)\<lparr>tick_count := 4\<rparr>"
  let ?t = "fst (raise_signal SIGKILL (demo_task 2 1))"
  have "sched_wf (upd_task 2 (\<lambda>t. fst (raise_signal SIGKILL t)) two_kernel)"
    by (rule upd_task_wf[OF two_kernel_parts(10)]) simp
  then have wf: "sched_wf ?k" by (simp only: sched_wf_tick)
  have t: "tasks ?k ! 2 = Some ?t" by (simp add: MAX_TASKS_def)
  have z: "t_state ?t \<noteq> Zombie" by (simp add: raise_signal_def demo_task_def task_idle_def Let_def)
  have l: "lethal ?t" using pending_raise[of SIGKILL] by (simp add: lethal_def SIGKILL_def)
  obtain k' where k': "tick ?k = Some k'" by (simp add: tick_def Let_def)
  have "0 < (2 :: nat)" "2 < MAX_TASKS" "(tick_count ?k + 1) mod 5 = 0" by (simp_all add: MAX_TASKS_def)
  from lethal_signal_kills[OF wf this(1,2) t z l this(3) k'] k' show ?thesis by blast
qed

text \<open>C34: \<^verbatim>\<open>waitpid\<close> with a matching zombie child returns the identifier of such a child and its exit code
  in the status word, frees exactly that slot and changes nothing else.\<close>

theorem waitpid_reaps_child:
  assumes "0 < s" "s < MAX_TASKS" "zombie_child k p target s"
  shows "\<exists>r t. zombie_child k p target r \<and> tasks k ! r = Some t \<and>
    waitpid_pass p target nh k = Some (set_slot r None k, Done (sint (pid t), Some (push_bit 8 (exit_code t AND 0xFF))))"
proof -
  obtain r where r: "scan (zombie_child k p target) 1 MAX_TASKS = Some r"
    using scan_exists[of 1 s MAX_TASKS "zombie_child k p target"] assms by auto
  then have z: "zombie_child k p target r" by (rule scan_SomeD)
  then obtain t where t: "tasks k ! r = Some t" by (auto simp: zombie_child_def split: option.splits)
  from waitpid_reaps[OF r t] z t show ?thesis by blast
qed

theorem waitpid_reaps_child_witness:
  "\<exists>r (t :: task). waitpid_pass 1 (- 1) True (upd_task 2 (\<lambda>t. t\<lparr>t_state := Zombie, exit_code := 3\<rparr>) two_kernel)
     = Some (set_slot r None (upd_task 2 (\<lambda>t. t\<lparr>t_state := Zombie, exit_code := 3\<rparr>) two_kernel), Done (sint (pid t), Some (push_bit 8 (exit_code t AND 0xFF))))"
proof -
  have "zombie_child (upd_task 2 (\<lambda>t. t\<lparr>t_state := Zombie, exit_code := 3\<rparr>) two_kernel) 1 (- 1) 2" "0 < (2 :: nat)" "2 < MAX_TASKS"
    by (simp_all add: zombie_child_def MAX_TASKS_def demo_task_def task_idle_def)
  from waitpid_reaps_child[OF this(2,3,1), of True] show ?thesis by blast
qed

text \<open>\<^verbatim>\<open>waitpid\<close> without any child returns ECHILD at once and changes nothing; with a live child and
  WNOHANG it returns 0.\<close>

theorem waitpid_no_zombie:
  assumes "\<And>s. 0 < s \<Longrightarrow> s < MAX_TASKS \<Longrightarrow> \<not> zombie_child k p target s"
  shows "((\<forall>s. 0 < s \<longrightarrow> s < MAX_TASKS \<longrightarrow> \<not> live_child k p s) \<longrightarrow> waitpid_pass p target nh k = Some (k, Done (- 10, None)))
    \<and> ((\<exists>s. 0 < s \<and> s < MAX_TASKS \<and> live_child k p s) \<longrightarrow> waitpid_pass p target True k = Some (k, Done (0, None)))"
proof -
  have "scan (zombie_child k p target) 1 MAX_TASKS = None" using assms by (simp add: scan_None)
  moreover have "scan (live_child k p) 1 MAX_TASKS = None \<longleftrightarrow> (\<forall>s. 0 < s \<longrightarrow> s < MAX_TASKS \<longrightarrow> \<not> live_child k p s)"
    by (auto simp: scan_None)
  ultimately show ?thesis by (auto simp: waitpid_pass_def)
qed

theorem waitpid_no_zombie_witness:
  "waitpid_pass 1 (- 1) True two_kernel = Some (two_kernel, Done (0, None))"
proof -
  have z: "\<not> zombie_child two_kernel 1 (- 1) s" if "0 < s" "s < MAX_TASKS" for s
    using that by (auto simp: zombie_child_def two_kernel_parts(1) nth_list_update MAX_TASKS_def demo_task_def task_idle_def split: if_splits)
  have "live_child two_kernel 1 2" by (simp add: live_child_def demo_task_def task_idle_def)
  then have "\<exists>s. 0 < s \<and> s < MAX_TASKS \<and> live_child two_kernel 1 s" by (intro exI[of _ 2]) (simp add: MAX_TASKS_def)
  with waitpid_no_zombie[of two_kernel 1 "- 1" True, OF z] show ?thesis by blast
qed

section \<open>Pipe references\<close>

text \<open>The kernel in which task 1 has made a pipe: descriptors 3 and 4 are its ends.\<close>

definition pipe_kernel :: kernel where
  "pipe_kernel = fst (the (sys_pipe 0x1000 two_kernel))"

lemma two_kernel_refs: "refs_ok two_kernel"
proof -
  have "set fdt_new \<subseteq> {Empty, Stdin, Stdout, Stderr}"
    unfolding fdt_new_def by (intro order.trans[OF set_update_subset_insert] insert_subsetI) auto
  then have f: "(\<Sum>fd\<leftarrow>fdt_new. fd_weight fd e) = 0" for e by (auto simp: sum_list_eq_0_iff)
  have w: "task_weight (tasks two_kernel ! s) e = 0" if "s < MAX_TASKS" for s e
    using that by (auto simp: two_kernel_parts(1) nth_list_update MAX_TASKS_def task_weight_def demo_task_def task_idle_def f split: if_splits)
  have "held (tasks two_kernel) e = held (replicate MAX_TASKS None) e" for e
    by (rule held_same) (use w in \<open>simp_all add: task_weight_def\<close>)
  moreover have "held (replicate n None) e = 0" for n e by (induction n) (auto simp: held_def task_weight_def)
  moreover have "end_count pool_init e = 0" for e by (cases e) (simp_all add: pool_init_def pipe_slot_new_def)
  ultimately show ?thesis using w by (simp add: refs_ok_def two_kernel_parts(5)) metis
qed

lemma pool_init_alloc:
  obtains pool where "alloc_pipe pool_init = (pool, Some 0)"
proof -
  have "snd (alloc_pipe pool_init) = Some 0"
    by (simp add: alloc_pipe_def pool_init_def pipe_slot_new_def MAX_PIPES_def scan_hit)
  then show ?thesis using that by (metis prod.collapse)
qed

lemma fdt_new_alloc: "fdt_alloc x fdt_new = (fdt_new[3 := x], Some 3)"
    "x \<noteq> Empty \<Longrightarrow> fdt_alloc y (fdt_new[3 := x]) = (fdt_new[3 := x, 4 := y], Some 4)"
proof -
  have "scan (\<lambda>i. fdt_new ! i = Empty) 3 MAX_FDS = Some 3"
    by (rule scan_hit) (simp_all add: fdt_new_def MAX_FDS_def)
  then show "fdt_alloc x fdt_new = (fdt_new[3 := x], Some 3)" by (simp add: fdt_alloc_def)
  assume "x \<noteq> Empty"
  then have "scan (\<lambda>i. fdt_new[3 := x] ! i = Empty) 3 MAX_FDS = Some 4"
    unfolding scan_Some by (auto simp: fdt_new_def MAX_FDS_def nth_list_update le_less_Suc_eq)
  then show "fdt_alloc y (fdt_new[3 := x]) = (fdt_new[3 := x, 4 := y], Some 4)" by (simp add: fdt_alloc_def)
qed

lemma user_write_frame2 [simp]:
  "saved_next (user_write va bs k) = saved_next k" "guard_phys (user_write va bs k) = guard_phys k" "k_hw (user_write va bs k) = k_hw k"
  using user_write_mem[of va bs k] by auto

lemma pipe_kernel_parts:
  "sys_pipe 0x1000 two_kernel = Some (pipe_kernel, Reply 0)" "current pipe_kernel = 1"
  "cur_task pipe_kernel = Some ((demo_task 1 0)\<lparr>t_fds := fdt_new[3 := PipeRead 0, 4 := PipeWrite 0]\<rparr>)"
  "k_pool pipe_kernel = fst (alloc_pipe pool_init)" "length (tasks pipe_kernel) = MAX_TASKS"
  "saved_next pipe_kernel = (\<lambda>_. None)" "guard_phys pipe_kernel = replicate MAX_TASKS 0" "pipe_waiters pipe_kernel = replicate MAX_PIPES None"
  "tasks pipe_kernel ! 2 = Some (demo_task 2 1)" "tasks pipe_kernel ! 0 = Some task_idle"
proof -
  obtain pool where a: "alloc_pipe pool_init = (pool, Some 0)" by (rule pool_init_alloc)
  have t: "t_fds (demo_task 1 0) = fdt_new" by (simp add: demo_task_def task_idle_def)
  let ?k1 = "upd_current (\<lambda>t. t\<lparr>t_fds := fdt_new[3 := PipeRead 0]\<rparr>) (two_kernel\<lparr>k_pool := pool\<rparr>)"
  have c1: "current_fd_alloc (PipeRead 0) (two_kernel\<lparr>k_pool := pool\<rparr>) = (?k1, Some 3)"
    by (simp add: current_fd_alloc_def two_kernel_parts(2) t fdt_new_alloc(1))
  have t1: "cur_task ?k1 = Some ((demo_task 1 0)\<lparr>t_fds := fdt_new[3 := PipeRead 0]\<rparr>)" "current ?k1 = 1"
    by (simp_all add: upd_current_def two_kernel_parts(2) MAX_TASKS_def)
  let ?k2 = "upd_current (\<lambda>t. t\<lparr>t_fds := fdt_new[3 := PipeRead 0, 4 := PipeWrite 0]\<rparr>) ?k1"
  have c2: "current_fd_alloc (PipeWrite 0) ?k1 = (?k2, Some 4)"
    unfolding current_fd_alloc_def t1(1) option.case by (simp add: fdt_new_alloc(2))
  have p: "sys_pipe 0x1000 two_kernel = Some (write_fd_pair 0x1000 3 4 ?k2, Reply 0)"
    by (simp add: sys_pipe_def two_kernel_parts(5) a c1 c2 ret_def)
  then have k: "pipe_kernel = write_fd_pair 0x1000 3 4 ?k2" by (simp add: pipe_kernel_def)
  from p k show "sys_pipe 0x1000 two_kernel = Some (pipe_kernel, Reply 0)" by simp
  show "saved_next pipe_kernel = (\<lambda>_. None)" "guard_phys pipe_kernel = replicate MAX_TASKS 0" "pipe_waiters pipe_kernel = replicate MAX_PIPES None"
    by (simp_all add: k write_fd_pair_def upd_current_def upd_task_def two_kernel_parts)
  show "current pipe_kernel = 1" "length (tasks pipe_kernel) = MAX_TASKS" "k_pool pipe_kernel = fst (alloc_pipe pool_init)"
    "tasks pipe_kernel ! 2 = Some (demo_task 2 1)" "tasks pipe_kernel ! 0 = Some task_idle"
    "cur_task pipe_kernel = Some ((demo_task 1 0)\<lparr>t_fds := fdt_new[3 := PipeRead 0, 4 := PipeWrite 0]\<rparr>)"
    by (simp_all add: k write_fd_pair_def upd_current_def two_kernel_parts(2) a MAX_TASKS_def)
qed

text \<open>A successful \<^verbatim>\<open>pipe\<close> call keeps the pool's counters equal to the number of descriptors that refer
  to each pipe end.\<close>

theorem pipe_keeps_refs:
  assumes "sched_wf k" "refs_ok k" "cur_task k = Some t" "t_state t \<noteq> Zombie" "sys_pipe p k = Some (k', Reply 0)"
  shows "refs_ok k'"
  using assms by (rule refs_sys_pipe)

theorem pipe_keeps_refs_witness: "refs_ok pipe_kernel"
  by (rule pipe_keeps_refs[OF two_kernel_parts(10) two_kernel_refs _ _ pipe_kernel_parts(1), of "demo_task 1 0"])
     (simp_all add: two_kernel_parts(2), simp add: demo_task_def task_idle_def)

lemma pipe_kernel_ok: "sched_wf pipe_kernel" "refs_ok pipe_kernel"
proof -
  show "sched_wf pipe_kernel"
    using sys_pipe_wf[OF two_kernel_parts(10), of "0x1000"] pipe_kernel_parts(1) by (simp add: res_wf_def)
  show "refs_ok pipe_kernel"
    by (rule refs_sys_pipe[OF two_kernel_parts(10) two_kernel_refs _ _ pipe_kernel_parts(1), of "demo_task 1 0"])
       (simp_all add: two_kernel_parts(2), simp add: demo_task_def task_idle_def)
qed

text \<open>C24: A task that exits releases exactly the references its descriptors held, whatever task runs next.\<close>

theorem exit_keeps_refs:
  assumes "sched_wf k" "refs_ok k" "exit_current c k = Some k'"
  shows "refs_ok k'"
  using assms by (rule refs_exit_current)

lemma wake_closed_none:
  assumes "\<forall>i < MAX_PIPES. pipe_waiters k ! i = None"
  shows "wake_closed_pipe_readers k = k"
proof -
  have "set is \<subseteq> {..<MAX_PIPES} \<Longrightarrow>
      fold (\<lambda>i k. if \<not> pipe_write_open i (k_pool k) then wake_pipe_waiter i k else k) is k = k" for "is"
    using assms by (induction "is") (auto simp: wake_pipe_waiter_def)
  moreover have "set [0..<MAX_PIPES] \<subseteq> {..<MAX_PIPES}" by auto
  ultimately show ?thesis unfolding wake_closed_pipe_readers_def by blast
qed

lemma exit_frame:
  assumes "k1 = signal_parent pp sig (wake_child_waiters p pp' (exit_task s c k))"
  shows "saved_next k1 = saved_next k" "guard_phys k1 = guard_phys k" "current k1 = current k" "pipe_waiters k1 = pipe_waiters k"
  unfolding assms
  by (auto simp: signal_parent_def wake_child_waiters_def exit_task_def set_slot_def upd_task_def split: option.splits prod.splits)

lemma exit_runs: "\<exists>k'. exit_current 0 pipe_kernel = Some k'"
proof -
  let ?t = "(demo_task 1 0)\<lparr>t_fds := fdt_new[3 := PipeRead 0, 4 := PipeWrite 0]\<rparr>"
  let ?k = "signal_parent (ppid ?t) SIGCHLD (wake_child_waiters (pid ?t) (ppid ?t) (exit_task (current pipe_kernel) 0 pipe_kernel))"
  note F = exit_frame[OF refl, of "ppid ?t" SIGCHLD "pid ?t" "ppid ?t" "current pipe_kernel" 0 pipe_kernel]
  have wf: "sched_wf ?k"
    by (intro signal_parent_wf wake_child_waiters_wf exit_task_wf pipe_kernel_ok) (simp add: pipe_kernel_parts(2) MAX_TASKS_def)
  have sc: "schedule ?k \<noteq> None"
    unfolding schedule_panics_iff[OF wf] canary_ok_def F(1-3) pipe_kernel_parts(6,7) using pipe_kernel_parts(2) by (simp add: MAX_TASKS_def)
  have "wake_closed_pipe_readers ?k = ?k"
    by (rule wake_closed_none) (unfold F(4) pipe_kernel_parts(8), simp)
  with sc have "exit_current 0 pipe_kernel \<noteq> None"
    unfolding exit_current_def pipe_kernel_parts(3) option.case by metis
  then show ?thesis by blast
qed

theorem exit_keeps_refs_witness: "\<exists>k'. exit_current 0 pipe_kernel = Some k' \<and> refs_ok k'"
proof -
  obtain k' where k': "exit_current 0 pipe_kernel = Some k'" using exit_runs by blast
  with exit_keeps_refs[OF pipe_kernel_ok k'] show ?thesis by blast
qed

text \<open>Closing a descriptor, of a pipe or of anything else, keeps the counters exact.\<close>

theorem close_keeps_refs:
  assumes "sched_wf k" "refs_ok k" "cur_task k = Some t" "t_state t \<noteq> Zombie" "sys_close fd k = Some (k', res)"
  shows "refs_ok k'"
  using assms by (rule refs_sys_close)

theorem close_keeps_refs_witness: "\<exists>k'. sys_close 4 pipe_kernel = Some (k', Reply 0) \<and> refs_ok k'"
proof -
  have "\<exists>k'. sys_close 4 pipe_kernel = Some (k', Reply 0)"
    by (simp add: sys_close_def current_fd_close_def pipe_kernel_parts(3) fdt_close_def fdt_new_def MAX_FDS_def ret_def)
  then obtain k' where "sys_close 4 pipe_kernel = Some (k', Reply 0)" by blast
  with close_keeps_refs[OF pipe_kernel_ok pipe_kernel_parts(3) _ this] show ?thesis
    by (simp add: demo_task_def task_idle_def)
qed

text \<open>C23: Forking duplicates every pipe reference of the parent: whether or not the fork succeeds the counters
  stay exact, as long as no counter would pass 255.\<close>

theorem fork_keeps_refs:
  assumes "sched_wf k" "refs_ok k" "cur_task k = Some t" "\<And>e. end_count (k_pool k) e + task_weight (Some t) e \<le> 255"
  shows "refs_ok (fst (spawn_fork ip sp regs cs k))"
  using assms by (rule refs_spawn_fork)

theorem fork_keeps_refs_witness: "refs_ok (fst (spawn_fork 0x8000001000 0x8000010000 (replicate 6 0) (replicate 6 0) pipe_kernel))"
proof (rule fork_keeps_refs[OF pipe_kernel_ok pipe_kernel_parts(3)])
  fix e
  let ?t = "(demo_task 1 0)\<lparr>t_fds := fdt_new[3 := PipeRead 0, 4 := PipeWrite 0]\<rparr>"
  have "task_weight (Some ?t) e \<le> end_count (k_pool pipe_kernel) e"
    using held_current(1)[OF pipe_kernel_ok pipe_kernel_parts(3), of e] by (simp add: task_weight_def)
  moreover have "end_count (k_pool pipe_kernel) e \<le> 1"
  proof -
    obtain pool where a: "alloc_pipe pool_init = (pool, Some 0)" by (rule pool_init_alloc)
    have "end_count pool_init e = 0" by (cases e) (simp_all add: pool_init_def pipe_slot_new_def)
    then show ?thesis using end_count_alloc[OF pool_init_wf a, of e] by (simp add: pipe_kernel_parts(4) a)
  qed
  ultimately show "end_count (k_pool pipe_kernel) e + task_weight (Some ?t) e \<le> 255" by simp
qed

text \<open>\<^verbatim>\<open>dup\<close> of a pipe descriptor breaks the accounting: it copies the descriptor without taking a
  reference, so afterwards the pool counts fewer references than there are descriptors.\<close>

theorem dup_breaks_refs:
  assumes "sched_wf k" "refs_ok k" "cur_task k = Some t" "sys_dup fd k = Some (k', Reply n)" "0 \<le> n"
    "fd_weight (t_fds t ! fd) e \<noteq> 0"
  shows "\<not> refs_ok k'"
  using assms by (rule refs_sys_dup)

theorem dup_breaks_refs_witness: "\<exists>k' n. sys_dup 4 pipe_kernel = Some (k', Reply n) \<and> \<not> refs_ok k'"
proof -
  let ?fds = "fdt_new[3 := PipeRead 0, 4 := PipeWrite 0]"
  have "scan (\<lambda>i. ?fds ! i = Empty) 3 MAX_FDS = Some 5"
    unfolding scan_Some
  proof (intro conjI allI impI)
    fix j :: nat assume "3 \<le> j" "j < 5"
    then have "j = 3 \<or> j = 4" by auto
    then show "?fds ! j \<noteq> Empty" by (auto simp: fdt_new_def MAX_FDS_def)
  qed (simp_all add: fdt_new_def MAX_FDS_def)
  then have a: "fdt_alloc (PipeWrite 0) ?fds = (?fds[5 := PipeWrite 0], Some 5)" by (simp add: fdt_alloc_def)
  have g: "fdt_get 4 ?fds = Some (PipeWrite 0)" by (simp add: fdt_get_def fdt_new_def MAX_FDS_def)
  have "\<exists>k'. sys_dup 4 pipe_kernel = Some (k', Reply 5)"
    unfolding sys_dup_def current_fd_dup_def current_fd_get_def current_fd_alloc_def pipe_kernel_parts(3) option.case
    by (simp add: g a ret_fd_def ret_def isize_def)
  then obtain k' where "sys_dup 4 pipe_kernel = Some (k', Reply 5)" by blast
  moreover have "fd_weight (t_fds ((demo_task 1 0)\<lparr>t_fds := ?fds\<rparr>) ! 4) (WEnd 0) \<noteq> 0" by (simp add: fdt_new_def MAX_FDS_def)
  ultimately show ?thesis using dup_breaks_refs[OF pipe_kernel_ok pipe_kernel_parts(3), of 4 k' 5 "WEnd 0"] by auto
qed

section \<open>Data through a pipe\<close>

lemma current_fd_get_wake:
  "current k < length (tasks k) \<Longrightarrow> current_fd_get fd (wake_pipe_waiter i k) = current_fd_get fd k"
  by (auto simp: current_fd_get_def wake_pipe_waiter_def wake_task_def split: option.splits)

lemma wake_pipe_waiter_pool [simp]: "k_pool (wake_pipe_waiter i k) = k_pool k" "k_fs (wake_pipe_waiter i k) = k_fs k"
  by (simp_all add: wake_pipe_waiter_def split: option.split)

lemma sys_write_pipe:
  assumes wf: "sched_wf k" and fd: "current_fd_get w k = Some (PipeWrite i)" and p: "pipe_read_open i (k_pool k)" "in_use (k_pool k ! i)"
    and b: "0 < len" "buf \<noteq> 0" and room: "length (slot_contents (k_pool k) i) + len \<le> PIPE_BUF - 1"
  shows "\<exists>k1. sys_write w buf len k = Some (k1, Reply (isize len)) \<and> sched_wf k1
    \<and> slot_contents (k_pool k1) i = slot_contents (k_pool k) i @ user_read k buf len
    \<and> in_use (k_pool k1 ! i) \<and> (\<forall>fd. current_fd_get fd k1 = current_fd_get fd k)"
proof -
  have i: "i < MAX_PIPES" using current_fd_get_ok[OF wf fd] by simp
  note P = sched_wfD(6)[OF wf]
  let ?d = "user_read k buf len"
  obtain pool n where w: "pipe_write i ?d (k_pool k) = (pool, n)" by fastforce
  have n: "n = len" and c: "slot_contents pool i = slot_contents (k_pool k) i @ ?d"
    using pipe_write_effect[OF P i p(2), of ?d] room w by (auto simp: user_read_def)
  have u: "in_use (pool ! i)" using pipe_io_frame(3)[of i "k_pool k" i ?d] pool_wfD(1)[OF P] i p(2) w by simp
  let ?k1 = "wake_pipe_waiter i (k\<lparr>k_pool := pool\<rparr>)"
  have s: "sys_write w buf len k = Some (?k1, Reply (isize len))"
    using fd b p(1) n w by (simp add: sys_write_def write_pipe_def ret_def Let_def)
  have "sched_wf ?k1"
    using sys_write_wf[OF wf, of w buf len] s by (simp add: res_wf_def)
  moreover have "current_fd_get fd ?k1 = current_fd_get fd k" for fd
    using current_fd_get_wake[of "k\<lparr>k_pool := pool\<rparr>" fd i] sched_wfD(2)[OF wf] tasks_wfD(1)[OF sched_wfD(1)[OF wf]]
    by (simp add: current_fd_get_def)
  ultimately show ?thesis using s c u by auto
qed

lemma sys_read_pipe:
  assumes wf: "sched_wf k" and fd: "current_fd_get r k = Some (PipeRead i)" and u: "in_use (k_pool k ! i)"
    and b: "0 < len" "buf \<noteq> 0" and ne: "slot_contents (k_pool k) i \<noteq> []"
  shows "\<exists>p. sys_read ev r buf len k
      = Some (user_write buf (take len (slot_contents (k_pool k) i)) (k\<lparr>k_pool := p\<rparr>), Reply (isize (length (take len (slot_contents (k_pool k) i)))))
    \<and> slot_contents p i = drop len (slot_contents (k_pool k) i)"
proof -
  have i: "i < MAX_PIPES" using current_fd_get_ok[OF wf fd] by simp
  obtain p out where r: "pipe_read i len (k_pool k) = (p, out)" by fastforce
  have e: "out = take len (slot_contents (k_pool k) i)" "slot_contents p i = drop len (slot_contents (k_pool k) i)"
    using pipe_read_effect[OF sched_wfD(6)[OF wf] i u, of len] r by auto
  moreover have "out \<noteq> []" using e(1) ne b(1) by simp
  ultimately show ?thesis using fd b r by (intro exI[of _ p]) (simp add: sys_read_def read_pipe_def ret_def Let_def)
qed

text \<open>C25: Bytes written to an empty pipe by the \<^verbatim>\<open>write\<close> system call are the bytes the next \<^verbatim>\<open>read\<close> call on its
  other end stores into the reader's buffer, in order, both calls reporting the full length; the
  pipe is empty again afterwards.\<close>

theorem pipe_syscalls_transfer:
  assumes "sched_wf k" "current_fd_get w k = Some (PipeWrite i)" "current_fd_get r k = Some (PipeRead i)"
    "pipe_read_open i (k_pool k)" "in_use (k_pool k ! i)" "slot_contents (k_pool k) i = []"
    "0 < len" "len \<le> PIPE_BUF - 1" "src \<noteq> 0" "dst \<noteq> 0"
  shows "\<exists>k1 p. sys_write w src len k = Some (k1, Reply (isize len))
    \<and> sys_read ev r dst len k1 = Some (user_write dst (user_read k src len) (k1\<lparr>k_pool := p\<rparr>), Reply (isize len))
    \<and> slot_contents p i = []"
proof -
  from assms obtain k1 where k1: "sys_write w src len k = Some (k1, Reply (isize len))" "sched_wf k1"
    "slot_contents (k_pool k1) i = user_read k src len" "in_use (k_pool k1 ! i)" "current_fd_get r k1 = Some (PipeRead i)"
    using sys_write_pipe[OF assms(1,2,4,5,7,9)] by auto
  have l: "length (user_read k src len) = len" by (simp add: user_read_def)
  have "slot_contents (k_pool k1) i \<noteq> []" using k1(3) l assms(7) by auto
  from sys_read_pipe[OF k1(2,5,4) assms(7,10) this, of ev] k1(1,3) l show ?thesis by auto
qed

theorem pipe_syscalls_transfer_witness:
  "\<exists>k1 p. sys_write 4 0x2000 3 pipe_kernel = Some (k1, Reply (isize 3))
    \<and> sys_read \<lparr>e_seed = (\<lambda>_. 0), e_callee_saved = [], e_version = []\<rparr> 3 0x3000 3 k1
      = Some (user_write 0x3000 (user_read pipe_kernel 0x2000 3) (k1\<lparr>k_pool := p\<rparr>), Reply (isize 3))
    \<and> slot_contents p 0 = []"
proof (rule pipe_syscalls_transfer)
  obtain pool where a: "alloc_pipe pool_init = (pool, Some 0)" by (rule pool_init_alloc)
  note A = alloc_pipe_Some[OF pool_init_wf a]
  have k: "k_pool pipe_kernel = pool" by (simp add: pipe_kernel_parts(4) a)
  show "pipe_read_open 0 (k_pool pipe_kernel)" "in_use (k_pool pipe_kernel ! 0)" "slot_contents (k_pool pipe_kernel) 0 = []"
    unfolding k pipe_read_open_def using A by auto
  show "current_fd_get 4 pipe_kernel = Some (PipeWrite 0)" "current_fd_get 3 pipe_kernel = Some (PipeRead 0)"
    unfolding current_fd_get_def pipe_kernel_parts(3) by (simp_all add: fdt_get_def fdt_new_def MAX_FDS_def)
qed (simp_all add: pipe_kernel_ok PIPE_BUF_def)

section \<open>Divergences\<close>

text \<open>Opening an existing file with O_TRUNC does not truncate it: without O_CREAT, opening never changes
  the file system at all.\<close>

theorem open_never_truncates:
  assumes "flags AND 0x40 = 0" "open_at cwd path flags k = Some (k', r)"
  shows "k_fs k' = k_fs k"
proof -
  have "fst (inode_write i 0 [] fs) = fs" for i fs by (simp add: inode_write_def Let_def)
  then show ?thesis using assms
    by (auto simp: open_at_def Let_def ret_fd_def ret_def current_fd_alloc_def upd_current_def
        split: option.splits prod.splits if_splits)
qed

theorem open_never_truncates_witness:
  "\<exists>k' r. open_at 0 (ascii ''/etc/motd'') 0x201 two_kernel = Some (k', r) \<and> k_fs k' = k_fs two_kernel"
proof -
  have "\<exists>k' r. open_at 0 (ascii ''/etc/motd'') 0x201 two_kernel = Some (k', r)"
    by (simp add: open_at_def Let_def ret_fd_def ret_def split: option.split prod.split)
  then obtain k' r where "open_at 0 (ascii ''/etc/motd'') 0x201 two_kernel = Some (k', r)" by blast
  with open_never_truncates[OF _ this] show ?thesis by auto
qed

text \<open>\<^verbatim>\<open>getdents64\<close> loses and repeats entries: when the first entry of a directory does not fit the
  buffer but the second does, the call returns the second and advances by one, so the next call
  returns the second again and the first is never returned.\<close>

theorem getdents_repeats_entry:
  assumes "write_dirent64 count (word_of_nat a) 1 (take (i_name_len (fs ! a)) (i_name (fs ! a))) (if i_kind (fs ! a) = Dir then 4 else 8) = None"
    "write_dirent64 count (word_of_nat b) 1 (take (i_name_len (fs ! b)) (i_name (fs ! b))) (if i_kind (fs ! b) = Dir then 4 else 8) = Some rec"
  shows "fold (dents_step fs count 0) [a, b] ([], 0, 0) = (rec, 2, 1)
    \<and> (\<exists>rec'. fold (dents_step fs count 1) [a, b] ([], 0, 1) = (rec', 2, 2) \<and> take 8 rec' = take 8 rec)"
proof -
  let ?n = "take (i_name_len (fs ! b)) (i_name (fs ! b))" and ?t = "if i_kind (fs ! b) = Dir then 4 else 8 :: u8"
  obtain rec' where r: "write_dirent64 count (word_of_nat b) 2 ?n ?t = Some rec'" "take 8 rec' = take 8 rec"
    using assms(2) by (auto simp: write_dirent64_def Let_def split: if_splits)
  have "fold (dents_step fs count 0) [a, b] ([], 0, 0) = (rec, 2, 1)"
    using assms by (simp add: dents_step_def Let_def del: if_split)
  moreover have "fold (dents_step fs count 1) [a, b] ([], 0, 1) = (rec', 2, 2)"
    using r(1) by (simp add: dents_step_def Let_def numeral_2_eq_2 del: if_split)
  ultimately show ?thesis using r(2) by blast
qed

theorem getdents_repeats_entry_witness:
  "\<exists>rec. fold (dents_step [inode_empty\<lparr>i_name_len := 60\<rparr>, inode_empty\<lparr>i_name_len := 1\<rparr>] 32 0) [0, 1] ([], 0, 0) = (rec, 2, 1)"
proof -
  let ?fs = "[inode_empty\<lparr>i_name_len := 60\<rparr>, inode_empty\<lparr>i_name_len := 1\<rparr>]"
  have len: "length (i_name inode_empty) = 64" by (simp add: inode_empty_def MAX_NAME_def)
  have a: "write_dirent64 32 (word_of_nat 0) 1 (take (i_name_len (?fs ! 0)) (i_name (?fs ! 0))) (if i_kind (?fs ! 0) = Dir then 4 else 8) = None"
    by (simp add: write_dirent64_def Let_def len)
  obtain rec where b: "write_dirent64 32 (word_of_nat 1) 1 (take (i_name_len (?fs ! 1)) (i_name (?fs ! 1))) (if i_kind (?fs ! 1) = Dir then 4 else 8) = Some rec"
    by (simp add: write_dirent64_def Let_def len)
  from getdents_repeats_entry[OF a b] show ?thesis by blast
qed

text \<open>A parent that reaps a child can bring the kernel down: if a task was switched out in favour of that
  child and is the next to run, \<^verbatim>\<open>schedule\<close> panics, because the resumed frame dereferences the slot
  that the reaping emptied.\<close>

theorem reap_then_resume_panics:
  assumes "saved_next k a = Some b" "a \<noteq> current k" "tasks k ! b \<noteq> None"
    "waitpid_pass p target nh k = Some (k1, Done r)" "tasks k1 ! b = None" "pick_next k1 = a"
  shows "schedule k1 = None"
proof -
  have k1: "saved_next k1 = saved_next k" "current k1 = current k"
    using assms(4) by (auto simp: waitpid_pass_def set_slot_def split: option.splits if_splits)
  have "tasks (switch_out a nt k1) ! b = None" for nt
  proof (cases "b < length (tasks k1)")
    case True
    then show ?thesis using assms(5) by (simp add: switch_out_def Let_def)
  next
    case False
    then have "upd_nth s f (tasks k1) ! b = tasks k1 ! b" for s f
      by (simp add: upd_nth_def nth_list_update_neq) (metis linorder_not_less list_update_beyond nth_list_update_neq)
    then show ?thesis using assms(5) by (simp add: switch_out_def Let_def upd_task_def)
  qed
  moreover have "saved_next (switch_out a nt k1) a = Some b" for nt
    using assms(1,2) k1 by (simp add: switch_out_def Let_def)
  ultimately show ?thesis using assms(2,6) k1
    by (simp add: schedule_def Let_def resume_def split: option.split)
qed

lemma pick_next_cong: "tasks k' = tasks k \<Longrightarrow> current k' = current k \<Longrightarrow> pick_next k' = pick_next k"
  by (simp add: pick_next_def slot_ready_def cong: option.case_cong)

text \<open>Task 3 has started task 4, which ran after task 1 was switched out for it and has exited.\<close>

definition reap_kernel :: kernel where
  "reap_kernel = two_kernel\<lparr>tasks := (tasks two_kernel)[2 := Some ((demo_task 4 3)\<lparr>t_state := Zombie\<rparr>), 3 := Some (demo_task 3 0)],
     current := 3, saved_next := (\<lambda>_. None)(1 := Some 2), next_pid := 5\<rparr>"

theorem reap_then_resume_panics_witness:
  "\<exists>k1 r. waitpid_pass 3 (- 1) True reap_kernel = Some (k1, Done r) \<and> schedule k1 = None"
proof -
  have ts: "tasks reap_kernel = (replicate MAX_TASKS None)[0 := Some task_idle, 1 := Some (demo_task 1 0),
      2 := Some ((demo_task 4 3)\<lparr>t_state := Zombie\<rparr>), 3 := Some (demo_task 3 0)]"
    by (simp add: reap_kernel_def two_kernel_parts(1))
  have z: "scan (zombie_child reap_kernel 3 (- 1)) 1 MAX_TASKS = Some 2"
    unfolding scan_Some
    by (auto simp: zombie_child_def ts MAX_TASKS_def demo_task_def task_idle_def nth_list_update split: if_splits)
  let ?k1 = "set_slot 2 None reap_kernel"
  have t: "tasks reap_kernel ! 2 = Some ((demo_task 4 3)\<lparr>t_state := Zombie\<rparr>)" by (simp add: ts MAX_TASKS_def)
  note w = waitpid_reaps[OF z t, of True]
  have "scan (\<lambda>i. slot_ready ?k1 (probe 3 i)) 0 (MAX_TASKS - 1) = Some 60"
    unfolding scan_Some
    by (auto simp: slot_ready_def probe_eq ts MAX_TASKS_def nth_list_update demo_task_def task_idle_def)
  then have "pick_next ?k1 = 1" by (simp add: pick_next_def reap_kernel_def probe_eq)
  moreover have "tasks ?k1 ! 2 = None" by (simp add: ts MAX_TASKS_def)
  moreover have "saved_next reap_kernel 1 = Some 2" "1 \<noteq> current reap_kernel" by (simp_all add: reap_kernel_def)
  ultimately have "schedule ?k1 = None"
    using reap_then_resume_panics[OF _ _ _ w] t by simp
  with w show ?thesis by blast
qed

text \<open>A resumed task does not get its own FS base back: the register is loaded from the task it had been
  switched out in favour of.\<close>

theorem resume_loads_foreign_fs_base:
  assumes "schedule k = Some k'" "pick_next k = a" "a \<noteq> current k" "saved_next k a = Some b" "b < length (tasks k)" "tasks k ! b = Some tb"
  shows "h_fs_base (k_hw k') = (if b = current k then h_fs_base (k_hw k) else t_fs_base tb)"
proof -
  from assms(1,2,3) obtain nt where r: "resume a (switch_out a nt k) = Some k'"
    by (auto simp: schedule_def Let_def split: if_splits option.splits)
  then show ?thesis using assms(3-6)
    by (auto simp: resume_def switch_out_def Let_def split: option.splits if_splits)
qed

definition fs_kernel :: kernel where
  "fs_kernel = two_kernel\<lparr>current := 2, saved_next := (\<lambda>_. None)(1 := Some 2),
     k_hw := (k_hw two_kernel)\<lparr>h_fs_base := 0x77\<rparr>\<rparr>"

theorem resume_loads_foreign_fs_base_witness:
  "\<exists>k'. schedule fs_kernel = Some k' \<and> current k' = 1 \<and> map_option t_fs_base (tasks fs_kernel ! 1) = Some 0 \<and> h_fs_base (k_hw k') = 0x77"
proof -
  have wf: "sched_wf fs_kernel"
    using set_current_wf[OF two_kernel_parts(10), of 2] unfolding fs_kernel_def sched_wf_def by (auto simp: MAX_TASKS_def)
  have p: "pick_next fs_kernel = 1"
    using pick_next_cong[of fs_kernel "two_kernel\<lparr>current := 2\<rparr>"] two_kernel_pick_2 by (simp add: fs_kernel_def)
  have f: "saved_next fs_kernel 1 = Some 2" "current fs_kernel = 2" "tasks fs_kernel ! 2 = Some (demo_task 2 1)"
    "tasks fs_kernel ! 1 = Some (demo_task 1 0)" "length (tasks fs_kernel) = MAX_TASKS" "h_fs_base (k_hw fs_kernel) = 0x77"
    "guard_phys fs_kernel = replicate MAX_TASKS 0"
    by (simp_all add: fs_kernel_def two_kernel_parts(4))
  have "schedule fs_kernel \<noteq> None"
    unfolding schedule_panics_iff[OF wf] using f p by (simp add: canary_ok_def MAX_TASKS_def)
  then obtain k' where k': "schedule fs_kernel = Some k'" by blast
  have "2 < length (tasks fs_kernel)" "1 \<noteq> current fs_kernel" using f by (simp_all add: MAX_TASKS_def)
  from resume_loads_foreign_fs_base[OF k' p this(2) f(1) this(1) f(3)] k' schedule_frame(1)[OF k'] f p show ?thesis
    by (auto simp: demo_task_def task_idle_def)
qed

text \<open>A pipe remembers one waiting reader: when a second task blocks on the same pipe, the data or hang-up
  that wakes the pipe's waiter leaves the first task blocked, and no waiter is recorded any more.\<close>

theorem second_reader_loses_wakeup:
  assumes "sched_wf k" "i < MAX_PIPES" "\<not> pipe_has_data i (k_pool k)" "pipe_write_open i (k_pool k)"
    "pipe_waiters k ! i = Some s" "s < MAX_TASKS" "s \<noteq> current k" "tasks k ! s = Some t" "t_state t = Blocked"
    "block_on_pipe i k = Some k'"
  shows "\<exists>t'. tasks (wake_pipe_waiter i k') ! s = Some t' \<and> t_state t' = Blocked \<and> pipe_waiters (wake_pipe_waiter i k') ! i = None"
proof -
  let ?k0 = "k\<lparr>pipe_waiters := (pipe_waiters k)[i := Some (current k)]\<rparr>"
  let ?k1 = "upd_task (current k) (\<lambda>t. t\<lparr>t_state := Blocked\<rparr>) ?k0"
  note D = sched_wfD[OF assms(1)]
  have sc: "schedule ?k1 = Some k'"
    using assms(3,4,10) by (auto simp: block_on_pipe_def block_current_def split: if_splits)
  have len: "length (tasks k) = MAX_TASKS" by (rule tasks_wfD(1)[OF D(1)])
  have w: "pipe_waiters k' ! i = Some (current k)" "length (pipe_waiters k') = MAX_PIPES"
    using schedule_frame(7)[OF sc] assms(2) D(5) by (simp_all add: upd_task_def)
  have "tasks k' ! s = Some t"
    using schedule_frame(10)[OF sc] assms(6,7,8) len by auto
  then show ?thesis using w assms(2,6,7,9) schedule_frame(10)[OF sc] len
    by (auto simp: wake_pipe_waiter_def)
qed

theorem second_reader_loses_wakeup_witness:
  "\<exists>k' t'. block_on_pipe 0 ((upd_task 2 (\<lambda>t. t\<lparr>t_state := Blocked\<rparr>) pipe_kernel)\<lparr>pipe_waiters := (replicate MAX_PIPES None)[0 := Some 2]\<rparr>) = Some k'
     \<and> tasks (wake_pipe_waiter 0 k') ! 2 = Some t' \<and> t_state t' = Blocked"
proof -
  let ?k = "(upd_task 2 (\<lambda>t. t\<lparr>t_state := Blocked\<rparr>) pipe_kernel)\<lparr>pipe_waiters := (replicate MAX_PIPES None)[0 := Some 2]\<rparr>"
  have wf: "sched_wf ?k"
    by (intro sched_wf_waiters upd_task_wf pipe_kernel_ok) (simp_all add: mild_def)
  obtain pool where a: "alloc_pipe pool_init = (pool, Some 0)" by (rule pool_init_alloc)
  note A = alloc_pipe_Some[OF pool_init_wf a]
  have pool: "k_pool ?k = pool" by (simp add: pipe_kernel_parts(4) a)
  have e: "\<not> pipe_has_data 0 (k_pool ?k)" "pipe_write_open 0 (k_pool ?k)"
    unfolding pool using A pipe_is_empty_iff[OF pool_wfD(3)[OF alloc_pipe_wf[OF pool_init_wf], of 0]]
    by (auto simp: pipe_has_data_def pipe_write_open_def a)
  let ?k1 = "upd_task (current ?k) (\<lambda>t. t\<lparr>t_state := Blocked\<rparr>) (?k\<lparr>pipe_waiters := (pipe_waiters ?k)[0 := Some (current ?k)]\<rparr>)"
  have wf1: "sched_wf ?k1"
    by (intro upd_task_wf sched_wf_waiters wf) (simp_all add: mild_def)
  have "schedule ?k1 \<noteq> None"
    unfolding schedule_panics_iff[OF wf1] by (simp add: canary_ok_def upd_task_def pipe_kernel_parts(2,6,7) MAX_TASKS_def)
  moreover have "block_on_pipe 0 ?k = schedule ?k1"
    using e sched_wfD(3)[OF wf] by (auto simp: block_on_pipe_def block_current_def)
  ultimately obtain k' where k': "block_on_pipe 0 ?k = Some k'" by (metis not_None_eq)
  have "\<exists>t'. tasks (wake_pipe_waiter 0 k') ! 2 = Some t' \<and> t_state t' = Blocked \<and> pipe_waiters (wake_pipe_waiter 0 k') ! 0 = None"
    by (rule second_reader_loses_wakeup[OF wf _ e _ _ _ _ _ k', where t = "(demo_task 2 1)\<lparr>t_state := Blocked\<rparr>"])
       (simp_all add: MAX_PIPES_def MAX_TASKS_def pipe_kernel_parts(2,5,9))
  with k' show ?thesis by blast
qed

text \<open>A failed \<^verbatim>\<open>socketpair\<close> leaks: when no descriptor is free it returns EMFILE, but the first of the two
  pipes it took stays allocated with one writer that no descriptor refers to.\<close>

theorem socketpair_failure_leaks:
  assumes wf: "sched_wf k" and p: "sv \<noteq> 0" and t: "cur_task k = Some t" "\<forall>i. 3 \<le> i \<longrightarrow> i < MAX_FDS \<longrightarrow> t_fds t ! i \<noteq> Empty"
    and a: "alloc_pipe (k_pool k) = (p1, Some a)" "alloc_pipe p1 = (p2, Some b)"
  shows "\<exists>k'. sys_socketpair sv k = Some (k', Reply (- 24)) \<and> in_use (k_pool k' ! a) \<and> write_count (k_pool k' ! a) = 1"
proof -
  note P = sched_wfD(6)[OF wf]
  have P1: "pool_wf p1" using alloc_pipe_wf[OF P] a(1) by simp
  have P2: "pool_wf p2" using alloc_pipe_wf[OF P1] a(2) by simp
  note A = alloc_pipe_Some[OF P a(1)] and B = alloc_pipe_Some[OF P1 a(2)]
  have ab: "b \<noteq> a" using A(3) B(2) by auto
  have f: "fdt_alloc x (t_fds t) = (t_fds t, None)" for x using t(2) by (simp add: fdt_alloc_None)
  have c: "current_fd_alloc x (k\<lparr>k_pool := p2\<rparr>) = (k\<lparr>k_pool := p2\<rparr>, None)" for x
    using t(1) f upd_current_same[of "k\<lparr>k_pool := p2\<rparr>" t "t_fds_update (\<lambda>_. t_fds t)"]
    by (simp add: current_fd_alloc_def)
  let ?p = "close_pipe_read b (close_pipe_write b (close_pipe_read a p2))"
  have W: "pool_wf (close_pipe_read a p2)" "pool_wf (close_pipe_write b (close_pipe_read a p2))"
    using P2 by (simp_all add: close_pipe_read_wf close_pipe_write_wf)
  have "write_count (?p ! a) = write_count (p2 ! a)"
    using close_pipe_counts[OF P2 A(1) A(1)] close_pipe_counts[OF W(1) B(1) A(1)] close_pipe_counts[OF W(2) B(1) A(1)] ab by simp
  then have wc: "write_count (?p ! a) = 1" using A(6) B(7)[of a] ab by simp
  moreover have "in_use (?p ! a)"
    using pool_wfD(2)[OF close_pipe_read_wf[OF W(2)] A(1), of b] wc by (simp add: slot_wf_def)
  ultimately show ?thesis using p a c by (simp add: sys_socketpair_def ret_def)
qed

theorem socketpair_failure_leaks_witness:
  "\<exists>k' a. sys_socketpair 0x1000 (upd_task 1 (\<lambda>t. t\<lparr>t_fds := replicate MAX_FDS DevNull\<rparr>) two_kernel) = Some (k', Reply (- 24))
     \<and> in_use (k_pool k' ! a)"
proof -
  let ?k = "upd_task 1 (\<lambda>t. t\<lparr>t_fds := replicate MAX_FDS DevNull\<rparr>) two_kernel"
  have wf: "sched_wf ?k" by (rule upd_task_wf[OF two_kernel_parts(10)]) (simp add: mild_def fdt_wf_def list_all_length)
  obtain p1 where a: "alloc_pipe pool_init = (p1, Some 0)" by (rule pool_init_alloc)
  note A = alloc_pipe_Some[OF pool_init_wf a]
  have w1: "pool_wf p1" using alloc_pipe_wf[OF pool_init_wf] a by simp
  have "\<not> in_use (p1 ! 1)" using A(7)[of 1] by (simp add: pool_init_def pipe_slot_new_def MAX_PIPES_def)
  then have "snd (alloc_pipe p1) \<noteq> None" using alloc_pipe_None[OF w1] by (auto simp: MAX_PIPES_def)
  then obtain p2 b where b: "alloc_pipe p1 = (p2, Some b)" by (metis option.exhaust prod.collapse)
  have "\<exists>k'. sys_socketpair 0x1000 ?k = Some (k', Reply (- 24)) \<and> in_use (k_pool k' ! 0) \<and> write_count (k_pool k' ! 0) = 1"
    by (rule socketpair_failure_leaks[OF wf _ _ _ _ b, where t = "(demo_task 1 0)\<lparr>t_fds := replicate MAX_FDS DevNull\<rparr>"])
       (simp_all add: two_kernel_parts(2,5) a MAX_TASKS_def)
  then show ?thesis by blast
qed

end
