(* ===== verification/Machine.thy ===== *)
theory Machine
  imports Prelude
begin

text \<open>
  The part of an x86_64 processor that the kernel's assembly stubs use (\<^verbatim>\<open>naked_asm!\<close> blocks of
  \<^verbatim>\<open>kernel/src/arch/x86_64/idt.rs\<close> and \<^verbatim>\<open>context.rs\<close>): the general registers, the words of memory that
  the stubs reach, the statics they name relative to \<^verbatim>\<open>rip\<close>, and what \<^verbatim>\<open>iretq\<close>, \<^verbatim>\<open>sysretq\<close>, \<^verbatim>\<open>syscall\<close> and an
  interrupt do to the user-visible state, and the bytes written to ports.  A stub is a list of instructions and \<open>exec\<close> runs it.

  Memory is a function from addresses to 64-bit words; the stubs only use addresses that differ from
  the stack pointer at entry by multiples of 8.  A call of a compiled function follows the System V
  convention: the stack pointer has to be 16-byte aligned, the callee-saved registers and the memory from
  the stack pointer on keep their values, the other registers and the memory below the stack pointer
  are left with arbitrary contents (\<open>junk\<close>).  The type parameter is the rest of the kernel's state.
\<close>

unbundle bit_operations_syntax

datatype reg = RAX | RBX | RCX | RDX | RSI | RDI | RBP | RSP | R8 | R9 | R10 | R11 | R12 | R13 | R14 | R15

datatype glob = U_RSP | K_RSP | SV_RBX | SV_RBP | SV_R12 | SV_R13 | SV_R14 | SV_R15

record 'k machine =
  rg :: "reg \<Rightarrow> u64"
  st :: "u64 \<Rightarrow> u64"
  gl :: "glob \<Rightarrow> u64"
  cr2 :: u64
  ip :: u64
  cs :: u64
  ss :: u64
  flags :: u64
  ports :: "(u16 \<times> u8) list"
  world :: 'k

text \<open>How a step ends: the next state; control has gone elsewhere for good or for now (halted, switched
  away); or a step that is not allowed.\<close>

datatype 'a flow = Next 'a | Away 'a | Stuck

fun andthen :: "'a flow \<Rightarrow> ('a \<Rightarrow> 'b flow) \<Rightarrow> ('a \<Rightarrow> 'b) \<Rightarrow> 'b flow" where
  "andthen (Next m) f g = f m"
| "andthen (Away m) f g = Away (g m)"
| "andthen Stuck f g = Stuck"

record junk =
  j_regs :: "reg \<Rightarrow> u64"
  j_mem :: "u64 \<Rightarrow> u64"

datatype operand = R reg | Ind reg u64 | G glob | Cr2

datatype 'k instr =
    Push operand
  | Pop reg
  | Mov operand operand
  | Movi reg u64
  | Lea reg reg u64
  | Addi reg u64
  | Subi reg u64
  | Ori reg u64
  | Call "'k machine \<Rightarrow> 'k machine flow"
  | Iretq
  | Sysretq
  | Ret
  | Hlt

fun callee_saved :: "reg \<Rightarrow> bool" where
  "callee_saved RBX = True" | "callee_saved RBP = True" | "callee_saved RSP = True" | "callee_saved R12 = True"
| "callee_saved R13 = True" | "callee_saved R14 = True" | "callee_saved R15 = True" | "callee_saved _ = False"

fun get :: "operand \<Rightarrow> 'k machine \<Rightarrow> u64" where
  "get (R r) m = rg m r"
| "get (Ind r d) m = st m (rg m r + d)"
| "get (G g) m = gl m g"
| "get Cr2 m = cr2 m"

definition set_reg :: "reg \<Rightarrow> u64 \<Rightarrow> 'k machine \<Rightarrow> 'k machine" where
  "set_reg r v m = m\<lparr>rg := (rg m)(r := v)\<rparr>"

fun put :: "operand \<Rightarrow> u64 \<Rightarrow> 'k machine \<Rightarrow> 'k machine" where
  "put (R r) v m = set_reg r v m"
| "put (Ind r d) v m = m\<lparr>st := (st m)(rg m r + d := v)\<rparr>"
| "put (G g) v m = m\<lparr>gl := (gl m)(g := v)\<rparr>"
| "put Cr2 v m = m\<lparr>cr2 := v\<rparr>"

definition push :: "u64 \<Rightarrow> 'k machine \<Rightarrow> 'k machine" where
  "push v m = m\<lparr>st := (st m)(rg m RSP - 8 := v), rg := (rg m)(RSP := rg m RSP - 8)\<rparr>"

text \<open>A call of a compiled function.  \<open>a - rsp < 2 ^ 63\<close> says that \<open>a\<close> lies from the stack pointer on.\<close>

definition compiled :: "junk \<Rightarrow> ('k machine \<Rightarrow> 'k machine flow) \<Rightarrow> 'k machine \<Rightarrow> 'k machine flow" where
  "compiled j f m =
     (if take_bit 4 (rg m RSP) \<noteq> 0 then Stuck
      else andthen (f m)
        (\<lambda>m'. Next (m'\<lparr>rg := (\<lambda>r. if callee_saved r then rg m r else if r = RAX then rg m' RAX else j_regs j r),
                       st := (\<lambda>a. if a - rg m RSP < 0x8000000000000000 then st m' a else j_mem j a)\<rparr>)) id)"

text \<open>The selectors that \<^verbatim>\<open>sysretq\<close> loads come from bits 63-48 of the STAR register.\<close>

definition star :: u64 where
  "star = push_bit 48 0x10 OR push_bit 32 0x08"

fun step :: "junk \<Rightarrow> 'k instr \<Rightarrow> 'k machine \<Rightarrow> 'k machine flow" where
  "step j (Push a) m = Next (push (get a m) m)"
| "step j (Pop r) m = (let v = st m (rg m RSP) in Next (set_reg r v (set_reg RSP (rg m RSP + 8) m)))"
| "step j (Mov d a) m = Next (put d (get a m) m)"
| "step j (Movi r v) m = Next (set_reg r v m)"
| "step j (Lea r b d) m = Next (set_reg r (rg m b + d) m)"
| "step j (Addi r v) m = Next (set_reg r (rg m r + v) m)"
| "step j (Subi r v) m = Next (set_reg r (rg m r - v) m)"
| "step j (Ori r v) m = Next (set_reg r (rg m r OR v) m)"
| "step j (Call f) m = compiled j f m"
| "step j Iretq m =
     (let a = rg m RSP in
      Next (m\<lparr>ip := st m a, cs := st m (a + 8), flags := st m (a + 16), rg := (rg m)(RSP := st m (a + 24)), ss := st m (a + 32)\<rparr>))"
| "step j Sysretq m =
     Next (m\<lparr>ip := rg m RCX, flags := rg m R11 AND 0x3C7FD7 OR 2,
             cs := (drop_bit 48 star + 16) OR 3, ss := (drop_bit 48 star + 8) OR 3\<rparr>)"
| "step j Ret m = Next (m\<lparr>ip := st m (rg m RSP), rg := (rg m)(RSP := rg m RSP + 8)\<rparr>)"
| "step j Hlt m = Away m"

text \<open>Straight-line execution; each call leaves its own junk.\<close>

fun exec :: "(nat \<Rightarrow> junk) \<Rightarrow> 'k instr list \<Rightarrow> 'k machine \<Rightarrow> 'k machine flow" where
  "exec js [] m = Next m"
| "exec js (i # is) m = andthen (step (js (length is)) i m) (exec js is) id"

text \<open>\<^verbatim>\<open>syscall\<close> with LSTAR at the stub and FMASK 0x200, and the delivery of an interrupt with or without
  an error code on the kernel stack \<open>sp0\<close>.\<close>

definition syscall_hw :: "'k machine \<Rightarrow> 'k machine" where
  "syscall_hw m = m\<lparr>rg := (rg m)(RCX := ip m, R11 := flags m), flags := flags m AND NOT 0x200,
                    cs := drop_bit 32 star AND 0xFFFC, ss := (drop_bit 32 star AND 0xFFFC) + 8\<rparr>"

definition interrupt_hw :: "u64 \<Rightarrow> u64 option \<Rightarrow> 'k machine \<Rightarrow> 'k machine" where
  "interrupt_hw sp0 err m =
     (let sp = sp0 AND NOT 15;
          m1 = push (ip m) (push (cs m) (push (flags m) (push (rg m RSP) (push (ss m) (set_reg RSP sp m)))))
      in (case err of None \<Rightarrow> m1 | Some e \<Rightarrow> push e m1)\<lparr>cs := 0x08, flags := flags m AND NOT 0x200\<rparr>)"

section \<open>Execution\<close>

lemma exec_append: "length q = n \<Longrightarrow> exec js (p @ q) m = andthen (exec (\<lambda>i. js (i + n)) p m) (exec js q) id"
proof (induction p arbitrary: m)
  case (Cons i p)
  then show ?case by (cases "step (js (length p + n)) i m") (simp_all add: add.commute)
qed simp

lemma andthen_Next: "andthen r f g = Next b \<longleftrightarrow> (\<exists>a. r = Next a \<and> f a = Next b)"
  by (cases r) auto

text \<open>Addresses are kept in the form \<open>sp - n\<close>.\<close>

named_theorems sp_simps

lemma sp_sum: "(a :: u64) - x - y = a - (x + y)" "(a :: u64) - x + y = a - (x - y)"
  by simp_all

lemmas sp_offsets [sp_simps] = sp_sum[of _ "numeral n" "numeral k" for n k]

lemma sp_cancel [sp_simps]:
  "(a :: u64) - x = a - y \<longleftrightarrow> x = y" "(a :: u64) - x = a \<longleftrightarrow> x = 0" "a = (a :: u64) - x \<longleftrightarrow> x = 0"
  "(a :: u64) - x - (a - y) = y - x" "(a :: u64) - (a - y) = y" "(a :: u64) - x - a = - x"
  by auto

lemma take_bit_diff: "take_bit n ((a :: u64) - b) = take_bit n (take_bit n a - take_bit n b)"
  by transfer (simp add: take_bit_take_bit take_bit_diff)

lemma aligned_offset [sp_simps]:
  "take_bit 4 a = 0 \<Longrightarrow> take_bit 4 ((a :: u64) - numeral n) = take_bit 4 (- (take_bit 4 (numeral n)))"
  by (subst take_bit_diff) simp

lemma take_bit_masked: "take_bit 4 ((a :: u64) AND NOT 15) = 0"
  by (simp add: bit_eq_iff bit_simps)

lemma reg_eqI:
  fixes f g :: "reg \<Rightarrow> 'a"
  assumes "f RAX = g RAX" "f RBX = g RBX" "f RCX = g RCX" "f RDX = g RDX" "f RSI = g RSI" "f RDI = g RDI" "f RBP = g RBP"
      "f RSP = g RSP" "f R8 = g R8" "f R9 = g R9" "f R10 = g R10" "f R11 = g R11" "f R12 = g R12" "f R13 = g R13" "f R14 = g R14"
      "f R15 = g R15"
  shows "f = g"
proof
  show "f x = g x" for x using assms by (cases x) simp_all
qed

end
