(* ===== verification/Pic.thy ===== *)
theory Pic
  imports Prelude
begin

text \<open>
  \<^verbatim>\<open>kernel/src/boards/qemu_pc/pic.rs\<close> (and its copy for VirtualBox): the pair of 8259A interrupt controllers
  as the data sheet describes them (initialisation words, mask register, vector base), and the code that
  programs them through ports.  The interrupts that reach the processor are those the kernel has stubs for.
\<close>

unbundle bit_operations_syntax

section \<open>The controllers\<close>

text \<open>\<open>icw\<close> is the initialisation word the data port expects next, 0 when it is the mask register.\<close>

record pic8259 =
  imr :: u8
  vec_base :: u8
  cascade :: u8
  pic_mode :: u8
  icw :: nat
  isr :: u8

record pics =
  pic1 :: pic8259
  pic2 :: pic8259

text \<open>The end of an interrupt resets the in-service bit of the highest priority, that of the lowest line.\<close>

definition end_service :: "u8 \<Rightarrow> u8" where
  "end_service w = (case find (bit w) [0..<8] of Some j \<Rightarrow> unset_bit j w | None \<Rightarrow> w)"

definition wr_cmd :: "u8 \<Rightarrow> pic8259 \<Rightarrow> pic8259" where
  "wr_cmd b p = (if bit b 4 then p\<lparr>imr := 0, icw := 2\<rparr> else if b = 0x20 then p\<lparr>isr := end_service (isr p)\<rparr> else p)"

definition wr_data :: "u8 \<Rightarrow> pic8259 \<Rightarrow> pic8259" where
  "wr_data b p =
     (if icw p = 2 then p\<lparr>vec_base := b AND 0xF8, icw := 3\<rparr>
      else if icw p = 3 then p\<lparr>cascade := b, icw := 4\<rparr>
      else if icw p = 4 then p\<lparr>pic_mode := b, icw := 0\<rparr>
      else p\<lparr>imr := b\<rparr>)"

definition PIC1_CMD :: u16 where "PIC1_CMD = 0x20"
definition PIC1_DATA :: u16 where "PIC1_DATA = 0x21"
definition PIC2_CMD :: u16 where "PIC2_CMD = 0xA0"
definition PIC2_DATA :: u16 where "PIC2_DATA = 0xA1"
definition ICW1_ICW4 :: u8 where "ICW1_ICW4 = 0x01"
definition ICW1_INIT :: u8 where "ICW1_INIT = 0x10"
definition ICW4_8086 :: u8 where "ICW4_8086 = 0x01"
definition PIC_EOI :: u8 where "PIC_EOI = 0x20"
definition PIC1_OFFSET :: u8 where "PIC1_OFFSET = 0x20"
definition PIC2_OFFSET :: u8 where "PIC2_OFFSET = 0x28"

definition pic_outb :: "u16 \<Rightarrow> u8 \<Rightarrow> pics \<Rightarrow> pics" where
  "pic_outb port b s =
     (if port = PIC1_CMD then s\<lparr>pic1 := wr_cmd b (pic1 s)\<rparr>
      else if port = PIC1_DATA then s\<lparr>pic1 := wr_data b (pic1 s)\<rparr>
      else if port = PIC2_CMD then s\<lparr>pic2 := wr_cmd b (pic2 s)\<rparr>
      else if port = PIC2_DATA then s\<lparr>pic2 := wr_data b (pic2 s)\<rparr>
      else s)"

definition pic_inb :: "u16 \<Rightarrow> pics \<Rightarrow> u8" where
  "pic_inb port s = (if port = PIC1_DATA then imr (pic1 s) else if port = PIC2_DATA then imr (pic2 s) else 0)"

text \<open>The vector with which a request on a line reaches the processor, if it does; the second controller
  is connected to line 2 of the first.  An interrupt in service holds back its own line and those of lower priority.\<close>

definition served :: "pic8259 \<Rightarrow> nat \<Rightarrow> bool" where
  "served p line \<longleftrightarrow> \<not> bit (imr p) line \<and> list_all (\<lambda>j. \<not> bit (isr p) j) [0..<Suc line]"

definition delivered :: "pics \<Rightarrow> nat \<Rightarrow> u8 option" where
  "delivered s irq =
     (if icw (pic1 s) \<noteq> 0 \<or> icw (pic2 s) \<noteq> 0 then None
      else if irq < 8 then (if served (pic1 s) irq then Some (vec_base (pic1 s) + word_of_nat irq) else None)
      else if served (pic1 s) 2 \<and> served (pic2 s) (irq - 8) then Some (vec_base (pic2 s) + word_of_nat (irq - 8)) else None)"

text \<open>The processor acknowledges a delivered interrupt.\<close>

definition pic_ack :: "nat \<Rightarrow> pics \<Rightarrow> pics" where
  "pic_ack irq s =
     (if irq < 8 then s\<lparr>pic1 := (pic1 s)\<lparr>isr := set_bit irq (isr (pic1 s))\<rparr>\<rparr>
      else s\<lparr>pic1 := (pic1 s)\<lparr>isr := set_bit 2 (isr (pic1 s))\<rparr>, pic2 := (pic2 s)\<lparr>isr := set_bit (irq - 8) (isr (pic2 s))\<rparr>\<rparr>)"

definition pic_writes :: "(u16 \<times> u8) list \<Rightarrow> pics \<Rightarrow> pics" where
  "pic_writes outs s = fold (\<lambda>(port, b). pic_outb port b) outs s"

section \<open>The driver\<close>

definition pic_init :: "pics \<Rightarrow> pics" where
  "pic_init s =
     (let mask1 = pic_inb PIC1_DATA s; mask2 = pic_inb PIC2_DATA s
      in pic_writes
           [(PIC1_CMD, ICW1_INIT OR ICW1_ICW4), (PIC2_CMD, ICW1_INIT OR ICW1_ICW4),
            (PIC1_DATA, PIC1_OFFSET), (PIC2_DATA, PIC2_OFFSET), (PIC1_DATA, 0x04), (PIC2_DATA, 0x02),
            (PIC1_DATA, ICW4_8086), (PIC2_DATA, ICW4_8086), (PIC1_DATA, mask1 OR 0xFB), (PIC2_DATA, mask2 OR 0xFF)] s)"

definition pic_eoi :: "u8 \<Rightarrow> (u16 \<times> u8) list" where
  "pic_eoi irq = (if irq \<ge> 8 then [(PIC2_CMD, PIC_EOI)] else []) @ [(PIC1_CMD, PIC_EOI)]"

definition pic_line :: "u8 \<Rightarrow> u16 \<times> u8" where
  "pic_line irq = (if irq < 8 then (PIC1_DATA, irq) else (PIC2_DATA, irq - 8))"

definition pic_unmask :: "u8 \<Rightarrow> pics \<Rightarrow> pics" where
  "pic_unmask irq s =
     (case pic_line irq of (port, b) \<Rightarrow> pic_outb port (pic_inb port s AND NOT (push_bit (unat b) 1)) s)"

definition pic_mask :: "u8 \<Rightarrow> pics \<Rightarrow> pics" where
  "pic_mask irq s =
     (case pic_line irq of (port, b) \<Rightarrow> pic_outb port (pic_inb port s OR push_bit (unat b) 1) s)"

text \<open>\<^verbatim>\<open>boards::current::init\<close>, \<^verbatim>\<open>unmask_default_irqs\<close> and the serial driver's \<^verbatim>\<open>init\<close>.\<close>

definition unmask_default_irqs :: "pics \<Rightarrow> pics" where
  "unmask_default_irqs s = pic_unmask 1 (pic_unmask 0 s)"

definition irqs_after_boot :: "pics \<Rightarrow> pics" where
  "irqs_after_boot s = pic_unmask 4 (unmask_default_irqs (pic_init s))"

section \<open>Lemmas\<close>

lemmas pic_ports = PIC1_CMD_def PIC1_DATA_def PIC2_CMD_def PIC2_DATA_def

lemma or_all: "(x :: u8) OR 0xFF = 0xFF"
  by (rule bit_word_eqI) (auto simp: bit_simps numeral_eq_Suc less_Suc_eq)

lemma pic_init_state:
  "pic_init s = s\<lparr>pic1 := (pic1 s)\<lparr>imr := imr (pic1 s) OR 0xFB, vec_base := 0x20, cascade := 4, pic_mode := 1, icw := 0\<rparr>,
                  pic2 := (pic2 s)\<lparr>imr := 0xFF, vec_base := 0x28, cascade := 2, pic_mode := 1, icw := 0\<rparr>\<rparr>"
  by (simp add: pic_init_def pic_writes_def Let_def pic_outb_def pic_inb_def pic_ports wr_cmd_def wr_data_def ICW1_INIT_def ICW1_ICW4_def
      PIC1_OFFSET_def PIC2_OFFSET_def ICW4_8086_def or_all)

lemma boot_masks:
  "imr (pic1 (irqs_after_boot s)) = (imr (pic1 s) OR 0xFB) AND NOT 0x13" "imr (pic2 (irqs_after_boot s)) = 0xFF"
  "vec_base (pic1 (irqs_after_boot s)) = 0x20" "vec_base (pic2 (irqs_after_boot s)) = 0x28"
  "icw (pic1 (irqs_after_boot s)) = 0" "icw (pic2 (irqs_after_boot s)) = 0" "isr (pic1 (irqs_after_boot s)) = isr (pic1 s)"
  by (simp_all add: irqs_after_boot_def unmask_default_irqs_def pic_unmask_def pic_line_def pic_init_state pic_outb_def pic_inb_def
      pic_ports wr_data_def and.assoc)

lemma cases16: "(i :: nat) < 16 \<Longrightarrow> i \<in> {0, 1, 2, 3, 4, 5, 6, 7, 8, 9, 10, 11, 12, 13, 14, 15}"
  by (simp add: numeral_eq_Suc less_Suc_eq)

lemma cases8: "(i :: nat) < 8 \<Longrightarrow> i \<in> {0, 1, 2, 3, 4, 5, 6, 7}"
  by (simp add: numeral_eq_Suc less_Suc_eq)

text \<open>C29: After the board's initialisation, with no interrupt in service, exactly the timer, the keyboard and the serial line are delivered, with
  the vectors 32, 33 and 36 of the interrupt stubs that serve them.\<close>

theorem boot_irqs_delivered:
  assumes "i < 16" "i \<noteq> 2" "isr (pic1 s) = 0"
  shows "delivered (irqs_after_boot s) i = (if i = 0 then Some 32 else if i = 1 then Some 33 else if i = 4 then Some 36 else None)"
proof -
  have "served (pic1 (irqs_after_boot s)) j \<longleftrightarrow> j = 0 \<or> j = 1 \<or> j = 4 \<or> j = 2 \<and> \<not> bit (imr (pic1 s)) 2" if "j < 8" for j
    using cases8[OF that] assms(3) unfolding served_def boot_masks by (auto simp: bit_simps list_all_iff)
  moreover have "\<not> served (pic2 (irqs_after_boot s)) j" if "j < 8" for j
    using cases8[OF that] unfolding served_def boot_masks by auto
  ultimately show ?thesis using cases16[OF assms(1)] assms(2) unfolding delivered_def boot_masks by (auto simp: bit_simps)
qed

theorem boot_irqs_delivered_witness:
  "delivered (irqs_after_boot \<lparr>pic1 = \<lparr>imr = 0xB8, vec_base = 8, cascade = 0, pic_mode = 0, icw = 0, isr = 0\<rparr>,
     pic2 = \<lparr>imr = 0, vec_base = 0x70, cascade = 0, pic_mode = 0, icw = 0, isr = 0\<rparr>\<rparr>) 4 = Some 36"
  using boot_irqs_delivered[of 4 "\<lparr>pic1 = \<lparr>imr = 0xB8, vec_base = 8, cascade = 0, pic_mode = 0, icw = 0, isr = 0\<rparr>,
     pic2 = \<lparr>imr = 0, vec_base = 0x70, cascade = 0, pic_mode = 0, icw = 0, isr = 0\<rparr>\<rparr>"] by simp

section \<open>Service of an interrupt\<close>

lemma find_first:
  assumes "n < m" "P n" "list_all (\<lambda>j. \<not> P j) [0..<n]"
  shows "find P [0..<m] = Some n"
proof -
  have "[0..<m] = [0..<n] @ n # [Suc n..<m]" using assms(1) by (metis le_add_diff_inverse less_imp_le_nat upt_add_eq_append upt_conv_Cons zero_le)
  moreover have "find P (xs @ n # ys) = Some n" if "list_all (\<lambda>j. \<not> P j) xs" for xs ys
    using that assms(2) by (induction xs) auto
  ultimately show ?thesis using assms(3) by simp
qed

lemma end_service_set:
  assumes "n < 8" "list_all (\<lambda>j. \<not> bit w j) [0..<Suc n]"
  shows "end_service (set_bit n w) = w"
proof -
  have "find (bit (set_bit n w)) [0..<8] = Some n"
    by (rule find_first) (use assms in \<open>auto simp: list_all_iff bit_simps\<close>)
  moreover have "unset_bit n (set_bit n w) = w"
    using assms(2) by (intro bit_word_eqI) (auto simp: bit_simps list_all_iff)
  ultimately show ?thesis by (simp add: end_service_def)
qed

lemma eoi_after_ack:
  assumes "delivered s n = Some v" "n < 8"
  shows "pic_writes (pic_eoi (word_of_nat n)) (pic_ack n s) = s"
proof -
  have n: "\<not> (8 \<le> (word_of_nat n :: u8))" using assms(2) cases8[OF assms(2)] by (auto simp: word_le_nat_alt)
  have "end_service (set_bit n (isr (pic1 s))) = isr (pic1 s)"
    by (rule end_service_set) (use assms in \<open>auto simp: delivered_def served_def split: if_splits\<close>)
  then show ?thesis using n assms(2)
    by (simp add: pic_writes_def pic_eoi_def pic_ack_def pic_outb_def pic_ports wr_cmd_def PIC_EOI_def bit_simps)
qed

lemma unserved_timer: "delivered (pic_ack 0 s) irq = None"
  by (auto simp: delivered_def served_def pic_ack_def list_all_iff bit_simps)

end
