(* ===== verification/Traps.thy ===== *)
theory Traps
  imports Machine Pic SyscallInv
begin

text \<open>
  \<^verbatim>\<open>kernel/src/arch/x86_64/idt.rs\<close> and the assembly of \<^verbatim>\<open>context.rs\<close>: the entry stubs for system calls,
  interrupts and faults as instruction lists of \<open>Machine\<close>, and the handlers they call on the kernel
  state.  A handler that does not come back at once (the task blocks, exits, or the machine halts) ends
  the run with \<open>Away\<close>.
\<close>

section \<open>System call entry\<close>

definition callee_saved_snapshot :: "'k machine \<Rightarrow> u64 list" where
  "callee_saved_snapshot m = map (gl m) [SV_RBX, SV_RBP, SV_R12, SV_R13, SV_R14, SV_R15]"

definition set_user_ctx :: "u64 \<Rightarrow> u64 \<Rightarrow> kernel \<Rightarrow> kernel" where
  "set_user_ctx uip usp k = k\<lparr>sys_user_ip := uip, sys_user_sp := usp\<rparr>"

definition syscall_entry_rust :: "env \<Rightarrow> kernel machine \<Rightarrow> kernel machine flow" where
  "syscall_entry_rust ev m =
     (let r = rg m; arg = (\<lambda>i. st m (r RSP + 8 * i));
          k = set_user_ctx (arg 1) (arg 2) (world m)
      in case dispatch (ev\<lparr>e_callee_saved := callee_saved_snapshot m\<rparr>)
                (unat (r RDI)) (r RSI) (r RDX) (r RCX) (r R8) (r R9) (arg 0) k of
           Some (k1, Reply v) \<Rightarrow> Next (m\<lparr>world := k1, rg := r(RAX := word_of_int v)\<rparr>)
         | Some (k1, _) \<Rightarrow> Away (m\<lparr>world := k1\<rparr>)
         | None \<Rightarrow> Stuck)"

definition switch_address_space :: "u64 \<Rightarrow> kernel \<Rightarrow> kernel" where
  "switch_address_space pt k = k\<lparr>k_hw := (k_hw k)\<lparr>h_cr3 := pt\<rparr>\<rparr>"

definition apply_exec_redirect_syscall :: "kernel machine \<Rightarrow> kernel machine flow" where
  "apply_exec_redirect_syscall m =
     (case take_exec_ctx (world m) of
        (k, None) \<Rightarrow> Next (m\<lparr>world := k\<rparr>)
      | (k, Some (new_ip, new_sp, new_pt)) \<Rightarrow>
          Next (m\<lparr>st := (st m)(rg m RDI := new_ip), gl := (gl m)(U_RSP := new_sp), world := switch_address_space new_pt k\<rparr>))"

definition apply_exec_redirect :: "kernel machine \<Rightarrow> kernel machine flow" where
  "apply_exec_redirect m =
     (case take_exec_ctx (world m) of
        (k, None) \<Rightarrow> Next (m\<lparr>world := k\<rparr>)
      | (k, Some (new_ip, new_sp, new_pt)) \<Rightarrow>
          Next (m\<lparr>st := (st m)(rg m RDI + 8 * 11 := new_ip, rg m RDI + 8 * 14 := new_sp), world := switch_address_space new_pt k\<rparr>))"

definition syscall_enter :: "kernel instr list" where
  "syscall_enter =
     [Mov (G U_RSP) (R RSP), Mov (R RSP) (G K_RSP),
      Mov (G SV_RBX) (R RBX), Mov (G SV_RBP) (R RBP), Mov (G SV_R12) (R R12),
      Mov (G SV_R13) (R R13), Mov (G SV_R14) (R R14), Mov (G SV_R15) (R R15),
      Push (R RCX), Push (R R11), Push (R RDI), Push (R RSI), Push (R RDX), Push (R R8), Push (R R9), Push (R R10),
      Subi RSP 8, Push (G U_RSP), Push (R RCX), Push (R R9),
      Mov (R R9) (R R8), Mov (R R8) (R R10), Mov (R RCX) (R RDX), Mov (R RDX) (R RSI), Mov (R RSI) (R RDI), Mov (R RDI) (R RAX)]"

definition syscall_leave :: "kernel instr list" where
  "syscall_leave =
     [Addi RSP 32, Subi RSP 8, Push (R RAX), Lea RDI RSP 72, Call apply_exec_redirect_syscall, Pop RAX, Addi RSP 8,
      Pop R10, Pop R9, Pop R8, Pop RDX, Pop RSI, Pop RDI, Pop R11, Ori R11 0x200, Pop RCX,
      Mov (R RSP) (G U_RSP), Sysretq]"

definition syscall_entry_asm :: "env \<Rightarrow> kernel instr list" where
  "syscall_entry_asm ev = syscall_enter @ [Call (syscall_entry_rust ev)] @ syscall_leave"

definition isr128 :: "env \<Rightarrow> kernel instr list" where
  "isr128 ev =
     [Push (R RBX), Push (R RBP), Push (R R12), Push (R R13), Push (R R14), Push (R R15),
      Push (R R10), Push (R R11), Push (R R8), Push (R R9), Push (R RCX),
      Mov (R R11) (R RAX), Subi RSP 8, Mov (R RAX) (Ind RSP 120), Push (R RAX), Mov (R RAX) (Ind RSP 104), Push (R RAX),
      Push (R R9), Mov (R R9) (R R8), Mov (R R8) (R R10), Mov (R RCX) (R RDX), Mov (R RDX) (R RSI), Mov (R RSI) (R RDI),
      Mov (R RDI) (R R11), Call (syscall_entry_rust ev), Addi RSP 32,
      Push (R RAX), Lea RDI RSP 8, Subi RSP 8, Call apply_exec_redirect, Addi RSP 8, Pop RAX,
      Pop RCX, Pop R9, Pop R8, Pop R11, Pop R10, Pop R15, Pop R14, Pop R13, Pop R12, Pop RBP, Pop RBX, Iretq]"

lemmas exec_simps = set_reg_def push_def compiled_def Let_def

lemma syscall_enter_exec:
  "exec js syscall_enter m =
     (let K = gl m K_RSP; r = rg m in
      Next (m\<lparr>rg := r(RSP := K - 96, R9 := r R8, R8 := r R10, RCX := r RDX, RDX := r RSI, RSI := r RDI, RDI := r RAX),
              st := (st m)(K - 8 := r RCX, K - 16 := r R11, K - 24 := r RDI, K - 32 := r RSI, K - 40 := r RDX, K - 48 := r R8,
                 K - 56 := r R9, K - 64 := r R10, K - 80 := r RSP, K - 88 := r RCX, K - 96 := r R9),
              gl := (gl m)(U_RSP := r RSP, SV_RBX := r RBX, SV_RBP := r RBP, SV_R12 := r R12, SV_R13 := r R13,
                 SV_R14 := r R14, SV_R15 := r R15)\<rparr>))"
  by (simp add: syscall_enter_def exec_simps sp_simps fun_upd_twist fun_eq_iff)

text \<open>The words that \<open>syscall_enter\<close> leaves for \<open>syscall_leave\<close>.\<close>

definition saved_regs :: "u64 \<Rightarrow> (reg \<Rightarrow> u64) \<Rightarrow> 'k machine \<Rightarrow> bool" where
  "saved_regs K r m \<longleftrightarrow> rg m RSP = K - 96 \<and> st m (K - 8) = r RCX \<and> st m (K - 16) = r R11 \<and> st m (K - 24) = r RDI
     \<and> st m (K - 32) = r RSI \<and> st m (K - 40) = r RDX \<and> st m (K - 48) = r R8 \<and> st m (K - 56) = r R9 \<and> st m (K - 64) = r R10"

text \<open>Back in user mode with the registers \<open>r\<close> at \<open>uip\<close>.\<close>

definition in_user :: "(reg \<Rightarrow> u64) \<Rightarrow> u64 \<Rightarrow> u64 \<Rightarrow> kernel \<Rightarrow> kernel machine \<Rightarrow> bool" where
  "in_user r uip fl k m \<longleftrightarrow> rg m = r \<and> ip m = uip \<and> flags m = fl \<and> cs m = USER_CODE_SEL \<and> ss m = USER_DATA_SEL \<and> world m = k"

lemma syscall_leave_exec:
  assumes "take_bit 4 K = 0" "saved_regs K r m"
  shows "\<exists>m'. exec js syscall_leave m = Next m' \<and>
    (case exec_ctx (world m) of
       None \<Rightarrow> in_user ((rg m)(RDI := r RDI, RSI := r RSI, RDX := r RDX, R8 := r R8, R9 := r R9, R10 := r R10,
                 R11 := r R11 OR 0x200, RCX := r RCX, RSP := gl m U_RSP)) (r RCX) ((r R11 OR 0x200) AND 0x3C7FD7 OR 2)
                 ((world m)\<lparr>exec_ctx := None\<rparr>) m'
     | Some (new_ip, new_sp, new_pt) \<Rightarrow>
         in_user ((rg m)(RDI := r RDI, RSI := r RSI, RDX := r RDX, R8 := r R8, R9 := r R9, R10 := r R10,
                 R11 := r R11 OR 0x200, RCX := new_ip, RSP := new_sp)) new_ip ((r R11 OR 0x200) AND 0x3C7FD7 OR 2)
                 (switch_address_space new_pt ((world m)\<lparr>exec_ctx := None\<rparr>)) m')"
proof -
  have sel: "(drop_bit 48 star + 16) OR 3 = USER_CODE_SEL" "(drop_bit 48 star + 8) OR 3 = USER_DATA_SEL"
    by (simp_all add: star_def USER_CODE_SEL_def USER_DATA_SEL_def)
  show ?thesis
    using assms
    by (auto simp add: syscall_leave_def exec_simps sp_simps saved_regs_def apply_exec_redirect_syscall_def take_exec_ctx_def sel in_user_def
        split: option.split intro!: reg_eqI)
qed

lemma syscall_handler_exec:
  assumes "exec js syscall_enter (syscall_hw m) = Next m1" "take_bit 4 (gl m K_RSP) = 0"
    "dispatch (ev\<lparr>e_callee_saved := map (rg m) [RBX, RBP, R12, R13, R14, R15]\<rparr>) (unat (rg m RAX)) (rg m RDI) (rg m RSI) (rg m RDX)
       (rg m R10) (rg m R8) (rg m R9) (set_user_ctx (ip m) (rg m RSP) (world m)) = Some (k', Reply v)"
  shows "\<exists>m2. compiled j (syscall_entry_rust ev) m1 = Next m2 \<and> saved_regs (gl m K_RSP) (rg (syscall_hw m)) m2 \<and> world m2 = k'
    \<and> rg m2 RAX = word_of_int v \<and> (\<forall>r. callee_saved r \<and> r \<noteq> RSP \<longrightarrow> rg m2 r = rg m r) \<and> gl m2 U_RSP = rg m RSP"
proof -
  have c: "callee_saved r \<Longrightarrow> r \<noteq> RCX \<and> r \<noteq> RDX \<and> r \<noteq> RSI \<and> r \<noteq> RDI \<and> r \<noteq> R8 \<and> r \<noteq> R9 \<and> r \<noteq> R10 \<and> r \<noteq> R11" for r by (cases r) auto
  have m1: "m1 = (case exec js syscall_enter (syscall_hw m) of Next x \<Rightarrow> x)" using assms(1) by simp
  show ?thesis
    using assms(2,3) c unfolding m1 syscall_enter_exec
    by (simp add: exec_simps sp_simps syscall_entry_rust_def callee_saved_snapshot_def syscall_hw_def saved_regs_def)
qed

text \<open>A machine in user mode in the concrete instances.\<close>

definition demo_machine :: "(reg \<Rightarrow> u64) \<Rightarrow> (u64 \<Rightarrow> u64) \<Rightarrow> 'k \<Rightarrow> 'k machine" where
  "demo_machine r s k = \<lparr>rg = r, st = s, gl = (\<lambda>_. 0)(K_RSP := 0x9000), cr2 = 0, ip = 0x8000001234, cs = 0x23, ss = 0x1B,
     flags = 0x202, ports = [], world = k\<rparr>"

definition demo_junk :: junk where
  "demo_junk = \<lparr>j_regs = (\<lambda>_. 0xBAD), j_mem = (\<lambda>_. 0xDEAD)\<rparr>"

definition trap_kernel :: kernel where
  "trap_kernel = kernel_boot demo_mem \<lparr>k_pml4 = 0x1000, k_pdpt = 0x2000, k_pd = 0x3000\<rparr> 0 0
     \<lparr>h_rsp = 0, h_cr3 = 0, h_rsp0 = 0, h_fs_base = 0\<rparr> []"

definition trap_env :: env where
  "trap_env = \<lparr>e_seed = (\<lambda>_. 0), e_callee_saved = [], e_version = []\<rparr>"

lemma trap_kernel [simp]: "exec_ctx trap_kernel = None" "current trap_kernel = 0" "tasks trap_kernel ! 0 = Some task_idle"
  by (simp_all add: trap_kernel_def kernel_boot_def scheduler_init_def set_slot_def MAX_TASKS_def)

text \<open>C2: The \<^verbatim>\<open>syscall\<close> instruction ends in the dispatcher with the number from \<^verbatim>\<open>rax\<close>, the arguments from \<^verbatim>\<open>rdi, rsi,
  rdx, r10, r8, r9\<close> and the caller's registers, position and stack for a fork; when it answers, the program goes on
  behind the instruction in user mode with the result in \<^verbatim>\<open>rax\<close> and every register but \<^verbatim>\<open>rcx\<close> and \<^verbatim>\<open>r11\<close> as it was,
  whatever the compiled handler left in the others; after a successful \<^verbatim>\<open>execve\<close> it goes on at the new program's entry
  with its stack and page table.\<close>

theorem syscall_entry_correct:
  assumes "take_bit 4 (gl m K_RSP) = 0"
    "dispatch (ev\<lparr>e_callee_saved := map (rg m) [RBX, RBP, R12, R13, R14, R15]\<rparr>) (unat (rg m RAX)) (rg m RDI) (rg m RSI) (rg m RDX)
       (rg m R10) (rg m R8) (rg m R9) (set_user_ctx (ip m) (rg m RSP) (world m)) = Some (k', Reply v)"
  shows "\<exists>m'. exec js (syscall_entry_asm ev) (syscall_hw m) = Next m' \<and>
    (case exec_ctx k' of
       None \<Rightarrow> in_user ((rg m)(RAX := word_of_int v, RCX := ip m, R11 := flags m OR 0x200)) (ip m)
                 ((flags m OR 0x200) AND 0x3C7FD7 OR 2) (k'\<lparr>exec_ctx := None\<rparr>) m'
     | Some (new_ip, new_sp, new_pt) \<Rightarrow>
         in_user ((rg m)(RAX := word_of_int v, RCX := new_ip, R11 := flags m OR 0x200, RSP := new_sp)) new_ip
                 ((flags m OR 0x200) AND 0x3C7FD7 OR 2) (switch_address_space new_pt (k'\<lparr>exec_ctx := None\<rparr>)) m')"
proof -
  let ?js = "\<lambda>i. js (i + length ([Call (syscall_entry_rust ev)] @ syscall_leave))"
  obtain m1 where 1: "exec ?js syscall_enter (syscall_hw m) = Next m1" by (simp add: syscall_enter_exec Let_def)
  obtain m2 where 2: "compiled (js (length syscall_leave)) (syscall_entry_rust ev) m1 = Next m2"
      "saved_regs (gl m K_RSP) (rg (syscall_hw m)) m2" "world m2 = k'" "rg m2 RAX = word_of_int v"
      "callee_saved r \<and> r \<noteq> RSP \<longrightarrow> rg m2 r = rg m r" "gl m2 U_RSP = rg m RSP" for r
    using syscall_handler_exec[OF 1 assms] by blast
  have "exec js (syscall_entry_asm ev) (syscall_hw m) = exec js syscall_leave m2"
    using 1 2(1) by (simp add: syscall_entry_asm_def exec_append)
  moreover have "(rg m2)(RDI := rg m RDI, RSI := rg m RSI, RDX := rg m RDX, R8 := rg m R8, R9 := rg m R9, R10 := rg m R10,
        R11 := flags m OR 0x200, RCX := cx, RSP := sp) = (rg m)(RAX := word_of_int v, RCX := cx, R11 := flags m OR 0x200, RSP := sp)" for cx sp
    using 2(4,5) by (intro reg_eqI) simp_all
  moreover have "(rg m)(RAX := word_of_int v, RCX := ip m, R11 := flags m OR 0x200, RSP := rg m RSP)
      = (rg m)(RAX := word_of_int v, RCX := ip m, R11 := flags m OR 0x200)" by (rule reg_eqI) simp_all
  ultimately show ?thesis
    using syscall_leave_exec[OF assms(1) 2(2), of js] 2(3,6)
    by (cases "exec_ctx k'") (auto simp: syscall_hw_def)
qed

theorem syscall_entry_correct_witness:
  "\<exists>m'. exec (\<lambda>_. demo_junk) (syscall_entry_asm trap_env) (syscall_hw (demo_machine ((\<lambda>_. 5)(RAX := 39, RSP := 0x7000)) (\<lambda>_. 0) trap_kernel)) = Next m'
     \<and> rg m' = (\<lambda>_. 5)(RAX := pid task_idle, RSP := 0x7000, RCX := 0x8000001234, R11 := 0x202) \<and> ip m' = 0x8000001234"
proof -
  let ?m = "demo_machine ((\<lambda>_. 5)(RAX := 39, RSP := 0x7000)) (\<lambda>_. 0) trap_kernel"
  let ?k = "(set_user_ctx 0x8000001234 0x7000 trap_kernel)\<lparr>sys_user_regs := [5, 5, 5, 5, 5, 5]\<rparr>"
  have d: "dispatch (trap_env\<lparr>e_callee_saved := map (rg ?m) [RBX, RBP, R12, R13, R14, R15]\<rparr>) (unat (rg ?m RAX)) (rg ?m RDI) (rg ?m RSI) (rg ?m RDX)
       (rg ?m R10) (rg ?m R8) (rg ?m R9) (set_user_ctx (ip ?m) (rg ?m RSP) (world ?m)) = Some (?k, Reply (sint (pid task_idle)))"
    by (simp add: demo_machine_def dispatch_def Let_def sys_getpid_def current_pid_def set_user_ctx_def ret_def)
  have "take_bit 4 (gl ?m K_RSP) = 0" by (simp add: demo_machine_def)
  from syscall_entry_correct[OF this d, of "\<lambda>_. demo_junk"]
  show ?thesis by (auto simp: set_user_ctx_def in_user_def demo_machine_def intro!: reg_eqI)
qed

section \<open>Interrupts and exceptions\<close>

definition console_print_str :: "bytes \<Rightarrow> kernel \<Rightarrow> kernel" where
  "console_print_str s k = k\<lparr>console := console k @ serial_print_bytes s\<rparr>"

definition hex_digit :: "u64 \<Rightarrow> u8" where
  "hex_digit d = (if d < 10 then 0x30 + ucast d else 0x57 + ucast d)"

definition hex :: "u64 \<Rightarrow> bytes" where
  "hex v = map (\<lambda>i. hex_digit (drop_bit (60 - 4 * i) v AND 0xF)) [0..<16]"

text \<open>What the PS/2 controller and the serial line deliver: status and data byte, received bytes.\<close>

record irq_input =
  in_status :: u8
  in_data :: u8
  in_serial :: bytes

definition ps2_try_read :: "irq_input \<Rightarrow> u8 option" where
  "ps2_try_read i =
     (if in_status i AND 1 = 0 then None
      else if in_status i AND 0x20 \<noteq> 0 then None
      else Some (in_data i))"

definition keyboard_handle_irq :: "irq_input \<Rightarrow> kernel \<Rightarrow> kernel" where
  "keyboard_handle_irq i k = (case ps2_try_read i of Some sc \<Rightarrow> keyboard_irq sc k | None \<Rightarrow> k)"

definition exception_name :: "u8 \<Rightarrow> string option" where
  "exception_name v =
     (if v = 0 then Some ''Divide by Zero'' else if v = 1 then None else if v = 2 then Some ''NMI'' else if v = 3 then None
      else if v = 4 then Some ''Overflow'' else if v = 5 then Some ''Bound Range'' else if v = 6 then Some ''Invalid Opcode''
      else if v = 7 then Some ''Device Not Available'' else if v = 8 then Some ''Double Fault''
      else if v = 13 then Some ''General Protection Fault'' else if v = 14 then Some ''Page Fault''
      else if v < 32 then Some ''CPU Exception'' else None)"

definition halt_exception :: "string \<Rightarrow> kernel \<Rightarrow> kernel" where
  "halt_exception msg k = console_print_str (nl @ ascii ''[EXCEPTION] '' @ ascii msg @ nl) k"

text \<open>\<^verbatim>\<open>tick\<close> may switch to another task; the stub then goes on when its own task runs again.\<close>

definition dispatch_vector :: "irq_input \<Rightarrow> u8 \<Rightarrow> kernel \<Rightarrow> (kernel \<times> (u16 \<times> u8) list) flow" where
  "dispatch_vector i v k =
     (case exception_name v of
        Some msg \<Rightarrow> Away (halt_exception msg k, [])
      | None \<Rightarrow>
          if v = 32 then (case tick k of
                            None \<Rightarrow> Stuck
                          | Some k1 \<Rightarrow> if current k1 = current k then Next (k1, pic_eoi 0) else Away (k1, []))
          else if v = 33 then Next (keyboard_handle_irq i k, pic_eoi 1)
          else if v = 36 then Next (serial_irq (in_serial i) k, pic_eoi 4)
          else if 34 \<le> v \<and> v \<le> 47 then Next (k, pic_eoi (v - 32))
          else Next (k, []))"

definition common_dispatch :: "irq_input \<Rightarrow> kernel machine \<Rightarrow> kernel machine flow" where
  "common_dispatch i m =
     (let fin = (\<lambda>(k, outs). m\<lparr>world := k, ports := ports m @ outs\<rparr>)
      in andthen (dispatch_vector i (ucast (rg m RDI)) (world m)) (\<lambda>r. Next (fin r)) fin)"

definition make_isr :: "irq_input \<Rightarrow> u64 \<Rightarrow> kernel instr list" where
  "make_isr i vec =
     [Push (R RAX), Push (R RBX), Push (R RCX), Push (R RDX), Push (R RSI), Push (R RDI), Push (R RBP),
      Push (R R8), Push (R R9), Push (R R10), Push (R R11), Push (R R12), Push (R R13), Push (R R14), Push (R R15),
      Movi RDI vec, Call (common_dispatch i),
      Pop R15, Pop R14, Pop R13, Pop R12, Pop R11, Pop R10, Pop R9, Pop R8,
      Pop RBP, Pop RDI, Pop RSI, Pop RDX, Pop RCX, Pop RBX, Pop RAX, Iretq]"

text \<open>The register dump of the two fault handlers.\<close>

definition shown :: "string \<Rightarrow> u64 \<Rightarrow> bytes" where
  "shown name v = ascii name @ ascii ''=0x'' @ hex v"

definition pf_report :: "u64 \<Rightarrow> u64 \<Rightarrow> u64 \<Rightarrow> (nat \<Rightarrow> u64) \<Rightarrow> kernel \<Rightarrow> bytes" where
  "pf_report va err rip g k =
     (let fsb = h_fs_base (k_hw k) in
      shown ''[#PF] va'' va @ shown '' err'' err @ shown '' rip'' rip @ shown '' fs_base'' fsb
      @ shown '' *fs_base'' (user_rd64 k (unat fsb)) @ nl
      @ shown ''  rax'' (g 12) @ shown '' rbx'' (g 11) @ shown '' rsi'' (g 10) @ shown '' rdi'' (g 9) @ nl
      @ shown ''  rbp'' (g 8) @ shown '' r8'' (g 7) @ shown '' r9'' (g 6) @ shown '' r10'' (g 5) @ nl
      @ shown ''  r11'' (g 4) @ shown '' r12'' (g 3) @ shown '' r13'' (g 2) @ shown '' r14'' (g 1) @ shown '' r15'' (g 0) @ nl)"

definition pagefault_handler_x86 :: "kernel machine \<Rightarrow> kernel machine flow" where
  "pagefault_handler_x86 m =
     (let va = rg m RDI; err = rg m RSI; rip = rg m RDX; g = (\<lambda>i. st m (rg m RCX + 8 * word_of_nat i)); k = world m in
      if err AND 4 = 0 then Away (m\<lparr>world := console_print_str (nl @ ascii ''[EXCEPTION] Kernel Page Fault'' @ nl) k\<rparr>)
      else case handle_user_page_fault va k of
             (k1, True) \<Rightarrow> Next (m\<lparr>world := k1\<rparr>)
           | (k1, False) \<Rightarrow>
               (case exit_current 139 (console_print_str (pf_report va err rip g k1) k1) of
                  None \<Rightarrow> Stuck
                | Some k2 \<Rightarrow> Away (m\<lparr>world := k2\<rparr>)))"

definition isr14 :: "kernel instr list" where
  "isr14 =
     [Mov (R RCX) Cr2, Pop RDX, Mov (R R14) (Ind RSP 0),
      Push (R RAX), Push (R RBX), Push (R RSI), Push (R RDI), Push (R RBP), Push (R R8), Push (R R9), Push (R R10),
      Push (R R11), Push (R R12), Push (R R13), Push (R R14), Push (R R15),
      Mov (R RDI) (R RCX), Mov (R RSI) (R RDX), Mov (R RDX) (R R14), Mov (R RCX) (R RSP),
      Call pagefault_handler_x86,
      Pop R15, Pop R14, Pop R13, Pop R12, Pop R11, Pop R10, Pop R9, Pop R8,
      Pop RBP, Pop RDI, Pop RSI, Pop RBX, Pop RAX, Iretq]"

definition gp_stack_dump :: "u64 \<Rightarrow> kernel \<Rightarrow> bytes" where
  "gp_stack_dump usp k =
     (let fa = user_rd64 k (unat usp) in
      shown ''  user_rsp'' usp @ nl
      @ concat (map (\<lambda>i. ascii ''  [rsp+'' @ hex (8 * word_of_nat i) @ ascii '']=0x'' @ hex (user_rd64 k (unat (usp + 8 * word_of_nat i))) @ nl) [0..<4])
      @ (if fa \<noteq> 0 then shown ''  fa'' fa @ nl
           @ concat (map (\<lambda>i. ascii ''  fa[+'' @ hex (8 * word_of_nat i) @ ascii '']=0x'' @ hex (user_rd64 k (unat (fa + 8 * word_of_nat i))) @ nl) [0..<4])
         else []))"

definition gp_report :: "u64 \<Rightarrow> u64 \<Rightarrow> u64 \<Rightarrow> (nat \<Rightarrow> u64) \<Rightarrow> bytes" where
  "gp_report err rip c g =
     nl @ shown ''[#GP] err'' err @ shown '' rip'' rip @ shown '' cs'' c @ nl
     @ shown ''  rax'' (g 14) @ shown '' rbx'' (g 13) @ shown '' rcx'' (g 12) @ shown '' rdx'' (g 11) @ nl
     @ shown ''  rsi'' (g 10) @ shown '' rdi'' (g 9) @ shown '' rbp'' (g 8) @ nl
     @ shown ''  r8'' (g 7) @ shown '' r9'' (g 6) @ shown '' r10'' (g 5) @ shown '' r11'' (g 4) @ nl
     @ shown ''  r12'' (g 3) @ shown '' r13'' (g 2) @ shown '' r14'' (g 1) @ shown '' r15'' (g 0) @ nl"

definition gpf_handler :: "kernel machine \<Rightarrow> kernel machine flow" where
  "gpf_handler m =
     (let g = (\<lambda>i. st m (rg m RDI + 8 * word_of_nat i)); f = (\<lambda>i. st m (rg m RSI + 8 * word_of_nat i)); k = world m;
          err = f 0; rip = f 1; c = f 2; k1 = console_print_str (gp_report err rip c g) k
      in if c AND 3 = 3
         then (case exit_current 139 (console_print_str (gp_stack_dump (f 4) k1) k1) of
                 None \<Rightarrow> Stuck
               | Some k2 \<Rightarrow> Away (m\<lparr>world := k2\<rparr>))
         else Away (m\<lparr>world := k1\<rparr>))"

definition isr13 :: "kernel instr list" where
  "isr13 =
     [Push (R RAX), Push (R RBX), Push (R RCX), Push (R RDX), Push (R RSI), Push (R RDI), Push (R RBP),
      Push (R R8), Push (R R9), Push (R R10), Push (R R11), Push (R R12), Push (R R13), Push (R R14), Push (R R15),
      Mov (R RDI) (R RSP), Lea RSI RSP (15 * 8), Call gpf_handler, Hlt]"

lemma interrupt_hw_machine:
  "interrupt_hw sp0 e m =
     (let sp = sp0 AND NOT 15; n = (case e of None \<Rightarrow> 40 | Some _ \<Rightarrow> 48) in
      m\<lparr>rg := (rg m)(RSP := sp - n),
        st := (case e of None \<Rightarrow> id | Some c \<Rightarrow> (\<lambda>s. s(sp - 48 := c)))
               ((st m)(sp - 8 := ss m, sp - 16 := rg m RSP, sp - 24 := flags m, sp - 32 := cs m, sp - 40 := ip m)),
        cs := 0x08, flags := flags m AND NOT 0x200\<rparr>)"
  by (simp add: interrupt_hw_def exec_simps sp_simps split: option.split)

text \<open>The interrupted program sees nothing of the interrupt.\<close>

definition transparent :: "kernel machine \<Rightarrow> kernel machine \<Rightarrow> bool" where
  "transparent m m' \<longleftrightarrow> rg m' = rg m \<and> ip m' = ip m \<and> cs m' = cs m \<and> ss m' = ss m \<and> flags m' = flags m \<and> gl m' = gl m"



text \<open>The thirteen words that \<open>isr14\<close> saves, from the stack pointer on: the second is the user's instruction
  pointer, since \<^verbatim>\<open>r14\<close> has been overwritten before it is pushed.\<close>

definition pf_saved :: "'k machine \<Rightarrow> nat \<Rightarrow> u64" where
  "pf_saved m i = [rg m R15, ip m, rg m R13, rg m R12, rg m R11, rg m R10, rg m R9, rg m R8, rg m RBP, rg m RDI, rg m RSI,
     rg m RBX, rg m RAX] ! i"


theorem int80_registers:
  assumes "dispatch (ev\<lparr>e_callee_saved := callee_saved_snapshot m\<rparr>) (unat (rg m RAX)) (rg m RDI) (rg m RSI) (rg m RDX)
       (rg m R10) (rg m R8) (rg m R9) (set_user_ctx (ip m) (rg m RSP) (world m)) = Some (k', Reply v)" "exec_ctx k' = None"
  shows "\<exists>m'. exec js (isr128 ev) (interrupt_hw sp0 None m) = Next m'
    \<and> rg m' = (rg m)(RAX := word_of_int v, RDI := j_regs (js 14) RDI, RSI := j_regs (js 14) RSI, RDX := j_regs (js 14) RDX)
    \<and> ip m' = ip m \<and> cs m' = cs m \<and> ss m' = ss m \<and> flags m' = flags m \<and> world m' = k'\<lparr>exec_ctx := None\<rparr>"
proof -
  have n: "(14 :: nat) = Suc (Suc (Suc (Suc (Suc (Suc (Suc (Suc (Suc (Suc (Suc (Suc (Suc (Suc 0)))))))))))))" by simp
  show ?thesis unfolding n
    using assms take_bit_masked[of sp0]
    by (auto simp: isr128_def exec_simps interrupt_hw_machine sp_simps syscall_entry_rust_def callee_saved_snapshot_def
        apply_exec_redirect_def take_exec_ctx_def intro!: reg_eqI)
qed

text \<open>C40: The user stack pointer of a system call is kept in one static.  When a task waits inside its system call and
  another task enters one, the first returns to its own instruction with the other's stack pointer.\<close>

theorem syscall_rsp_shared:
  assumes "take_bit 4 (gl a K_RSP) = 0" "exec js syscall_enter (syscall_hw a) = Next a1"
    "exec js syscall_enter (syscall_hw (b\<lparr>gl := (gl a1)(K_RSP := kb)\<rparr>)) = Next b1" "exec_ctx (world b1) = None"
  shows "\<exists>a2. exec js syscall_leave (a1\<lparr>gl := (gl b1)(K_RSP := gl a K_RSP), world := world b1\<rparr>) = Next a2
    \<and> ip a2 = ip a \<and> rg a2 RSP = rg b RSP"
proof -
  have a1: "a1 = (case exec js syscall_enter (syscall_hw a) of Next x \<Rightarrow> x)" using assms(2) by simp
  have b1: "gl b1 U_RSP = rg b RSP"
    using assms(3) by (auto simp: syscall_enter_exec syscall_hw_def Let_def)
  have "saved_regs (gl a K_RSP) (rg (syscall_hw a)) (a1\<lparr>gl := (gl b1)(K_RSP := gl a K_RSP), world := world b1\<rparr>)"
    unfolding a1 syscall_enter_exec by (simp add: saved_regs_def Let_def sp_simps syscall_hw_def)
  from syscall_leave_exec[OF assms(1) this, of js] assms(4) b1
  show ?thesis by (auto simp: in_user_def syscall_hw_def)
qed

theorem syscall_rsp_shared_witness:
  "\<exists>a1 b1 a2. exec (\<lambda>_. demo_junk) syscall_enter (syscall_hw (demo_machine ((\<lambda>_. 5)(RSP := 0x7000)) (\<lambda>_. 0) trap_kernel)) = Next a1
     \<and> exec (\<lambda>_. demo_junk) syscall_enter (syscall_hw ((demo_machine ((\<lambda>_. 6)(RSP := 0x5000)) (\<lambda>_. 0) trap_kernel)\<lparr>gl := (gl a1)(K_RSP := 0xB000)\<rparr>)) = Next b1
     \<and> exec (\<lambda>_. demo_junk) syscall_leave (a1\<lparr>gl := (gl b1)(K_RSP := 0x9000), world := world b1\<rparr>) = Next a2
     \<and> ip a2 = 0x8000001234 \<and> rg a2 RSP = 0x5000"
proof -
  let ?a = "demo_machine ((\<lambda>_. 5)(RSP := 0x7000)) (\<lambda>_. 0) trap_kernel" and ?b = "demo_machine ((\<lambda>_. 6)(RSP := 0x5000)) (\<lambda>_. 0) trap_kernel"
  obtain a1 where a1: "exec (\<lambda>_. demo_junk) syscall_enter (syscall_hw ?a) = Next a1" by (simp add: syscall_enter_exec Let_def)
  obtain b1 where b1: "exec (\<lambda>_. demo_junk) syscall_enter (syscall_hw (?b\<lparr>gl := (gl a1)(K_RSP := 0xB000)\<rparr>)) = Next b1"
    by (simp add: syscall_enter_exec Let_def)
  then have w: "exec_ctx (world b1) = None" by (auto simp: syscall_enter_exec Let_def syscall_hw_def demo_machine_def)
  have k: "take_bit 4 (gl ?a K_RSP) = 0" by (simp add: demo_machine_def)
  from syscall_rsp_shared[OF k a1 b1 w] a1 b1 show ?thesis by (auto simp: demo_machine_def)
qed

section \<open>Context switch\<close>

definition context_switch :: "'k instr list" where
  "context_switch =
     [Push (R RBX), Push (R RBP), Push (R R12), Push (R R13), Push (R R14), Push (R R15),
      Mov (Ind RDI 0) (R RSP), Mov (R RSP) (R RSI),
      Pop R15, Pop R14, Pop R13, Pop R12, Pop RBP, Pop RBX, Ret]"

definition user_enter_trampoline :: "'k instr list" where
  "user_enter_trampoline = [Iretq]"

definition fork_enter_trampoline :: "'k instr list" where
  "fork_enter_trampoline =
     [Movi RAX 0, Pop RDI, Pop RSI, Pop RDX, Pop R10, Pop R8, Pop R9, Pop RBX, Pop RBP, Pop R12, Pop R13, Pop R14, Pop R15, Iretq]"

definition suspended :: "'k machine \<Rightarrow> u64 \<Rightarrow> u64" where
  "suspended m = (let sp = rg m RSP in
     (st m)(sp - 8 := rg m RBX, sp - 16 := rg m RBP, sp - 24 := rg m R12, sp - 32 := rg m R13, sp - 40 := rg m R14, sp - 48 := rg m R15,
            rg m RDI := sp - 48))"

lemma context_switch_exec:
  "exec js context_switch m =
     (let s = suspended m; sp = rg m RSI in
      Next (m\<lparr>st := s, ip := s (sp + 48),
              rg := (rg m)(R15 := s sp, R14 := s (sp + 8), R13 := s (sp + 16), R12 := s (sp + 24), RBP := s (sp + 32),
                           RBX := s (sp + 40), RSP := sp + 56)\<rparr>))"
  by (simp add: context_switch_def exec_simps sp_simps suspended_def fun_upd_twist fun_eq_iff add.assoc)

text \<open>C13: A task that called \<^verbatim>\<open>context_switch\<close> continues when another task switches to the stack pointer saved for it: the
  call returns to its caller with the callee-saved registers and the stack pointer it had, if the seven words on
  its stack have not been touched.\<close>

theorem context_switch_resumes:
  assumes "rg n RSI = rg m RSP - 48"
    "list_all (\<lambda>d. suspended n (rg m RSP - d) = suspended m (rg m RSP - d) \<and> rg m RDI \<noteq> rg m RSP - d) [0, 8, 16, 24, 32, 40, 48]"
  shows "\<exists>m1 n1. exec js context_switch m = Next m1 \<and> st m1 (rg m RDI) = rg n RSI
    \<and> exec js' context_switch n = Next n1 \<and> ip n1 = st m (rg m RSP) \<and> rg n1 RSP = rg m RSP + 8
    \<and> list_all (\<lambda>r. rg n1 r = rg m r) [RBX, RBP, R12, R13, R14, R15]"
proof -
  let ?sp = "rg m RSP"
  have ne: "rg m RDI \<noteq> ?sp" "rg m RDI \<noteq> ?sp - 8" "rg m RDI \<noteq> ?sp - 16" "rg m RDI \<noteq> ?sp - 24" "rg m RDI \<noteq> ?sp - 32"
      "rg m RDI \<noteq> ?sp - 40" "rg m RDI \<noteq> ?sp - 48" using assms(2) by simp_all
  have m: "suspended m ?sp = st m ?sp" "suspended m (?sp - 8) = rg m RBX" "suspended m (?sp - 16) = rg m RBP" "suspended m (?sp - 24) = rg m R12"
      "suspended m (?sp - 32) = rg m R13" "suspended m (?sp - 40) = rg m R14" "suspended m (?sp - 48) = rg m R15"
      "suspended m (rg m RDI) = ?sp - 48"
    using ne[symmetric] by (simp_all add: suspended_def Let_def sp_simps)
  have n: "suspended n ?sp = st m ?sp" "suspended n (?sp - 8) = rg m RBX" "suspended n (?sp - 16) = rg m RBP" "suspended n (?sp - 24) = rg m R12"
      "suspended n (?sp - 32) = rg m R13" "suspended n (?sp - 40) = rg m R14" "suspended n (?sp - 48) = rg m R15"
    using assms(2) m by simp_all
  show ?thesis using assms(1) m(8) n by (simp add: context_switch_exec Let_def sp_simps)
qed

theorem context_switch_resumes_witness:
  "\<exists>m1 n1. exec (\<lambda>_. demo_junk) context_switch (demo_machine ((\<lambda>_. 5)(RSP := 0x1000, RDI := 0x8000)) (\<lambda>_. 0x77) ()) = Next m1
     \<and> st m1 0x8000 = 0xFD0
     \<and> exec (\<lambda>_. demo_junk) context_switch (demo_machine ((\<lambda>_. 6)(RSP := 0x2000, RDI := 0x8008, RSI := 0xFD0)) (st m1) ()) = Next n1
     \<and> ip n1 = 0x77 \<and> rg n1 RSP = 0x1008 \<and> rg n1 R12 = 5"
proof -
  let ?m = "demo_machine ((\<lambda>_. 5)(RSP := 0x1000, RDI := 0x8000)) (\<lambda>_. 0x77) ()"
  let ?n = "demo_machine ((\<lambda>_. 6)(RSP := 0x2000, RDI := 0x8008, RSI := 0xFD0)) (suspended ?m) ()"
  have s: "exec (\<lambda>_. demo_junk) context_switch ?m = Next m1 \<Longrightarrow> st m1 = suspended ?m" for m1
    by (auto simp: context_switch_exec Let_def)
  have "rg ?n RSI = rg ?m RSP - 48"
    "list_all (\<lambda>d. suspended ?n (rg ?m RSP - d) = suspended ?m (rg ?m RSP - d) \<and> rg ?m RDI \<noteq> rg ?m RSP - d) [0, 8, 16, 24, 32, 40, 48]"
    by (simp_all add: demo_machine_def suspended_def Let_def)
  from context_switch_resumes[OF this, of "\<lambda>_. demo_junk" "\<lambda>_. demo_junk"] obtain m1 n1 where
    "exec (\<lambda>_. demo_junk) context_switch ?m = Next m1" "st m1 (rg ?m RDI) = rg ?n RSI"
    "exec (\<lambda>_. demo_junk) context_switch ?n = Next n1" "ip n1 = st ?m (rg ?m RSP)" "rg n1 RSP = rg ?m RSP + 8" "rg n1 R12 = rg ?m R12"
    by auto
  with s[of m1] show ?thesis by (intro exI[of _ m1] exI[of _ n1]) (simp add: demo_machine_def)
qed

lemma trampoline_exec:
  "exec js fork_enter_trampoline m =
     (let s = st m; sp = rg m RSP in
      Next (m\<lparr>rg := (rg m)(RAX := 0, RDI := s sp, RSI := s (sp + 8), RDX := s (sp + 16), R10 := s (sp + 24), R8 := s (sp + 32),
                       R9 := s (sp + 40), RBX := s (sp + 48), RBP := s (sp + 56), R12 := s (sp + 64), R13 := s (sp + 72),
                       R14 := s (sp + 80), R15 := s (sp + 88), RSP := s (sp + 120)),
              ip := s (sp + 96), cs := s (sp + 104), flags := s (sp + 112), ss := s (sp + 128)\<rparr>))"
  by (simp add: fork_enter_trampoline_def exec_simps sp_simps fun_upd_twist fun_eq_iff add.assoc)

definition fork_frame :: "u64 \<Rightarrow> u64 \<Rightarrow> u64 \<Rightarrow> u64 list \<Rightarrow> u64 list \<Rightarrow> u64 list" where
  "fork_frame tramp uip usp args saved =
     replicate 6 0 @ [tramp] @ args @ saved @ [uip, USER_CODE_SEL, 0x202, usp, USER_DATA_SEL]"

lemma fork_frame_memory:
  assumes "task_init_fork_stack tramp stack uip usp args saved mem = (mem', ksp)" "length args = 6" "length saved = 6"
    "stack + STACK_SIZE < 2 ^ 64" "i < 24"
  shows "rd64 mem' (unat ksp + 8 * i) = fork_frame tramp uip usp args saved ! i"
proof -
  let ?sp = "stack_end stack - 192"
  have "?sp < 2 ^ 64" using assms(4) by (simp add: stack_end_def)
  then have "unat ksp = ?sp" using assms(1) by (auto simp: task_init_fork_stack_def Let_def unsigned_of_nat take_bit_nat_eq_self_iff)
  moreover have "mem' = wr_words ?sp (fork_frame tramp uip usp args saved) mem"
    using assms(1) by (simp add: task_init_fork_stack_def fork_frame_def Let_def)
  ultimately show ?thesis
    using wr_words_nth[of i "fork_frame tramp uip usp args saved" ?sp mem] assms(2,3,5) by (simp add: fork_frame_def)
qed

lemma six: "length xs = 6 \<Longrightarrow> \<exists>a b c d e f. xs = [a, b, c, d, e, f]"
  by (auto simp: numeral_eq_Suc length_Suc_conv)

text \<open>C14: The first switch to the stack that \<^verbatim>\<open>task_init_fork_stack\<close> builds goes through the trampoline into user mode at the
  parent's position, with the parent's stack pointer, the six argument registers and the six callee-saved
  registers it had at the call, and 0 in \<^verbatim>\<open>rax\<close>.\<close>

theorem fork_child_enters_user:
  assumes "task_init_fork_stack tramp stack uip usp args saved mem = (mem', ksp)" "length args = 6" "length saved = 6"
    "stack + STACK_SIZE < 2 ^ 64" "rg m RSI = ksp"
    "list_all (\<lambda>i. suspended m (ksp + 8 * word_of_nat i) = rd64 mem' (unat ksp + 8 * i)) [0..<24]"
  shows "\<exists>m1 m2. exec js context_switch m = Next m1 \<and> ip m1 = tramp \<and> exec js' fork_enter_trampoline m1 = Next m2
    \<and> ip m2 = uip \<and> cs m2 = USER_CODE_SEL \<and> ss m2 = USER_DATA_SEL \<and> flags m2 = 0x202 \<and> rg m2 RSP = usp \<and> rg m2 RAX = 0
    \<and> map (rg m2) [RDI, RSI, RDX, R10, R8, R9] = args \<and> map (rg m2) [RBX, RBP, R12, R13, R14, R15] = saved"
proof -
  let ?f = "fork_frame tramp uip usp args saved"
  have F: "suspended m (ksp + 8 * word_of_nat i) = ?f ! i" if "i < 24" for i
    using assms(6) that fork_frame_memory[OF assms(1-4) that] by (simp add: list_all_length)
  obtain a0 a1 a2 a3 a4 a5 where a: "args = [a0, a1, a2, a3, a4, a5]" using six[OF assms(2)] by blast
  obtain b0 b1 b2 b3 b4 b5 where b: "saved = [b0, b1, b2, b3, b4, b5]" using six[OF assms(3)] by blast
  have f: "?f = [0, 0, 0, 0, 0, 0, tramp, a0, a1, a2, a3, a4, a5, b0, b1, b2, b3, b4, b5, uip, USER_CODE_SEL, 0x202, usp, USER_DATA_SEL]"
    by (simp add: fork_frame_def a b numeral_eq_Suc)
  note F = F[unfolded f]
  show ?thesis
    using F[of 6] F[of 7] F[of 8] F[of 9] F[of 10] F[of 11] F[of 12] F[of 13] F[of 14] F[of 15] F[of 16] F[of 17] F[of 18] F[of 19]
      F[of 20] F[of 21] F[of 22] F[of 23] assms(5)
    by (simp add: context_switch_exec trampoline_exec Let_def a b add.assoc)
qed

theorem fork_child_enters_user_witness:
  "\<exists>mem' ksp m1 m2. task_init_fork_stack 0x1111 0x300000 0x8000001234 0x7000 [1, 2, 3, 4, 5, 6] [7, 8, 9, 10, 11, 12] demo_mem = (mem', ksp)
     \<and> exec (\<lambda>_. demo_junk) context_switch (demo_machine ((\<lambda>_. 0)(RSP := 0x1000, RDI := 0x8000, RSI := ksp)) (\<lambda>a. rd64 mem' (unat a)) ()) = Next m1
     \<and> ip m1 = 0x1111 \<and> exec (\<lambda>_. demo_junk) fork_enter_trampoline m1 = Next m2
     \<and> ip m2 = 0x8000001234 \<and> rg m2 RSP = 0x7000 \<and> rg m2 RAX = 0 \<and> rg m2 R9 = 6 \<and> rg m2 R15 = 12"
proof -
  obtain mem' ksp where t: "task_init_fork_stack 0x1111 0x300000 0x8000001234 0x7000 [1, 2, 3, 4, 5, 6] [7, 8, 9, 10, 11, 12] demo_mem = (mem', ksp)"
    by fastforce
  then have ksp: "ksp = 0x307F40"
    by (simp add: task_init_fork_stack_def Let_def stack_end_def STACK_SIZE_def STACK_PAGES_def)
  let ?m = "demo_machine ((\<lambda>_. 0)(RSP := 0x1000, RDI := 0x8000, RSI := ksp)) (\<lambda>a. rd64 mem' (unat a)) ()"
  have u: "[0..<24] = [0, 1, 2, 3, 4, 5, 6, 7, 8, 9, 10, 11, 12, 13, 14, 15, 16, 17, 18, 19, 20, 21, 22, 23]" by code_simp
  have f: "list_all (\<lambda>i. suspended ?m (ksp + 8 * word_of_nat i) = rd64 mem' (unat ksp + 8 * i)) [0..<24]"
    unfolding u by (simp add: ksp suspended_def demo_machine_def Let_def)
  have "rg ?m RSI = ksp" "0x300000 + STACK_SIZE < 2 ^ 64" by (simp_all add: demo_machine_def STACK_SIZE_def STACK_PAGES_def)
  from fork_child_enters_user[OF t _ _ this(2,1) f, of "\<lambda>_. demo_junk" "\<lambda>_. demo_junk"] t show ?thesis by auto
qed

end
