(* ===== verification/Interrupts.thy ===== *)
theory Interrupts
  imports KernelProps Traps
begin

text \<open>
  The scheduler behind the interrupt controllers: when the handlers of \<^verbatim>\<open>arch/x86_64/idt.rs\<close> signal the end of an
  interrupt (\<^verbatim>\<open>boards/qemu_pc/pic.rs\<close>) and what a tick that switches to another task does to the delivery of interrupts.
\<close>

section \<open>The end of an interrupt\<close>

text \<open>C16: The service of the timer, the keyboard and the serial line signals the end of the interrupt, so that the
  controllers are as before the request, when the handler comes back.  A tick that switches to another task signals
  nothing: until the interrupted task runs again (or another one suspended in its own tick), no interrupt of any line
  is delivered.\<close>

theorem irq_service:
  assumes "delivered s n = Some v" "n \<in> {0, 1, 4}" "v = 32 + word_of_nat n"
  shows "case dispatch_vector i v k of
      Next (k', outs) \<Rightarrow> pic_writes outs (pic_ack n s) = s
    | Away (k', outs) \<Rightarrow> n = 0 \<and> current k' \<noteq> current k \<and> (\<forall>irq. delivered (pic_writes outs (pic_ack n s)) irq = None)
    | Stuck \<Rightarrow> n = 0 \<and> tick k = None"
proof -
  have "n < 8" using assms(2) by auto
  note e = eoi_after_ack[OF assms(1) this]
  from assms(2) consider "n = 0" | "n = 1" | "n = 4" by blast
  then show ?thesis
  proof cases
    case 1
    then show ?thesis using e assms(3)
      by (auto simp: dispatch_vector_def exception_name_def pic_writes_def unserved_timer split: option.splits)
  next
    case 2
    then show ?thesis using e assms(3) by (simp add: dispatch_vector_def exception_name_def)
  next
    case 3
    then show ?thesis using e assms(3) by (simp add: dispatch_vector_def exception_name_def)
  qed
qed

text \<open>The two tasks of \<open>two_kernel\<close> at the tenth tick.\<close>

lemma two_kernel_tick: "\<exists>k'. tick (two_kernel\<lparr>tick_count := 9\<rparr>) = Some k' \<and> current k' = 2"
proof -
  let ?k = "two_kernel\<lparr>tick_count := 10\<rparr>"
  have "deliver_slot s ?k = ?k" if "s < MAX_TASKS" for s
  proof -
    have "tasks two_kernel ! s \<in> {None, Some task_idle, Some (demo_task 1 0), Some (demo_task 2 1)}"
      using that by (simp add: two_kernel_parts(1) nth_list_update MAX_TASKS_def)
    then show ?thesis by (auto simp: deliver_slot_def demo_task_def task_idle_def)
  qed
  then have "fold deliver_slot ss ?k = ?k" if "list_all (\<lambda>s. s < MAX_TASKS) ss" for ss using that by (induction ss) auto
  then have d: "deliver_all_signals ?k = ?k" unfolding deliver_all_signals_def by (simp add: list_all_iff)
  have p: "pick_next ?k = 2" using two_kernel_pick by (simp add: pick_next_def slot_ready_def cong: option.case_cong)
  have w: "sched_wf ?k" using two_kernel_parts(10) by (simp add: sched_wf_def)
  have "canary_ok ?k 1" using two_kernel_canary[of 1] by (simp add: canary_ok_def MAX_TASKS_def)
  then have "schedule ?k \<noteq> None" using schedule_panics_iff[OF w] p by (auto simp: two_kernel_parts)
  then obtain k' where "schedule ?k = Some k'" by auto
  moreover from schedule_frame(1)[OF this] p have "current k' = 2" by simp
  ultimately show ?thesis using d by (simp add: tick_def)
qed

definition demo_pics :: pics where
  "demo_pics = irqs_after_boot \<lparr>pic1 = \<lparr>imr = 0xB8, vec_base = 8, cascade = 0, pic_mode = 0, icw = 0, isr = 0\<rparr>,
     pic2 = \<lparr>imr = 0, vec_base = 0x70, cascade = 0, pic_mode = 0, icw = 0, isr = 0\<rparr>\<rparr>"

lemma demo_pics_timer: "delivered demo_pics 0 = Some 32"
  by (simp add: demo_pics_def delivered_def served_def boot_masks bit_simps)

theorem irq_service_witness:
  "\<exists>k' outs. dispatch_vector \<lparr>in_status = 0, in_data = 0, in_serial = []\<rparr> 32 (two_kernel\<lparr>tick_count := 9\<rparr>) = Away (k', outs)
     \<and> delivered demo_pics 1 = Some 33 \<and> delivered (pic_writes outs (pic_ack 0 demo_pics)) 1 = None"
proof -
  obtain k' where k': "tick (two_kernel\<lparr>tick_count := 9\<rparr>) = Some k'" "current k' = 2" using two_kernel_tick by blast
  then have "dispatch_vector \<lparr>in_status = 0, in_data = 0, in_serial = []\<rparr> 32 (two_kernel\<lparr>tick_count := 9\<rparr>) = Away (k', [])"
    by (simp add: dispatch_vector_def exception_name_def two_kernel_parts)
  moreover have "delivered demo_pics 1 = Some 33" by (simp add: demo_pics_def delivered_def served_def boot_masks bit_simps)
  ultimately show ?thesis
    using irq_service[OF demo_pics_timer, where i = "\<lparr>in_status = 0, in_data = 0, in_serial = []\<rparr>" and k = "two_kernel\<lparr>tick_count := 9\<rparr>"] by auto
qed

end
