(* ===== verification/Net.thy ===== *)
theory Net
  imports Prelude
begin

text \<open>
  \<^verbatim>\<open>kernel/src/net/\<close>: parsers and builders of Ethernet, ARP, IPv4, ICMP, UDP and TCP headers, built
  with the \<^verbatim>\<open>net\<close> feature.  A parser borrows from its buffer and returns \<open>None\<close> when it is too short;
  a builder writes into an output buffer and returns the number of bytes written, 0 when the buffer is
  too small.  The locale \<open>codec\<close> states what a builder and a parser of one layer promise each other and
  \<open>codec_pair\<close> shows that layers stack; Ethernet, ARP, IPv4, ICMP and UDP are interpretations.  The
  Internet checksum is shown to verify on everything that \<^verbatim>\<open>build\<close> and \<^verbatim>\<open>build_reply\<close> produce.
\<close>

unbundle bit_operations_syntax

section \<open>Ethernet\<close>

definition ETHERTYPE_ARP :: u16 where "ETHERTYPE_ARP = 0x0806"
definition ETHERTYPE_IPV4 :: u16 where "ETHERTYPE_IPV4 = 0x0800"

datatype mac_addr = MacAddr (octets: bytes)

definition MAC_BROADCAST :: mac_addr where "MAC_BROADCAST = MacAddr (replicate 6 0xFF)"
definition MAC_ZERO :: mac_addr where "MAC_ZERO = MacAddr (replicate 6 0)"

definition ether_parse :: "bytes \<Rightarrow> (mac_addr \<times> mac_addr \<times> u16 \<times> bytes) option" where
  "ether_parse buf =
     (if length buf < 14 then None
      else Some (MacAddr (slice 0 6 buf), MacAddr (slice 6 12 buf),
                 from_be_bytes [buf ! 12, buf ! 13], drop 14 buf))"

definition ether_build :: "mac_addr \<Rightarrow> mac_addr \<Rightarrow> u16 \<Rightarrow> bytes \<Rightarrow> bytes \<Rightarrow> bytes \<times> nat" where
  "ether_build dst src etype payload out =
     (if length out < 14 + length payload then (out, 0)
      else let out = copy_into out 0 (octets dst);
               out = copy_into out 6 (octets src);
               out = copy_into out 12 (be_bytes 2 etype);
               out = copy_into out 14 payload
           in (out, 14 + length payload))"

section \<open>ARP\<close>

definition HTYPE_ETHERNET :: u16 where "HTYPE_ETHERNET = 1"
definition PTYPE_IPV4 :: u16 where "PTYPE_IPV4 = 0x0800"
definition HLEN :: u8 where "HLEN = 6"
definition PLEN :: u8 where "PLEN = 4"

record arp_packet =
  arp_op :: u16
  sender_mac :: mac_addr
  sender_ip :: bytes
  target_mac :: mac_addr
  target_ip :: bytes

definition arp_parse :: "bytes \<Rightarrow> arp_packet option" where
  "arp_parse buf =
     (if length buf < 28 then None
      else Some \<lparr>arp_op = from_be_bytes [buf ! 6, buf ! 7],
                 sender_mac = MacAddr (slice 8 14 buf), sender_ip = slice 14 18 buf,
                 target_mac = MacAddr (slice 18 24 buf), target_ip = slice 24 28 buf\<rparr>)"

definition arp_build :: "arp_packet \<Rightarrow> bytes \<Rightarrow> bytes \<times> nat" where
  "arp_build pkt out =
     (if length out < 28 then (out, 0)
      else let out = copy_into out 0 (be_bytes 2 HTYPE_ETHERNET);
               out = copy_into out 2 (be_bytes 2 PTYPE_IPV4);
               out = copy_into out 4 [HLEN];
               out = copy_into out 5 [PLEN];
               out = copy_into out 6 (be_bytes 2 (arp_op pkt));
               out = copy_into out 8 (octets (sender_mac pkt));
               out = copy_into out 14 (sender_ip pkt);
               out = copy_into out 18 (octets (target_mac pkt));
               out = copy_into out 24 (target_ip pkt)
           in (out, 28))"

section \<open>IPv4\<close>

text \<open>\<^verbatim>\<open>checksum\<close>: the first loop adds the big-endian halfwords (an odd last byte counts as the high
  byte), the second folds the carries back until the sum fits 16 bits.\<close>

fun sum_words :: "bytes \<Rightarrow> u32 \<Rightarrow> u32" where
  "sum_words (a # b # bs) acc = sum_words bs (acc + ucast (from_be_bytes [a, b] :: u16))"
| "sum_words [a] acc = acc + push_bit 8 (ucast a)"
| "sum_words [] acc = acc"

lemma unat_hi16: "unat (drop_bit 16 s) = unat s div 65536" for s :: u32
  using unsigned_drop_bit_eq[of 16 s, where ?'a = nat] unsigned_less[of s, where ?'a = nat]
  by (simp only: drop_bit_eq_div) (simp add: take_bit_eq_mod)

lemma unat_lo16: "unat (s AND 0xFFFF) = unat s mod 65536" for s :: u32
proof -
  have "s AND 0xFFFF = take_bit 16 s" by (simp add: take_bit_eq_mask mask_eq_exp_minus_1)
  then show ?thesis
    using unsigned_take_bit_eq[of 16 s, where ?'a = nat] by (simp only: take_bit_eq_mod) simp
qed

lemma unat_carry_step: "unat ((s AND 0xFFFF) + drop_bit 16 s) = unat s mod 65536 + unat s div 65536" for s :: u32
proof -
  have "unat s < 65536 * 65536" using unsigned_less[of s, where ?'a = nat] by simp
  then have "unat s div 65536 < 65536" by (rule less_mult_imp_div_less)
  moreover have "unat s mod 65536 < 65536" by simp
  ultimately have "unat s mod 65536 + unat s div 65536 < 2 ^ LENGTH(32)" by simp
  then show ?thesis by (simp only: unat_word_ariths(1) unat_lo16 unat_hi16 mod_less)
qed

lemma hi16_zero_iff: "drop_bit 16 s = 0 \<longleftrightarrow> unat s < 65536" for s :: u32
  using unat_hi16[of s] by (metis div_less div_eq_0_iff unat_eq_zero zero_neq_numeral)

function fold_carry :: "u32 \<Rightarrow> u32" where
  "fold_carry s = (if drop_bit 16 s \<noteq> 0 then fold_carry ((s AND 0xFFFF) + drop_bit 16 s) else s)"
  by pat_completeness auto
termination
proof (relation "measure unat")
  fix s :: u32
  assume "drop_bit 16 s \<noteq> 0"
  then have "0 < unat s div 65536" by (simp add: hi16_zero_iff div_greater_zero_iff)
  then have "unat s mod 65536 + unat s div 65536 < unat s" using div_mult_mod_eq[of "unat s" 65536] by linarith
  then show "((s AND 0xFFFF) + drop_bit 16 s, s) \<in> measure unat" by (simp add: unat_carry_step)
qed simp

declare fold_carry.simps [simp del]

definition checksum :: "bytes \<Rightarrow> u16" where
  "checksum data = NOT (ucast (fold_carry (sum_words data 0)))"

definition PROTO_ICMP :: u8 where "PROTO_ICMP = 1"
definition PROTO_UDP :: u8 where "PROTO_UDP = 17"
definition PROTO_TCP :: u8 where "PROTO_TCP = 6"

record ipv4_header =
  ip_src :: bytes
  ip_dst :: bytes
  protocol :: u8
  ttl :: u8
  total_len :: u16

definition ipv4_parse :: "bytes \<Rightarrow> (ipv4_header \<times> bytes) option" where
  "ipv4_parse buf =
     (if length buf < 20 then None
      else let ihl = unat (buf ! 0 AND 0x0F) * 4 in
        if length buf < ihl then None
        else Some (\<lparr>ip_src = slice 12 16 buf, ip_dst = slice 16 20 buf, protocol = buf ! 9, ttl = buf ! 8,
                    total_len = from_be_bytes [buf ! 2, buf ! 3]\<rparr>, drop ihl buf))"

definition ipv4_build :: "ipv4_header \<Rightarrow> bytes \<Rightarrow> bytes \<Rightarrow> bytes \<times> nat" where
  "ipv4_build hdr payload out =
     (let total = 20 + length payload in
      if length out < total then (out, 0)
      else let out = copy_into out 0 [0x45];
               out = copy_into out 1 [0];
               out = copy_into out 2 (be_bytes 2 (word_of_nat total :: u16));
               out = copy_into out 4 (be_bytes 2 (0 :: u16));
               out = copy_into out 6 (be_bytes 2 (0 :: u16));
               out = copy_into out 8 [ttl hdr];
               out = copy_into out 9 [protocol hdr];
               out = copy_into out 10 (be_bytes 2 (0 :: u16));
               out = copy_into out 12 (ip_src hdr);
               out = copy_into out 16 (ip_dst hdr);
               out = copy_into out 20 payload;
               csum = checksum (take 20 out);
               out = copy_into out 10 (be_bytes 2 csum)
           in (out, total))"

section \<open>ICMP, UDP and TCP\<close>

definition TYPE_ECHO_REQUEST :: u8 where "TYPE_ECHO_REQUEST = 8"
definition TYPE_ECHO_REPLY :: u8 where "TYPE_ECHO_REPLY = 0"

definition icmp_parse_echo :: "bytes \<Rightarrow> (u16 \<times> u16 \<times> bytes) option" where
  "icmp_parse_echo buf =
     (if length buf < 8 then None
      else Some (from_be_bytes [buf ! 4, buf ! 5], from_be_bytes [buf ! 6, buf ! 7], drop 8 buf))"

definition icmp_build_reply :: "u16 \<Rightarrow> u16 \<Rightarrow> bytes \<Rightarrow> bytes \<Rightarrow> bytes \<times> nat" where
  "icmp_build_reply ident seq data out =
     (let len = 8 + length data in
      if length out < len then (out, 0)
      else let out = copy_into out 0 [TYPE_ECHO_REPLY];
               out = copy_into out 1 [0];
               out = copy_into out 2 (be_bytes 2 (0 :: u16));
               out = copy_into out 4 (be_bytes 2 ident);
               out = copy_into out 6 (be_bytes 2 seq);
               out = copy_into out 8 data;
               csum = checksum (take len out);
               out = copy_into out 2 (be_bytes 2 csum)
           in (out, len))"

definition udp_parse :: "bytes \<Rightarrow> (u16 \<times> u16 \<times> bytes) option" where
  "udp_parse buf =
     (if length buf < 8 then None
      else Some (from_be_bytes [buf ! 0, buf ! 1], from_be_bytes [buf ! 2, buf ! 3], drop 8 buf))"

definition udp_build :: "u16 \<Rightarrow> u16 \<Rightarrow> bytes \<Rightarrow> bytes \<Rightarrow> bytes \<times> nat" where
  "udp_build src dst payload out =
     (let len = 8 + length payload in
      if length out < len then (out, 0)
      else let out = copy_into out 0 (be_bytes 2 src);
               out = copy_into out 2 (be_bytes 2 dst);
               out = copy_into out 4 (be_bytes 2 (word_of_nat len :: u16));
               out = copy_into out 6 (be_bytes 2 (0 :: u16));
               out = copy_into out 8 payload
           in (out, len))"

datatype tcp_state =
  Closed | Listen | SynSent | SynReceived | Established | FinWait1 | FinWait2 | CloseWait | Closing | LastAck | TimeWait

definition tcp_parse :: "bytes \<Rightarrow> (u16 \<times> u16 \<times> u32 \<times> u32 \<times> u8 \<times> bytes) option" where
  "tcp_parse buf =
     (if length buf < 20 then None
      else let off = unat (drop_bit 4 (buf ! 12)) * 4 in
        if length buf < off then None
        else Some (from_be_bytes (slice 0 2 buf), from_be_bytes (slice 2 4 buf), from_be_bytes (slice 4 8 buf),
                   from_be_bytes (slice 8 12 buf), buf ! 13, drop off buf))"

section \<open>The checksum\<close>

text \<open>The sum of the halfwords as a number, and the end-around carry as arithmetic modulo 65535 with
  the representatives 1 to 65535 for the positive numbers.\<close>

fun halfsum :: "bytes \<Rightarrow> nat" where
  "halfsum (a # b # bs) = 256 * unat a + unat b + halfsum bs"
| "halfsum [a] = 256 * unat a"
| "halfsum [] = 0"

definition carried :: "nat \<Rightarrow> nat" where
  "carried n = (if n = 0 then 0 else (n - 1) mod 65535 + 1)"

lemma carried_step: "carried (n mod 65536 + n div 65536) = carried n"
proof (cases "n = 0")
  case False
  define q r where "q = n div 65536" and "r = n mod 65536"
  have n: "n = 65536 * q + r" unfolding q_def r_def by simp
  with False have pos: "0 < r + q" by auto
  then have "n - 1 = (r + q - 1) + 65535 * q" using n by linarith
  then have "(n - 1) mod 65535 = (r + q - 1) mod 65535" by simp
  with pos False show ?thesis by (simp add: carried_def flip: q_def r_def)
qed simp

lemma unat_fold_carry: "unat (fold_carry s) = carried (unat s)"
proof (induction s rule: fold_carry.induct)
  case (1 s)
  show ?case
  proof (cases "drop_bit 16 s = 0")
    case True
    then have "unat s < 65536" by (simp add: hi16_zero_iff)
    then have "carried (unat s) = unat s" by (auto simp: carried_def)
    with True show ?thesis by (subst fold_carry.simps) simp
  next
    case False
    then have "unat (fold_carry s) = carried (unat ((s AND 0xFFFF) + drop_bit 16 s))"
      using "1.IH" by (subst fold_carry.simps) simp
    then show ?thesis by (simp only: unat_carry_step carried_step)
  qed
qed

lemma unat_not16: "unat (NOT w) = 65535 - unat w" for w :: u16
proof -
  have "NOT w = - 1 - w" by (simp add: not_eq_complement)
  moreover have "w \<le> - 1" by (simp add: word_order.extremum)
  ultimately show ?thesis by (simp add: unat_sub unsigned_minus_1_eq_mask mask_eq_exp_minus_1)
qed

lemma unat_be16: "unat (from_be_bytes [a, b] :: u16) = 256 * unat a + unat b"
proof -
  have "(ucast b :: u16) AND push_bit 8 (ucast a) = 0"
    by (rule bit_word_eqI) (auto simp: bit_simps dest: bit_imp_le_length)
  then have "from_be_bytes [a, b] = (ucast b :: u16) + push_bit 8 (ucast a)"
    by (simp add: from_be_bytes_def disjunctive_add_eq_or)
  moreover have "unat a < 256" "unat b < 256" using unsigned_less[of a, where ?'a = nat] unsigned_less[of b, where ?'a = nat] by simp_all
  ultimately show ?thesis
    by (simp add: unat_word_ariths push_bit_eq_mult unat_ucast_up)
qed

lemma halfsum_bound: "halfsum bs \<le> 65535 * ((length bs + 1) div 2)"
proof (induction bs rule: halfsum.induct)
  case (1 a b bs)
  have "unat a < 256" "unat b < 256" using unsigned_less[of a, where ?'a = nat] unsigned_less[of b, where ?'a = nat] by simp_all
  with 1 show ?case by simp
next
  case (2 a)
  then show ?case using unsigned_less[of a, where ?'a = nat] by simp
qed simp

lemma halfsum_append: "even (length xs) \<Longrightarrow> halfsum (xs @ ys) = halfsum xs + halfsum ys"
  by (induction xs rule: halfsum.induct) simp_all

lemma unat_sum_words: "unat acc + halfsum bs < 2 ^ 32 \<Longrightarrow> unat (sum_words bs acc) = unat acc + halfsum bs"
proof (induction bs acc rule: sum_words.induct)
  case (1 a b bs acc)
  have "unat (acc + ucast (from_be_bytes [a, b] :: u16)) = unat acc + (256 * unat a + unat b)"
    using "1.prems" by (simp add: unat_word_ariths unat_ucast_up unat_be16)
  with 1 show ?case by simp
next
  case (2 a acc)
  then show ?case using unsigned_less[of a, where ?'a = nat]
    by (simp add: unat_word_ariths push_bit_eq_mult unat_ucast_up)
qed simp

lemma unat_checksum:
  assumes "length bs \<le> 131072"
  shows "unat (checksum bs) = 65535 - carried (halfsum bs)"
proof -
  have "halfsum bs \<le> 65535 * 65536" 
    using halfsum_bound[of bs] mult_le_mono2[of "(length bs + 1) div 2" 65536 65535] assms by linarith
  then have "unat (fold_carry (sum_words bs 0)) = carried (halfsum bs)"
    by (simp add: unat_fold_carry unat_sum_words)
  moreover have "carried (halfsum bs) \<le> 65535"
    using mod_less_divisor[of 65535 "halfsum bs - 1"] by (simp add: carried_def Suc_le_eq)
  ultimately show ?thesis
    by (simp add: checksum_def unat_not16 unsigned_ucast_eq take_bit_eq_mod)
qed

text \<open>The checksum of data into which its own checksum has been written, at an even position that held
  zero, is zero: the test of the receiver.\<close>

lemma checksum_verifies:
  assumes "even (length xs)" "length xs + 2 + length ys \<le> 131072"
  shows "checksum (xs @ be_bytes 2 (checksum (xs @ be_bytes 2 (0 :: u16) @ ys)) @ ys) = 0"
proof -
  let ?z = "xs @ be_bytes 2 (0 :: u16) @ ys"
  let ?c = "checksum ?z"
  have be: "halfsum (be_bytes 2 w @ ys) = unat w + halfsum ys" for w :: u16
  proof -
    obtain a b where ab: "be_bytes 2 w = [a, b]"
      by (metis (no_types, opaque_lifting) length_be_bytes length_0_conv length_Suc_conv numeral_2_eq_2)
    have "from_be_bytes (be_bytes 2 w) = w" by simp
    then show ?thesis unfolding ab using unat_be16[of a b] by simp
  qed
  define S where "S = halfsum xs + halfsum ys"
  have c: "unat ?c = 65535 - carried S"
    using assms by (subst unat_checksum) (simp_all add: halfsum_append be S_def)
  have sum: "halfsum (xs @ be_bytes 2 ?c @ ys) = S + (65535 - carried S)"
    using assms(1) by (simp add: halfsum_append be c S_def del: unat_checksum)
  have "carried (S + (65535 - carried S)) = 65535"
  proof (cases "S = 0")
    case False
    define m where "m = (S - 1) mod 65535"
    have "m < 65535" by (simp add: m_def)
    moreover have "S - 1 = 65535 * ((S - 1) div 65535) + m" by (simp add: m_def)
    ultimately have "S + (65535 - (m + 1)) - 1 = 65534 + 65535 * ((S - 1) div 65535)" using False by linarith
    then show ?thesis using False by (simp add: carried_def m_def)
  qed (simp add: carried_def)
  then have "unat (checksum (xs @ be_bytes 2 ?c @ ys)) = 0"
    using assms by (subst unat_checksum) (simp_all add: sum)
  then show ?thesis by (simp add: unat_eq_zero)
qed

section \<open>Builders and parsers of a layer\<close>

text \<open>What a layer promises: a buffer that is too small is refused untouched; otherwise the builder
  writes a header of fixed length and the payload, leaves the rest of the buffer alone, and the parser
  gets back from these bytes the header's view and the payload.\<close>

locale codec =
  fixes build :: "'h \<Rightarrow> bytes \<Rightarrow> bytes \<Rightarrow> bytes \<times> nat"
    and parse :: "bytes \<Rightarrow> ('v \<times> bytes) option"
    and hlen :: nat
    and ok :: "'h \<Rightarrow> bool"
    and view :: "'h \<Rightarrow> bytes \<Rightarrow> 'v"
  assumes refuse: "length out < hlen + length payload \<Longrightarrow> build h payload out = (out, 0)"
    and accept: "ok h \<Longrightarrow> hlen + length payload \<le> length out \<Longrightarrow>
      \<exists>hdr. length hdr = hlen \<and> parse (hdr @ payload) = Some (view h payload, payload)
        \<and> build h payload out = (hdr @ payload @ drop (hlen + length payload) out, hlen + length payload)"
begin

lemma roundtrip:
  assumes "ok h" "hlen + length payload \<le> length out" "build h payload out = (out', n)"
  shows "parse (take n out') = Some (view h payload, payload)" "n = hlen + length payload"
    "drop n out' = drop n out" "length out' = length out"
  using accept[OF assms(1,2)] assms(2,3) by auto

end

locale codec_pair =
  lo: codec build1 parse1 hlen1 ok1 view1 + hi: codec build2 parse2 hlen2 ok2 view2
  for build1 :: "'h \<Rightarrow> bytes \<Rightarrow> bytes \<Rightarrow> bytes \<times> nat" and parse1 :: "bytes \<Rightarrow> ('v \<times> bytes) option"
    and hlen1 ok1 view1
    and build2 :: "'k \<Rightarrow> bytes \<Rightarrow> bytes \<Rightarrow> bytes \<times> nat" and parse2 :: "bytes \<Rightarrow> ('w \<times> bytes) option"
    and hlen2 ok2 view2
begin

text \<open>A packet of the upper layer carried by the lower one.\<close>

lemma stacked:
  assumes "ok1 h" "ok2 k" "build2 k payload buf2 = (pkt, n2)" "build1 h (take n2 pkt) buf1 = (frame, n1)"
    "hlen2 + length payload \<le> length buf2" "hlen1 + hlen2 + length payload \<le> length buf1"
  shows "parse1 (take n1 frame) = Some (view1 h (take n2 pkt), take n2 pkt)"
    "parse2 (take n2 pkt) = Some (view2 k payload, payload)"
    "n1 = hlen1 + hlen2 + length payload"
proof -
  note up = hi.roundtrip[OF assms(2,5,3)]
  have len: "length (take n2 pkt) = hlen2 + length payload" using up assms(5) by simp
  show "parse2 (take n2 pkt) = Some (view2 k payload, payload)" by (rule up)
  from len assms(6) have room: "hlen1 + length (take n2 pkt) \<le> length buf1" by simp
  show "parse1 (take n1 frame) = Some (view1 h (take n2 pkt), take n2 pkt)"
    by (rule lo.roundtrip(1)[OF assms(1) room assms(4)])
  show "n1 = hlen1 + hlen2 + length payload" using lo.roundtrip(2)[OF assms(1) room assms(4)] len by simp
qed

end

text \<open>Field by field: writing past a prefix leaves the prefix alone.\<close>

lemma copy_into_append: "length xs \<le> off \<Longrightarrow> copy_into (xs @ ys) off zs = xs @ copy_into ys (off - length xs) zs"
  by (simp add: copy_into_def Nat.add_diff_assoc2)

lemma copy_into_Cons: "0 < off \<Longrightarrow> copy_into (x # xs) off zs = x # copy_into xs (off - 1) zs"
  using copy_into_append[of "[x]" off xs zs] by simp

lemma be_bytes_2: "be_bytes 2 w = [ucast (drop_bit 8 w), ucast w]"
  by (simp add: be_bytes_def le_bytes_def upt_rec numeral_2_eq_2)

lemma from_be_bytes_2: "from_be_bytes [ucast (drop_bit 8 w), ucast w] = w" for w :: u16
  using from_be_bytes_be_bytes[of 2 w] be_bytes_2[of w] by simp

lemmas field_simps = copy_into_append copy_into_Cons be_bytes_2 from_be_bytes_2 slice_def

interpretation ether: codec "\<lambda>(dst, src, etype). ether_build dst src etype"
    "\<lambda>buf. map_option (\<lambda>(dst, src, etype, p). ((dst, src, etype), p)) (ether_parse buf)"
    14 "\<lambda>(dst, src, etype). length (octets dst) = 6 \<and> length (octets src) = 6" "\<lambda>h p. h"
proof (unfold_locales, goal_cases)
  case (2 h payload out)
  obtain dst src etype where h: "h = (dst, src, etype)" by (cases h) auto
  let ?hdr = "octets dst @ octets src @ be_bytes 2 etype"
  have "ether_build dst src etype payload out = (?hdr @ payload @ drop (14 + length payload) out, 14 + length payload)"
    using 2 h by (simp add: ether_build_def field_simps add.commute)
  moreover have "ether_parse (?hdr @ payload) = Some (dst, src, etype, payload)"
    using 2 h by (simp add: ether_parse_def field_simps nth_append)
  ultimately show ?case using 2 h by (intro exI[of _ ?hdr]) simp
qed (auto simp: ether_build_def)

text \<open>The bytes before and after the checksum of an IPv4 header and of an echo reply.\<close>

definition ip_front :: "ipv4_header \<Rightarrow> bytes \<Rightarrow> bytes" where
  "ip_front h p = [0x45, 0] @ be_bytes 2 (word_of_nat (20 + length p) :: u16) @ [0, 0, 0, 0, ttl h, protocol h]"

definition with_checksum :: "bytes \<Rightarrow> bytes \<Rightarrow> bytes" where
  "with_checksum front back = front @ be_bytes 2 (checksum (front @ be_bytes 2 (0 :: u16) @ back)) @ back"

lemma length_with_checksum [simp]: "length (with_checksum front back) = length front + 2 + length back"
  by (simp add: with_checksum_def)

lemma ipv4_build_eq:
  assumes "length (ip_src h) = 4" "length (ip_dst h) = 4" "20 + length p \<le> length out"
  shows "ipv4_build h p out =
    (with_checksum (ip_front h p) (ip_src h @ ip_dst h) @ p @ drop (20 + length p) out, 20 + length p)"
  using assms by (simp add: ipv4_build_def with_checksum_def ip_front_def Let_def field_simps add.commute)

lemma icmp_build_eq:
  assumes "8 + length p \<le> length out"
  shows "icmp_build_reply ident seq p out =
    (with_checksum [TYPE_ECHO_REPLY, 0] (be_bytes 2 ident @ be_bytes 2 seq @ p) @ drop (8 + length p) out, 8 + length p)"
  using assms by (simp add: icmp_build_reply_def with_checksum_def Let_def field_simps numeral_eq_Suc)

interpretation ipv4: codec ipv4_build ipv4_parse 20 "\<lambda>h. length (ip_src h) = 4 \<and> length (ip_dst h) = 4"
    "\<lambda>h p. h\<lparr>total_len := word_of_nat (20 + length p)\<rparr>"
proof (unfold_locales, goal_cases)
  case (2 h payload out)
  let ?hdr = "with_checksum (ip_front h payload) (ip_src h @ ip_dst h)"
  have "ipv4_parse (?hdr @ payload) = Some (h\<lparr>total_len := word_of_nat (20 + length payload)\<rparr>, payload)"
    using 2 by (simp add: ipv4_parse_def with_checksum_def ip_front_def Let_def field_simps nth_append)
  moreover have "length ?hdr = 20" using 2 by (simp add: with_checksum_def ip_front_def)
  ultimately show ?case using 2 by (intro exI[of _ ?hdr]) (simp add: ipv4_build_eq)
qed (auto simp: ipv4_build_def)

interpretation icmp: codec "\<lambda>(ident, seq). icmp_build_reply ident seq"
    "\<lambda>buf. map_option (\<lambda>(ident, seq, p). ((ident, seq), p)) (icmp_parse_echo buf)" 8 "\<lambda>h. True" "\<lambda>h p. h"
proof (unfold_locales, goal_cases)
  case (2 h payload out)
  obtain ident seq where h: "h = (ident, seq)" by (cases h)
  let ?c = "checksum ([TYPE_ECHO_REPLY, 0] @ be_bytes 2 (0 :: u16) @ be_bytes 2 ident @ be_bytes 2 seq @ payload)"
  let ?hdr = "[TYPE_ECHO_REPLY, 0] @ be_bytes 2 ?c @ be_bytes 2 ident @ be_bytes 2 seq"
  have "icmp_parse_echo (?hdr @ payload) = Some (ident, seq, payload)" by (simp add: icmp_parse_echo_def field_simps)
  then show ?case using 2 h by (intro exI[of _ ?hdr]) (simp add: icmp_build_eq with_checksum_def)
qed (auto simp: icmp_build_reply_def)

interpretation udp: codec "\<lambda>(src, dst). udp_build src dst"
    "\<lambda>buf. map_option (\<lambda>(src, dst, p). ((src, dst), p)) (udp_parse buf)" 8 "\<lambda>h. True" "\<lambda>h p. h"
proof (unfold_locales, goal_cases)
  case (2 h payload out)
  obtain src dst where h: "h = (src, dst)" by (cases h)
  let ?hdr = "be_bytes 2 src @ be_bytes 2 dst @ be_bytes 2 (word_of_nat (8 + length payload) :: u16) @ be_bytes 2 (0 :: u16)"
  have "udp_build src dst payload out = (?hdr @ payload @ drop (8 + length payload) out, 8 + length payload)"
    using 2 by (simp add: udp_build_def Let_def field_simps add.commute) (simp add: numeral_eq_Suc)
  moreover have "udp_parse (?hdr @ payload) = Some (src, dst, payload)" by (simp add: udp_parse_def field_simps)
  ultimately show ?case using h by (intro exI[of _ ?hdr]) simp
qed (auto simp: udp_build_def)

interpretation ip_ether: codec_pair "\<lambda>(dst, src, etype). ether_build dst src etype"
    "\<lambda>buf. map_option (\<lambda>(dst, src, etype, p). ((dst, src, etype), p)) (ether_parse buf)"
    14 "\<lambda>(dst, src, etype). length (octets dst) = 6 \<and> length (octets src) = 6" "\<lambda>h p. h"
    ipv4_build ipv4_parse 20 "\<lambda>h. length (ip_src h) = 4 \<and> length (ip_dst h) = 4"
    "\<lambda>h p. h\<lparr>total_len := word_of_nat (20 + length p)\<rparr>"
  by unfold_locales

interpretation udp_ip: codec_pair ipv4_build ipv4_parse 20 "\<lambda>h. length (ip_src h) = 4 \<and> length (ip_dst h) = 4"
    "\<lambda>h p. h\<lparr>total_len := word_of_nat (20 + length p)\<rparr>"
    "\<lambda>(src, dst). udp_build src dst"
    "\<lambda>buf. map_option (\<lambda>(src, dst, p). ((src, dst), p)) (udp_parse buf)" 8 "\<lambda>h. True" "\<lambda>h p. h"
  by unfold_locales

section \<open>Properties\<close>

text \<open>C31: A datagram built by the UDP, IPv4 and Ethernet builders, each into a buffer with enough room, is
  recovered by the parsers layer by layer: addresses, ports, protocol, time to live and payload, with
  the length field of the IPv4 header set to the length of the packet.\<close>

theorem datagram_roundtrip:
  assumes "length (octets dst) = 6" "length (octets src) = 6" "length (ip_src h) = 4" "length (ip_dst h) = 4"
    "udp_build sport dport data buf1 = (d, n1)" "ipv4_build h (take n1 d) buf2 = (pkt, n2)"
    "ether_build dst src etype (take n2 pkt) buf3 = (frame, n3)"
    "8 + length data \<le> length buf1" "28 + length data \<le> length buf2" "42 + length data \<le> length buf3"
  shows "ether_parse (take n3 frame) = Some (dst, src, etype, take n2 pkt)
    \<and> ipv4_parse (take n2 pkt) = Some (h\<lparr>total_len := word_of_nat (28 + length data)\<rparr>, take n1 d)
    \<and> udp_parse (take n1 d) = Some (sport, dport, data) \<and> n3 = 42 + length data"
proof -
  have d: "length (take n1 d) = 8 + length data" "udp_parse (take n1 d) = Some (sport, dport, data)"
    using udp.roundtrip[where h = "(sport, dport)" and payload = data and out = buf1 and out' = d and n = n1] assms(5,8) by auto
  have "ipv4_parse (take n2 pkt) = Some (h\<lparr>total_len := word_of_nat (28 + length data)\<rparr>, take n1 d)"
    using ip_ether.stacked(2)[of "(dst, src, etype)" h "take n1 d" buf2 pkt n2 buf3 frame n3] assms d(1) by simp
  moreover have "ether_parse (take n3 frame) = Some (dst, src, etype, take n2 pkt)" "n3 = 42 + length data"
    using ip_ether.stacked(1,3)[of "(dst, src, etype)" h "take n1 d" buf2 pkt n2 buf3 frame n3] assms d(1) by auto
  ultimately show ?thesis using d(2) by simp
qed

theorem datagram_roundtrip_witness:
  "\<exists>d n1 pkt n2 frame n3.
     udp_build 53 68 [1, 2, 3] (replicate 64 0) = (d, n1)
   \<and> ipv4_build \<lparr>ip_src = [10, 0, 2, 15], ip_dst = [10, 0, 2, 2], protocol = PROTO_UDP, ttl = 64, total_len = 0\<rparr>
       (take n1 d) (replicate 64 0) = (pkt, n2)
   \<and> ether_build MAC_BROADCAST MAC_ZERO ETHERTYPE_IPV4 (take n2 pkt) (replicate 64 0) = (frame, n3)
   \<and> ether_parse (take n3 frame) = Some (MAC_BROADCAST, MAC_ZERO, ETHERTYPE_IPV4, take n2 pkt)
   \<and> udp_parse (take n1 d) = Some (53, 68, [1, 2, 3]) \<and> n3 = 45"
proof -
  let ?h = "\<lparr>ip_src = [10, 0, 2, 15], ip_dst = [10, 0, 2, 2], protocol = PROTO_UDP, ttl = 64, total_len = 0\<rparr>"
  obtain d n1 where 1: "udp_build 53 68 [1, 2, 3] (replicate 64 0) = (d, n1)" by fastforce
  obtain pkt n2 where 2: "ipv4_build ?h (take n1 d) (replicate 64 0) = (pkt, n2)" by fastforce
  obtain frame n3 where 3: "ether_build MAC_BROADCAST MAC_ZERO ETHERTYPE_IPV4 (take n2 pkt) (replicate 64 0) = (frame, n3)"
    by fastforce
  have "length (octets MAC_BROADCAST) = 6" "length (octets MAC_ZERO) = 6" by (simp_all add: MAC_BROADCAST_def MAC_ZERO_def)
  from datagram_roundtrip[OF this _ _ 1 2 3] show ?thesis using 1 2 3 by (intro exI) auto
qed



text \<open>An ARP packet is recovered from the 28 bytes its builder writes; a shorter buffer is refused and
  left alone, and so is a shorter packet.\<close>

theorem arp_roundtrip:
  assumes "length (octets (sender_mac p)) = 6" "length (octets (target_mac p)) = 6"
    "length (sender_ip p) = 4" "length (target_ip p) = 4"
  shows "if length out < 28 then arp_build p out = (out, 0) \<and> arp_parse out = None
    else \<exists>out'. arp_build p out = (out', 28) \<and> arp_parse (take 28 out') = Some p \<and> drop 28 out' = drop 28 out"
proof (cases "length out < 28")
  case False
  let ?pkt = "be_bytes 2 HTYPE_ETHERNET @ be_bytes 2 PTYPE_IPV4 @ [HLEN, PLEN] @ be_bytes 2 (arp_op p) @
    octets (sender_mac p) @ sender_ip p @ octets (target_mac p) @ target_ip p"
  have "arp_build p out = (?pkt @ drop 28 out, 28)"
    using False assms by (simp add: arp_build_def Let_def field_simps)
  moreover have "arp_parse ?pkt = Some p"
    using assms by (simp add: arp_parse_def field_simps nth_append)
  ultimately show ?thesis using False assms by simp
qed (simp add: arp_build_def arp_parse_def)

theorem arp_roundtrip_witness:
  "\<exists>out'. arp_build \<lparr>arp_op = 1, sender_mac = MAC_BROADCAST, sender_ip = [10, 0, 2, 15], target_mac = MAC_ZERO,
      target_ip = [10, 0, 2, 2]\<rparr> (replicate 30 9) = (out', 28)
    \<and> arp_parse (take 28 out') = Some \<lparr>arp_op = 1, sender_mac = MAC_BROADCAST, sender_ip = [10, 0, 2, 15],
        target_mac = MAC_ZERO, target_ip = [10, 0, 2, 2]\<rparr> \<and> drop 28 out' = [9, 9]"
  using arp_roundtrip[of "\<lparr>arp_op = 1, sender_mac = MAC_BROADCAST, sender_ip = [10, 0, 2, 15], target_mac = MAC_ZERO,
      target_ip = [10, 0, 2, 2]\<rparr>" "replicate 30 9"]
  by (simp add: MAC_BROADCAST_def MAC_ZERO_def numeral_eq_Suc[of "num.Bit0 num.One"])

end
