(* ===== verification/BootMaps.thy ===== *)
theory BootMaps
  imports Memory
begin

text \<open>
  The two parsers that turn what the boot loader left in memory into the memory map:
  \<^verbatim>\<open>boards/qemu_pc/multiboot.rs\<close> (the same text serves \<^verbatim>\<open>boards/virtualbox\<close>) and
  \<^verbatim>\<open>boards/qemu_virt_riscv64/fdt.rs\<close>.  Memory at boot is a function from addresses to bytes.  The loop
  over the Multiboot entries ends at the announced length; the walk of the device tree ends only at an
  end token, so it is a partial function, and the lemmas show that it does end on a tree laid out in
  memory and finds exactly the \<^verbatim>\<open>reg\<close> entries of the memory nodes below the root.
\<close>

section \<open>Reading memory\<close>

definition mem_bytes :: "(nat \<Rightarrow> u8) \<Rightarrow> nat \<Rightarrow> nat \<Rightarrow> bytes" where
  "mem_bytes ram a n = map (\<lambda>i. ram (a + i)) [0..<n]"

definition read_u32 :: "(nat \<Rightarrow> u8) \<Rightarrow> nat \<Rightarrow> u32" where
  "read_u32 ram a = from_le_bytes (mem_bytes ram a 4)"

definition read_u64 :: "(nat \<Rightarrow> u8) \<Rightarrow> nat \<Rightarrow> u64" where
  "read_u64 ram a = from_le_bytes (mem_bytes ram a 8)"

definition be32_at :: "(nat \<Rightarrow> u8) \<Rightarrow> nat \<Rightarrow> u32" where
  "be32_at ram a = from_be_bytes (mem_bytes ram a 4)"

definition be64_at :: "(nat \<Rightarrow> u8) \<Rightarrow> nat \<Rightarrow> u64" where
  "be64_at ram a = from_be_bytes (mem_bytes ram a 8)"

section \<open>Multiboot\<close>

definition MB_MAGIC :: u32 where "MB_MAGIC = 0x2BADB002"
definition FLAG_MEM :: u32 where "FLAG_MEM = 1"
definition FLAG_MMAP :: u32 where "FLAG_MMAP = 64"

definition mb_fallback :: "memory_map \<Rightarrow> memory_map" where
  "mb_fallback m = mmap_add 0x100000 (127 * 1024 * 1024) Usable m"

text \<open>The loop of \<^verbatim>\<open>parse_mmap_entries\<close>; an entry is a 32-bit size that does not count itself, a 64-bit
  base, a 64-bit length and a 32-bit type.\<close>

function mb_entries :: "(nat \<Rightarrow> u8) \<Rightarrow> nat \<Rightarrow> nat \<Rightarrow> memory_map \<Rightarrow> memory_map" where
  "mb_entries ram limit ptr m =
     (if ptr + 4 \<le> limit then
        let entry_size = unat (read_u32 ram ptr) in
        if entry_size < 20 \<or> ptr + 4 + entry_size > limit then m
        else let base = unat (read_u64 ram (ptr + 4));
                 len = unat (read_u64 ram (ptr + 12));
                 kind = (if read_u32 ram (ptr + 20) = 1 then Usable else Reserved)
             in mb_entries ram limit (ptr + 4 + entry_size) (mmap_add base len kind m)
      else m)"
  by pat_completeness auto
termination by (relation "measure (\<lambda>(ram, limit, ptr, m). limit - ptr)") auto

declare mb_entries.simps [simp del]

definition parse_mmap_entries :: "(nat \<Rightarrow> u8) \<Rightarrow> memory_map \<Rightarrow> nat \<Rightarrow> nat \<Rightarrow> memory_map" where
  "parse_mmap_entries ram m mmap_addr mmap_len = mb_entries ram (mmap_addr + mmap_len) mmap_addr m"

definition mb_parse_memory_map :: "(nat \<Rightarrow> u8) \<Rightarrow> u32 \<Rightarrow> u32 \<Rightarrow> memory_map" where
  "mb_parse_memory_map ram multiboot_magic multiboot_info =
     (if multiboot_magic \<noteq> MB_MAGIC then mb_fallback mmap_empty
      else let base = unat multiboot_info; flags = read_u32 ram base in
        if flags AND FLAG_MMAP \<noteq> 0
        then parse_mmap_entries ram mmap_empty (unat (read_u32 ram (base + 48))) (unat (read_u32 ram (base + 44)))
        else if flags AND FLAG_MEM \<noteq> 0
        then mmap_add 0x100000 (unat (read_u32 ram (base + 8)) * 1024) Usable mmap_empty
        else mb_fallback mmap_empty)"

section \<open>The flattened device tree\<close>

definition FDT_MAGIC :: u32 where "FDT_MAGIC = 0xD00DFEED"
definition FDT_BEGIN_NODE :: u32 where "FDT_BEGIN_NODE = 1"
definition FDT_END_NODE :: u32 where "FDT_END_NODE = 2"
definition FDT_PROP :: u32 where "FDT_PROP = 3"
definition FDT_NOP :: u32 where "FDT_NOP = 4"

definition fdt_fallback :: "memory_map \<Rightarrow> memory_map" where
  "fdt_fallback m = mmap_add 0x80000000 (128 * 1024 * 1024) Usable m"

partial_function (option) cstr_len :: "(nat \<Rightarrow> u8) \<Rightarrow> nat \<Rightarrow> nat \<Rightarrow> nat option" where
  "cstr_len ram p len = (if ram (p + len) = 0 then Some len else cstr_len ram p (len + 1))"

definition cstr_bytes :: "(nat \<Rightarrow> u8) \<Rightarrow> nat \<Rightarrow> bytes option" where
  "cstr_bytes ram p = map_option (mem_bytes ram p) (cstr_len ram p 0)"

definition read_cells :: "(nat \<Rightarrow> u8) \<Rightarrow> nat \<Rightarrow> u32 \<Rightarrow> u64" where
  "read_cells ram p cells =
     (if cells = 1 then ucast (be32_at ram p) else if cells = 2 then be64_at ram p else ucast (be32_at ram p))"

definition parse_reg :: "(nat \<Rightarrow> u8) \<Rightarrow> nat \<Rightarrow> nat \<Rightarrow> u32 \<Rightarrow> u32 \<Rightarrow> memory_map \<Rightarrow> memory_map" where
  "parse_reg ram data len addr_cells size_cells m =
     (let entry_bytes = unat (addr_cells + size_cells) * 4 in
      if entry_bytes = 0 then m
      else fold (\<lambda>i. let off = i * entry_bytes;
                         base = read_cells ram (data + off) addr_cells;
                         sz = read_cells ram (data + off + unat addr_cells * 4) size_cells
                     in mmap_add (unat base) (unat sz) Usable)
             [0..<len div entry_bytes] m)"

text \<open>The local variables of the walk.\<close>

record fdt_state =
  f_depth :: nat
  f_addr :: u32
  f_size :: u32
  f_in_memory :: bool
  f_map :: memory_map

definition fdt_begin :: "bytes \<Rightarrow> fdt_state \<Rightarrow> fdt_state" where
  "fdt_begin name st =
     st\<lparr>f_in_memory := f_depth st = 1 \<and> (name = ascii ''memory'' \<or> take 7 name = ascii ''memory@''),
        f_depth := f_depth st + 1\<rparr>"

definition fdt_end :: "fdt_state \<Rightarrow> fdt_state" where
  "fdt_end st = st\<lparr>f_depth := f_depth st - 1, f_in_memory := False\<rparr>"

definition fdt_prop :: "(nat \<Rightarrow> u8) \<Rightarrow> nat \<Rightarrow> nat \<Rightarrow> bytes \<Rightarrow> fdt_state \<Rightarrow> fdt_state" where
  "fdt_prop ram data prop_len pname st =
     (let st1 = (if f_depth st = 1 then
                   if pname = ascii ''#address-cells'' \<and> prop_len = 4 then st\<lparr>f_addr := be32_at ram data\<rparr>
                   else if pname = ascii ''#size-cells'' \<and> prop_len = 4 then st\<lparr>f_size := be32_at ram data\<rparr>
                   else st
                 else st)
      in if f_in_memory st1 \<and> pname = ascii ''reg''
         then st1\<lparr>f_map := parse_reg ram data prop_len (f_addr st1) (f_size st1) (f_map st1)\<rparr>
         else st1)"

partial_function (option) fdt_walk :: "(nat \<Rightarrow> u8) \<Rightarrow> nat \<Rightarrow> nat \<Rightarrow> fdt_state \<Rightarrow> memory_map option" where
  "fdt_walk ram strings cur st =
     (let token = be32_at ram cur; cur = cur + 4 in
      if token = FDT_BEGIN_NODE then
        Option.bind (cstr_len ram cur 0) (\<lambda>nlen.
          fdt_walk ram strings (cur + (nlen + 1 + 3) div 4 * 4) (fdt_begin (mem_bytes ram cur nlen) st))
      else if token = FDT_END_NODE then fdt_walk ram strings cur (fdt_end st)
      else if token = FDT_PROP then
        let prop_len = unat (be32_at ram cur); name_off = unat (be32_at ram (cur + 4)); data = cur + 8 in
        Option.bind (cstr_bytes ram (strings + name_off)) (\<lambda>pname.
          fdt_walk ram strings (data + (prop_len + 3) div 4 * 4) (fdt_prop ram data prop_len pname st))
      else if token = FDT_NOP then fdt_walk ram strings cur st
      else Some (f_map st))"

definition fdt_start :: fdt_state where
  "fdt_start = \<lparr>f_depth = 0, f_addr = 2, f_size = 2, f_in_memory = False, f_map = mmap_empty\<rparr>"

definition fdt_parse_memory_map :: "(nat \<Rightarrow> u8) \<Rightarrow> nat \<Rightarrow> memory_map option" where
  "fdt_parse_memory_map ram fdt_base =
     (if fdt_base = 0 \<or> be32_at ram fdt_base \<noteq> FDT_MAGIC then Some (fdt_fallback mmap_empty)
      else let off_struct = unat (be32_at ram (fdt_base + 8)); off_str = unat (be32_at ram (fdt_base + 12)) in
        map_option (\<lambda>m. if mm_count m = 0 then fdt_fallback m else m)
          (fdt_walk ram (fdt_base + off_str) (fdt_base + off_struct) fdt_start))"

section \<open>Filling the map\<close>

definition mmap_add_all :: "memory_region list \<Rightarrow> memory_map \<Rightarrow> memory_map" where
  "mmap_add_all = fold (\<lambda>r. mmap_add (mr_base r) (mr_size r) (mr_kind r))"

lemma mmap_add_all_simps [simp]:
  "mmap_add_all [] m = m"
  "mmap_add_all (r # rs) m = mmap_add_all rs (mmap_add (mr_base r) (mr_size r) (mr_kind r) m)"
  "mmap_add_all (rs @ rs') m = mmap_add_all rs' (mmap_add_all rs m)"
  by (simp_all add: mmap_add_all_def)

lemma mmap_add_all_wf [wf_intros]: "mmap_wf m \<Longrightarrow> mmap_wf (mmap_add_all rs m)"
  by (induction rs arbitrary: m) (simp_all add: mmap_add_wf)

lemma mm_count_add: "mm_count (mmap_add b n k m) = (if 0 < n \<and> mm_count m < MAX_REGIONS then mm_count m + 1 else mm_count m)"
  by (simp add: mmap_add_def)

lemma length_mmap_iter: "mmap_wf m \<Longrightarrow> length (mmap_iter m) = mm_count m"
  by (simp add: mmap_wf_def mmap_iter_def)

lemma mmap_iter_empty [simp]: "mmap_iter mmap_empty = []"
  by (simp add: mmap_iter_def mmap_empty_def)

text \<open>The map keeps the first 32 non-empty regions it is given.\<close>

lemma mmap_iter_add_all:
  "mmap_wf m \<Longrightarrow> mmap_iter (mmap_add_all rs m) = take MAX_REGIONS (mmap_iter m @ filter (\<lambda>r. 0 < mr_size r) rs)"
proof (induction rs arbitrary: m)
  case Nil
  then show ?case by (simp add: length_mmap_iter mmap_wf_def)
next
  case (Cons r rs)
  have "mm_count m \<le> MAX_REGIONS" using Cons.prems by (simp add: mmap_wf_def)
  with Cons show ?case
    by (auto simp: mmap_add_wf mmap_iter_add length_mmap_iter mm_count_add take_Cons' Suc_diff_Suc)
qed

section \<open>Bytes laid out in memory\<close>

definition laid :: "(nat \<Rightarrow> u8) \<Rightarrow> nat \<Rightarrow> bytes \<Rightarrow> bool" where
  "laid ram a bs \<longleftrightarrow> mem_bytes ram a (length bs) = bs"

lemma length_mem_bytes [simp]: "length (mem_bytes ram a n) = n"
  by (simp add: mem_bytes_def)

lemma mem_bytes_add: "mem_bytes ram a (m + n) = mem_bytes ram a m @ mem_bytes ram (a + m) n"
  by (rule nth_equalityI) (auto simp: mem_bytes_def nth_append add.assoc)

lemma laid_Nil [simp]: "laid ram a []"
  by (simp add: laid_def mem_bytes_def)

lemma laid_append [simp]: "laid ram a (xs @ ys) \<longleftrightarrow> laid ram a xs \<and> laid ram (a + length xs) ys"
  by (simp add: laid_def mem_bytes_add append_eq_append_conv)

lemma laid_Cons: "laid ram a (x # xs) \<longleftrightarrow> ram a = x \<and> laid ram (a + 1) xs"
  using laid_append[of ram a "[x]" xs] by (simp add: laid_def[of ram a "[x]"] mem_bytes_def)

lemma laid_mem_bytes: "laid ram a bs \<Longrightarrow> n = length bs \<Longrightarrow> mem_bytes ram a n = bs"
  by (simp add: laid_def)

lemma laid_reads [simp]:
  "laid ram a (le_bytes 4 w4) \<Longrightarrow> read_u32 ram a = w4" "laid ram a (le_bytes 8 w8) \<Longrightarrow> read_u64 ram a = w8"
  "laid ram a (be_bytes 4 w4) \<Longrightarrow> be32_at ram a = w4" "laid ram a (be_bytes 8 w8) \<Longrightarrow> be64_at ram a = w8"
  by (simp_all add: laid_def read_u32_def read_u64_def be32_at_def be64_at_def)

section \<open>The Multiboot table\<close>

text \<open>An entry as the boot loader writes it; \<open>mb_pad\<close> is what follows the type in larger entries.\<close>

record mb_entry =
  mb_base :: u64
  mb_len :: u64
  mb_type :: u32
  mb_pad :: bytes

definition mb_encode :: "mb_entry \<Rightarrow> bytes" where
  "mb_encode e = le_bytes 4 (word_of_nat (20 + length (mb_pad e)) :: u32) @ le_bytes 8 (mb_base e) @ le_bytes 8 (mb_len e)
     @ le_bytes 4 (mb_type e) @ mb_pad e"

definition mb_region :: "mb_entry \<Rightarrow> memory_region" where
  "mb_region e = \<lparr>mr_base = unat (mb_base e), mr_size = unat (mb_len e), mr_kind = if mb_type e = 1 then Usable else Reserved\<rparr>"

lemma mb_entries_laid:
  assumes "laid ram ptr (concat (map mb_encode es))" "limit = ptr + length (concat (map mb_encode es))"
    "list_all (\<lambda>e. length (mb_pad e) < 2 ^ 31) es"
  shows "mb_entries ram limit ptr m = mmap_add_all (map mb_region es) m"
  using assms
proof (induction es arbitrary: ptr m)
  case Nil
  then show ?case by (simp add: mb_entries.simps)
next
  case (Cons e es)
  let ?n = "20 + length (mb_pad e)"
  have "unat (word_of_nat ?n :: u32) = ?n"
    using Cons.prems(3) by (simp add: unsigned_of_nat take_bit_nat_eq_self_iff del: of_nat_add)
  then have sz: "unat (20 + word_of_nat (length (mb_pad e)) :: u32) = ?n" by simp
  from Cons.prems(1) have r: "read_u32 ram ptr = word_of_nat ?n" "read_u64 ram (ptr + 4) = mb_base e"
      "read_u64 ram (ptr + 12) = mb_len e" "read_u32 ram (ptr + 20) = mb_type e"
      "laid ram (ptr + 4 + ?n) (concat (map mb_encode es))"
    by (simp_all add: mb_encode_def[of e] add.assoc)
  have "mb_entries ram limit ptr m = mb_entries ram limit (ptr + 4 + ?n)
      (mmap_add (unat (mb_base e)) (unat (mb_len e)) (if mb_type e = 1 then Usable else Reserved) m)"
    using Cons.prems(2) by (subst mb_entries.simps) (simp add: r sz mb_encode_def[of e] Let_def)
  also have "\<dots> = mmap_add_all (map mb_region (e # es)) m"
    using Cons.IH[OF r(5)] Cons.prems(2,3) by (simp add: mb_region_def[of e] mb_encode_def[of e] add.assoc)
  finally show ?case .
qed

section \<open>Device trees\<close>

text \<open>A device tree, its tokens, and its memory: the regions that the \<^verbatim>\<open>reg\<close> properties of the memory
  nodes below the root describe, in the cell sizes the root declares.\<close>

datatype dt_node = Node (dn_name: bytes) (dn_props: "(bytes \<times> bytes) list") (dn_children: "dt_node list")

datatype fdt_token = TBegin bytes | TEnd | TProp bytes bytes | TNop

fun flatten :: "dt_node \<Rightarrow> fdt_token list" where
  "flatten (Node name props children) =
     TBegin name # map (\<lambda>(n, d). TProp n d) props @ concat (map flatten children) @ [TEnd]"

definition cells :: "u32 \<Rightarrow> bytes \<Rightarrow> nat" where
  "cells c bs = (if c = 2 then unat (from_be_bytes (take 8 bs) :: u64) else unat (from_be_bytes (take 4 bs) :: u32))"

definition reg_entries :: "u32 \<Rightarrow> u32 \<Rightarrow> bytes \<Rightarrow> memory_region list" where
  "reg_entries a s d =
     map (\<lambda>i. \<lparr>mr_base = cells a (drop (i * (4 * unat a + 4 * unat s)) d),
               mr_size = cells s (drop (i * (4 * unat a + 4 * unat s) + 4 * unat a) d), mr_kind = Usable\<rparr>)
       [0..<length d div (4 * unat a + 4 * unat s)]"

definition set_cells :: "bytes \<times> bytes \<Rightarrow> u32 \<times> u32 \<Rightarrow> u32 \<times> u32" where
  "set_cells p c =
     (if fst p = ascii ''#address-cells'' \<and> length (snd p) = 4 then (from_be_bytes (snd p), snd c)
      else if fst p = ascii ''#size-cells'' \<and> length (snd p) = 4 then (fst c, from_be_bytes (snd p)) else c)"

definition is_memory :: "bytes \<Rightarrow> bool" where
  "is_memory name \<longleftrightarrow> name = ascii ''memory'' \<or> take 7 name = ascii ''memory@''"

fun regs_of :: "u32 \<times> u32 \<Rightarrow> (bytes \<times> bytes) list \<Rightarrow> memory_region list" where
  "regs_of c [] = []"
| "regs_of c ((p, d) # ps) = (if p = ascii ''reg'' then reg_entries (fst c) (snd c) d else []) @ regs_of c ps"

definition node_regions :: "u32 \<times> u32 \<Rightarrow> dt_node \<Rightarrow> memory_region list" where
  "node_regions c n = (if is_memory (dn_name n) then regs_of c (dn_props n) else [])"

definition dt_memory :: "dt_node \<Rightarrow> memory_region list" where
  "dt_memory root = concat (map (node_regions (fold set_cells (dn_props root) (2, 2))) (dn_children root))"

text \<open>The tokens laid out in memory: names end with a zero byte, property names live in the strings
  block, everything is padded to words, and the list ends at a word that is no such token.\<close>

definition str_at :: "(nat \<Rightarrow> u8) \<Rightarrow> nat \<Rightarrow> bytes \<Rightarrow> bool" where
  "str_at ram a s \<longleftrightarrow> laid ram a (s @ [0]) \<and> 0 \<notin> set s"

fun tokens_at :: "(nat \<Rightarrow> u8) \<Rightarrow> nat \<Rightarrow> nat \<Rightarrow> fdt_token list \<Rightarrow> bool" where
  "tokens_at ram strings a [] \<longleftrightarrow> be32_at ram a \<notin> {FDT_BEGIN_NODE, FDT_END_NODE, FDT_PROP, FDT_NOP}"
| "tokens_at ram strings a (TBegin name # ts) \<longleftrightarrow>
     be32_at ram a = FDT_BEGIN_NODE \<and> str_at ram (a + 4) name
     \<and> tokens_at ram strings (a + 4 + (length name + 1 + 3) div 4 * 4) ts"
| "tokens_at ram strings a (TEnd # ts) \<longleftrightarrow> be32_at ram a = FDT_END_NODE \<and> tokens_at ram strings (a + 4) ts"
| "tokens_at ram strings a (TProp name d # ts) \<longleftrightarrow>
     be32_at ram a = FDT_PROP \<and> unat (be32_at ram (a + 4)) = length d
     \<and> str_at ram (strings + unat (be32_at ram (a + 8))) name \<and> laid ram (a + 12) d
     \<and> tokens_at ram strings (a + 12 + (length d + 3) div 4 * 4) ts"
| "tokens_at ram strings a (TNop # ts) \<longleftrightarrow> be32_at ram a = FDT_NOP \<and> tokens_at ram strings (a + 4) ts"

lemma cstr_len_str:
  assumes "str_at ram p s" "n \<le> length s"
  shows "cstr_len ram p n = Some (length s)"
  using assms(2)
proof (induction "length s - n" arbitrary: n)
  case 0
  have "ram (p + length s) = 0"
    using assms(1) arg_cong[where f = "\<lambda>xs. xs ! length s"] by (fastforce simp: str_at_def laid_def mem_bytes_def)
  with 0 show ?case by (simp add: cstr_len.simps)
next
  case (Suc k)
  then have n: "n < length s" by simp
  have "laid ram p s" using assms(1) by (simp add: str_at_def)
  then have "mem_bytes ram p (length s) = s" by (rule laid_mem_bytes) simp
  then have "ram (p + n) = s ! n" using n by (metis (no_types, lifting) add.left_neutral length_mem_bytes mem_bytes_def nth_map_upt diff_zero)
  then have "ram (p + n) \<noteq> 0" using assms(1) n by (metis nth_mem str_at_def)
  then show ?case using Suc n by (subst cstr_len.simps) simp
qed

lemma str_at_reads:
  assumes "str_at ram p s"
  shows "cstr_len ram p 0 = Some (length s)" "mem_bytes ram p (length s) = s" "cstr_bytes ram p = Some s"
proof -
  have "laid ram p s" using assms by (simp add: str_at_def)
  then show m: "mem_bytes ram p (length s) = s" by (rule laid_mem_bytes) simp
  show c: "cstr_len ram p 0 = Some (length s)" using cstr_len_str[OF assms, of 0] by simp
  show "cstr_bytes ram p = Some s" by (simp add: cstr_bytes_def m c)
qed

text \<open>The effect of a token on the variables of the walk, with the property's bytes in place of its
  address, as long as the cell sizes are 1 or 2.\<close>

definition cells_ok :: "u32 \<times> u32 \<Rightarrow> bool" where
  "cells_ok c \<longleftrightarrow> fst c \<in> {1, 2} \<and> snd c \<in> {1, 2}"

abbreviation f_cells :: "fdt_state \<Rightarrow> u32 \<times> u32" where
  "f_cells st \<equiv> (f_addr st, f_size st)"

fun tok_step :: "fdt_token \<Rightarrow> fdt_state \<Rightarrow> fdt_state" where
  "tok_step (TBegin name) st = fdt_begin name st"
| "tok_step TEnd st = fdt_end st"
| "tok_step (TProp p d) st =
     (let c = (if f_depth st = 1 then set_cells (p, d) (f_cells st) else f_cells st)
      in st\<lparr>f_addr := fst c, f_size := snd c,
            f_map := if f_in_memory st \<and> p = ascii ''reg'' then mmap_add_all (reg_entries (fst c) (snd c) d) (f_map st)
                     else f_map st\<rparr>)"
| "tok_step TNop st = st"

fun cells_kept :: "fdt_token list \<Rightarrow> fdt_state \<Rightarrow> bool" where
  "cells_kept [] st \<longleftrightarrow> cells_ok (f_cells st)"
| "cells_kept (t # ts) st \<longleftrightarrow> cells_ok (f_cells st) \<and> cells_kept ts (tok_step t st)"

lemma laid_slice:
  assumes "laid ram a d" "off + n \<le> length d"
  shows "mem_bytes ram (a + off) n = take n (drop off d)"
proof -
  have "mem_bytes ram a (off + (n + (length d - off - n))) = d" using assms by (simp add: laid_def)
  then have "mem_bytes ram a off @ mem_bytes ram (a + off) n @ mem_bytes ram (a + off + n) (length d - off - n) = d"
    by (simp add: mem_bytes_add)
  from arg_cong[OF this, of "\<lambda>xs. take n (drop off xs)"] show ?thesis by simp
qed

lemma read_cells_laid:
  assumes "laid ram a d" "off + 4 * unat c \<le> length d" "c \<in> {1, 2}"
  shows "unat (read_cells ram (a + off) c) = cells c (drop off d)"
proof -
  have "unat c = 1 \<or> unat c = 2" using assms(3) by auto
  then show ?thesis using assms laid_slice[OF assms(1), of off 4] laid_slice[OF assms(1), of off 8]
    by (auto simp: read_cells_def cells_def be32_at_def be64_at_def unat_ucast_up)
qed

lemma parse_reg_laid:
  assumes d: "laid ram data d" and c: "cells_ok (a, s)"
  shows "parse_reg ram data (length d) a s m = mmap_add_all (reg_entries a s d) m"
proof -
  let ?e = "4 * unat a + 4 * unat s"
  have "unat (a + s) = unat a + unat s" using c by (auto simp: cells_ok_def)
  then have e: "unat (a + s) * 4 = ?e" by simp
  have pos: "0 < ?e" using c by (auto simp: cells_ok_def)
  have entry: "unat (read_cells ram (data + i * ?e) a) = cells a (drop (i * ?e) d)"
      "unat (read_cells ram (data + i * ?e + unat a * 4) s) = cells s (drop (i * ?e + 4 * unat a) d)"
    if "i < length d div ?e" for i
  proof -
    have "Suc i * ?e \<le> length d" using that pos by (metis Suc_leI div_times_less_eq_dividend le_trans mult_le_mono1)
    then have "i * ?e + ?e \<le> length d" by simp
    then show "unat (read_cells ram (data + i * ?e) a) = cells a (drop (i * ?e) d)"
      "unat (read_cells ram (data + i * ?e + unat a * 4) s) = cells s (drop (i * ?e + 4 * unat a) d)"
      using read_cells_laid[OF d, of "i * ?e" a] read_cells_laid[OF d, of "i * ?e + 4 * unat a" s] c
      by (simp_all add: cells_ok_def add.assoc mult.commute)
  qed
  show ?thesis unfolding parse_reg_def Let_def e reg_entries_def mmap_add_all_def fold_map comp_def
    using pos by (auto intro!: fold_cong simp: entry)
qed

lemma reg_no_cells: "ascii ''reg'' \<noteq> ascii ''#address-cells''" "ascii ''reg'' \<noteq> ascii ''#size-cells''"
  by (auto simp: ascii_def dest: arg_cong[where f = length])

lemma fdt_prop_laid:
  assumes "laid ram data d" "cells_ok (f_cells st)"
  shows "fdt_prop ram data (length d) p st = tok_step (TProp p d) st"
proof -
  have 4: "length d = 4 \<Longrightarrow> be32_at ram data = from_be_bytes d"
    using assms(1) by (simp add: be32_at_def laid_def)
  show ?thesis
  proof (cases "p = ascii ''reg''")
    case True
    then show ?thesis using parse_reg_laid[OF assms]
      by (simp add: fdt_prop_def set_cells_def Let_def reg_no_cells)
  next
    case False
    then show ?thesis by (simp add: fdt_prop_def set_cells_def Let_def 4)
  qed
qed

lemma fdt_walk_tokens:
  assumes "tokens_at ram strings a ts" "cells_kept ts st"
  shows "fdt_walk ram strings a st = Some (f_map (fold tok_step ts st))"
  using assms
proof (induction ts arbitrary: a st)
  case Nil
  then show ?case by (simp add: fdt_walk.simps)
next
  case (Cons t ts)
  note tok = FDT_BEGIN_NODE_def FDT_END_NODE_def FDT_PROP_def FDT_NOP_def
  show ?case
  proof (cases t)
    case (TBegin name)
    then show ?thesis using Cons str_at_reads[of ram "a + 4" name]
      by (subst fdt_walk.simps) (simp add: Let_def)
  next
    case TEnd
    then show ?thesis using Cons by (subst fdt_walk.simps) (simp add: Let_def tok)
  next
    case (TProp p d)
    let ?off = "unat (be32_at ram (a + 8))"
    have "fdt_prop ram (a + 12) (length d) p st = tok_step t st"
      using Cons.prems TProp by (simp add: fdt_prop_laid)
    then show ?thesis using Cons TProp str_at_reads(3)[of ram "strings + ?off" p]
      by (subst fdt_walk.simps) (simp add: Let_def tok add.assoc del: tok_step.simps)
  next
    case TNop
    then show ?thesis using Cons by (subst fdt_walk.simps) (simp add: Let_def tok)
  qed
qed

lemma cells_kept_append [simp]:
  "cells_kept (ts @ us) st \<longleftrightarrow> cells_kept ts st \<and> cells_kept us (fold tok_step ts st)"
proof (induction ts arbitrary: st)
  case Nil
  show ?case by (cases us) auto
qed auto

abbreviation props_tokens :: "(bytes \<times> bytes) list \<Rightarrow> fdt_token list" where
  "props_tokens ps \<equiv> map (\<lambda>(n, d). TProp n d) ps"

text \<open>Below the children of the root a property counts only inside a memory node.\<close>

lemma deep_props:
  assumes "f_depth st \<noteq> 1"
  shows "fold tok_step (props_tokens ps) st =
    st\<lparr>f_map := if f_in_memory st then mmap_add_all (regs_of (f_cells st) ps) (f_map st) else f_map st\<rparr>"
    "cells_ok (f_cells st) \<Longrightarrow> cells_kept (props_tokens ps) st"
  using assms by (induction ps arbitrary: st) (auto simp: Let_def)

lemma deep_subtrees:
  assumes "\<And>c st. c \<in> set cs \<Longrightarrow> 2 \<le> f_depth st \<Longrightarrow> fold tok_step (flatten c) st = st\<lparr>f_in_memory := False\<rparr>"
    "\<And>c st. c \<in> set cs \<Longrightarrow> 2 \<le> f_depth st \<Longrightarrow> cells_ok (f_cells st) \<Longrightarrow> cells_kept (flatten c) st"
    "2 \<le> f_depth st"
  shows "fold tok_step (concat (map flatten cs)) st = st\<lparr>f_in_memory := f_in_memory st \<and> cs = []\<rparr>"
    "cells_ok (f_cells st) \<Longrightarrow> cells_kept (concat (map flatten cs)) st"
  using assms by (induction cs arbitrary: st) simp_all

lemma deep_subtree:
  assumes "2 \<le> f_depth st"
  shows "fold tok_step (flatten n) st = st\<lparr>f_in_memory := False\<rparr>"
    "cells_ok (f_cells st) \<Longrightarrow> cells_kept (flatten n) st"
  using assms
proof (induction n arbitrary: st)
  case (Node name ps cs)
  note sub = deep_subtrees[of cs, OF Node(1,2)]
  case 1
  then show ?case by (cases st) (simp add: deep_props(1) sub(1) fdt_begin_def fdt_end_def)
next
  case (Node name ps cs)
  note sub = deep_subtrees[of cs, OF Node(1,2)]
  case 2
  then show ?case by (cases st) (simp add: deep_props sub fdt_begin_def fdt_end_def)
qed

lemma root_child:
  assumes "f_depth st = 1"
  shows "fold tok_step (flatten n) st =
      st\<lparr>f_in_memory := False, f_map := mmap_add_all (node_regions (f_cells st) n) (f_map st)\<rparr>"
    "cells_ok (f_cells st) \<Longrightarrow> cells_kept (flatten n) st"
proof -
  obtain name ps cs where n: "n = Node name ps cs" by (cases n)
  note sub = deep_subtrees[of cs, OF deep_subtree]
  show "fold tok_step (flatten n) st =
      st\<lparr>f_in_memory := False, f_map := mmap_add_all (node_regions (f_cells st) n) (f_map st)\<rparr>"
    using assms by (cases st) (simp add: n deep_props(1) sub(1) fdt_begin_def fdt_end_def node_regions_def is_memory_def)
  show "cells_ok (f_cells st) \<Longrightarrow> cells_kept (flatten n) st"
    using assms by (cases st) (simp add: n deep_props sub fdt_begin_def fdt_end_def)
qed

lemma root_children:
  assumes "f_depth st = 1" "\<not> f_in_memory st"
  shows "fold tok_step (concat (map flatten cs)) st =
      st\<lparr>f_map := mmap_add_all (concat (map (node_regions (f_cells st)) cs)) (f_map st)\<rparr>"
    "cells_ok (f_cells st) \<Longrightarrow> cells_kept (concat (map flatten cs)) st"
  using assms by (induction cs arbitrary: st) (simp_all add: root_child)

text \<open>The properties of the root set the cell sizes.\<close>

definition sane_cells :: "bytes \<times> bytes \<Rightarrow> bool" where
  "sane_cells p \<longleftrightarrow> cells_ok (set_cells p (2, 2))"

lemma root_props:
  assumes "f_depth st = 1" "\<not> f_in_memory st" "cells_ok (f_cells st)" "list_all sane_cells ps"
  shows "fold tok_step (props_tokens ps) st =
      st\<lparr>f_addr := fst (fold set_cells ps (f_cells st)), f_size := snd (fold set_cells ps (f_cells st))\<rparr>
    \<and> cells_kept (props_tokens ps) st \<and> cells_ok (fold set_cells ps (f_cells st))"
  using assms
proof (induction ps arbitrary: st)
  case (Cons p ps)
  obtain n d where p: "p = (n, d)" by (cases p)
  let ?c = "set_cells p (f_cells st)"
  let ?st = "st\<lparr>f_addr := fst ?c, f_size := snd ?c\<rparr>"
  have step: "tok_step (TProp n d) st = ?st" using Cons.prems by (cases st) (simp add: p Let_def)
  have ok: "cells_ok (f_cells ?st)"
    using Cons.prems(3,4) by (auto simp: cells_ok_def sane_cells_def set_cells_def split: if_splits)
  then show ?case using Cons.IH[of ?st] Cons.prems step by (simp add: p del: tok_step.simps)
qed simp

lemma dt_walk:
  assumes "list_all sane_cells (dn_props root)"
  shows "f_map (fold tok_step (flatten root) fdt_start) = mmap_add_all (dt_memory root) mmap_empty"
    "cells_kept (flatten root) fdt_start"
proof -
  obtain name ps cs where root: "root = Node name ps cs" by (cases root)
  let ?s1 = "fdt_begin name fdt_start"
  let ?c = "fold set_cells ps (2, 2)"
  let ?s2 = "?s1\<lparr>f_addr := fst ?c, f_size := snd ?c\<rparr>"
  have s1: "f_depth ?s1 = 1" "\<not> f_in_memory ?s1" "f_cells ?s1 = (2, 2)" "f_map ?s1 = mmap_empty"
    by (simp_all add: fdt_begin_def fdt_start_def)
  have ok: "cells_ok (2, 2)" by (simp add: cells_ok_def)
  have P: "fold tok_step (props_tokens ps) ?s1 = ?s2" "cells_kept (props_tokens ps) ?s1" "cells_ok ?c"
    using root_props[of ?s1 ps] s1 ok assms root by auto
  have s2: "f_depth ?s2 = 1" "\<not> f_in_memory ?s2" "f_cells ?s2 = ?c" "f_map ?s2 = mmap_empty" using s1 by simp_all
  have C: "fold tok_step (concat (map flatten cs)) ?s2 = ?s2\<lparr>f_map := mmap_add_all (concat (map (node_regions ?c) cs)) mmap_empty\<rparr>"
      "cells_kept (concat (map flatten cs)) ?s2"
    using root_children[OF s2(1,2), of cs] P(3) s2 by auto
  show "f_map (fold tok_step (flatten root) fdt_start) = mmap_add_all (dt_memory root) mmap_empty"
    by (simp add: root P(1) C(1) fdt_end_def dt_memory_def)
  show "cells_kept (flatten root) fdt_start"
    using P(3) ok by (simp add: root P(1,2) C s1(3) fdt_end_def) (simp add: fdt_start_def)
qed

section \<open>Properties\<close>

text \<open>C10: The device-tree walk terminates on a tree laid out in memory and returns exactly the memory of the
  tree: the \<^verbatim>\<open>reg\<close> entries of the memory nodes directly below the root, in order, read with the cell
  sizes the root declares (when these are one or two words), and the default region when there are none.\<close>

theorem fdt_finds_memory:
  assumes "fdt_base \<noteq> 0" "be32_at ram fdt_base = FDT_MAGIC" "list_all sane_cells (dn_props root)"
    "tokens_at ram (fdt_base + unat (be32_at ram (fdt_base + 12))) (fdt_base + unat (be32_at ram (fdt_base + 8))) (flatten root)"
  shows "fdt_parse_memory_map ram fdt_base =
    Some (let m = mmap_add_all (dt_memory root) mmap_empty in if mm_count m = 0 then fdt_fallback m else m)"
  using fdt_walk_tokens[OF assms(4) dt_walk(2)[OF assms(3)]] dt_walk(1)[OF assms(3)] assms(1,2)
  by (simp add: fdt_parse_memory_map_def Let_def)

text \<open>A device tree with one memory node, laid out at 0x1000.\<close>

definition demo_reg :: bytes where
  "demo_reg = be_bytes 8 (0x80000000 :: u64) @ be_bytes 8 (0x8000000 :: u64)"

definition demo_tree :: dt_node where
  "demo_tree = Node [] [] [Node (ascii ''memory@80000000'') [(ascii ''reg'', demo_reg)] []]"

definition demo_blob :: bytes where
  "demo_blob = be_bytes 4 FDT_MAGIC @ be_bytes 4 (88 :: u32) @ be_bytes 4 (16 :: u32) @ be_bytes 4 (84 :: u32)
     @ be_bytes 4 FDT_BEGIN_NODE @ [0] @ [0, 0, 0]
     @ be_bytes 4 FDT_BEGIN_NODE @ (ascii ''memory@80000000'' @ [0])
     @ be_bytes 4 FDT_PROP @ be_bytes 4 (16 :: u32) @ be_bytes 4 (0 :: u32) @ demo_reg
     @ be_bytes 4 FDT_END_NODE @ be_bytes 4 FDT_END_NODE @ be_bytes 4 (9 :: u32) @ (ascii ''reg'' @ [0])"

definition demo_ram :: "nat \<Rightarrow> u8" where
  "demo_ram a = demo_blob ! (a - 0x1000)"

lemma laid_own: "laid (\<lambda>a. bs ! (a - b)) b bs"
  by (auto simp: laid_def mem_bytes_def intro!: nth_equalityI)

theorem fdt_finds_memory_witness:
  "map_option mmap_iter (fdt_parse_memory_map demo_ram 0x1000)
     = Some [\<lparr>mr_base = 0x80000000, mr_size = 0x8000000, mr_kind = Usable\<rparr>]"
proof -
  have l: "laid demo_ram 0x1000 demo_blob" unfolding demo_ram_def by (rule laid_own)
  have len: "length (ascii ''memory@80000000'') = 15" "length (ascii ''reg'') = 3" "length demo_reg = 16"
    by (simp_all add: ascii_def demo_reg_def)
  have nul: "0 \<notin> set (ascii ''memory@80000000'')" "0 \<notin> set (ascii ''reg'')" by (simp_all add: ascii_def)
  have r: "be32_at demo_ram 0x1030 = 16" "be32_at demo_ram 0x1034 = 0" "be32_at demo_ram 0x1050 = 9"
      "be32_at demo_ram 0x1008 = 16" "be32_at demo_ram 0x100C = 84"
    using l by (simp_all add: demo_blob_def len laid_Cons)
  have toks: "tokens_at demo_ram 0x1054 0x1010 (flatten demo_tree)"
    using l by (simp add: r demo_blob_def demo_tree_def len str_at_def nul laid_Cons FDT_NOP_def FDT_BEGIN_NODE_def FDT_END_NODE_def FDT_PROP_def)
  have hdr: "be32_at demo_ram 0x1000 = FDT_MAGIC" "unat (be32_at demo_ram 0x1008) = 16" "unat (be32_at demo_ram 0x100C) = 84"
    using l by (simp_all add: r demo_blob_def)
  have "dt_memory demo_tree = [\<lparr>mr_base = 0x80000000, mr_size = 0x8000000, mr_kind = Usable\<rparr>]"
    by (simp add: dt_memory_def demo_tree_def node_regions_def is_memory_def reg_entries_def len cells_def)
       (simp add: ascii_def demo_reg_def cells_def)
  then have "mmap_iter (mmap_add_all (dt_memory demo_tree) mmap_empty) = [\<lparr>mr_base = 0x80000000, mr_size = 0x8000000, mr_kind = Usable\<rparr>]"
      and "mm_count (mmap_add_all (dt_memory demo_tree) mmap_empty) = 1"
    by (simp_all add: mmap_iter_add mmap_empty_wf mm_count_add) (simp_all add: mmap_iter_def mmap_empty_def MAX_REGIONS_def)
  moreover have "list_all sane_cells (dn_props demo_tree)" by (simp add: demo_tree_def)
  ultimately show ?thesis
    using fdt_finds_memory[of "0x1000" demo_ram demo_tree] hdr toks by simp
qed

text \<open>What the frame allocator manages lies in one region that the map reports usable.\<close>

lemma free_mem_in_region:
  assumes r: "largest_usable mm (pmm_min_base t) = Some r" and a: "a \<in> free_mem (init_from_mmap t kend mm pmm_bss)"
  shows "\<exists>u \<in> set (mmap_iter mm). mr_kind u = Usable \<and> mr_base u \<le> a \<and> a < mr_base u + mr_size u"
proof -
  note E = init_from_mmap_effect[OF r, of kend]
  from a obtain f where f: "f \<in> free_set (init_from_mmap t kend mm pmm_bss)" "mr_base r + f * 4096 \<le> a" "a < mr_base r + f * 4096 + 4096"
    by (auto simp: free_mem_def E(2))
  then have "Suc f \<le> mr_size r div 4096" using E(4) by simp
  then have "Suc f * 4096 \<le> mr_size r div 4096 * 4096" by (rule mult_le_mono1)
  also have "\<dots> \<le> mr_size r" by simp
  finally have "a < mr_base r + mr_size r" using f(3) by simp
  moreover obtain u where "u \<in> set (mmap_iter mm)" "mr_kind u = Usable" "mr_base u \<le> mr_base r" "mr_base r + mr_size r = region_end u"
    using largest_usable_best_of[of "pmm_min_base t" mm] r by (auto simp: best_of_def)
  ultimately show ?thesis using f(2) by (intro bexI[of _ u]) (auto simp: region_end_def)
qed

text \<open>C11: With a Multiboot table of well-formed entries in memory, the parsed map holds the first 32 non-empty
  entries in order, and after \<^verbatim>\<open>memory::init\<close> on that map every free byte lies above the kernel image
  and inside an entry that the boot loader reported usable, provided one reaches above 1 MiB.\<close>

theorem multiboot_memory_usable:
  assumes "read_u32 ram (unat info) AND FLAG_MMAP \<noteq> 0" "list_all (\<lambda>e. length (mb_pad e) < 2 ^ 31) es"
    "laid ram (unat (read_u32 ram (unat info + 48))) (concat (map mb_encode es))"
    "unat (read_u32 ram (unat info + 44)) = length (concat (map mb_encode es))"
    "m = mb_parse_memory_map ram MB_MAGIC info"
  shows "mmap_iter m = take MAX_REGIONS (filter (\<lambda>r. 0 < mr_size r) (map mb_region es))
    \<and> (largest_usable m (pmm_min_base X86_64) \<noteq> None \<longrightarrow> a \<in> free_bytes (replicate 9 []) (mem_init X86_64 kend m (mem_boot st)) \<longrightarrow>
        kend \<le> a \<and> (\<exists>e \<in> set es. mb_type e = 1 \<and> unat (mb_base e) \<le> a \<and> a < unat (mb_base e) + unat (mb_len e)))"
proof -
  have "m = mmap_add_all (map mb_region es) mmap_empty"
    using assms mb_entries_laid[OF assms(3) _ assms(2), of "unat (read_u32 ram (unat info + 48)) + unat (read_u32 ram (unat info + 44))"]
    by (simp add: mb_parse_memory_map_def parse_mmap_entries_def Let_def)
  then have it: "mmap_iter m = take MAX_REGIONS (filter (\<lambda>r. 0 < mr_size r) (map mb_region es))"
    using mmap_iter_add_all[OF mmap_empty_wf] by simp
  moreover have "kend \<le> a \<and> (\<exists>e \<in> set es. mb_type e = 1 \<and> unat (mb_base e) \<le> a \<and> a < unat (mb_base e) + unat (mb_len e))"
    if r: "largest_usable m (pmm_min_base X86_64) = Some r"
      and a: "a \<in> free_bytes (replicate 9 []) (mem_init X86_64 kend m (mem_boot st))" for r
  proof -
    have f: "a \<in> free_mem (init_from_mmap X86_64 kend m pmm_bss)" using a by (auto simp: free_bytes_def mem_init_parts)
    from free_mem_in_region[OF r f] obtain u where u: "u \<in> set (mmap_iter m)" "mr_kind u = Usable" "mr_base u \<le> a" "a < mr_base u + mr_size u"
      by blast
    have "u \<in> set (map mb_region es)" using u(1) in_set_takeD[of u MAX_REGIONS] unfolding it by (metis filter_is_subset subsetD)
    then obtain e where "e \<in> set es" "u = mb_region e" by auto
    with u free_mem_above[OF r f] show ?thesis by (auto simp: mb_region_def split: if_splits intro!: bexI[of _ e])
  qed
  ultimately show ?thesis by blast
qed

text \<open>An information block at 0x500 that announces one usable region of 127 MiB in a table at 0x600.\<close>

definition demo_entry :: mb_entry where
  "demo_entry = \<lparr>mb_base = 0x100000, mb_len = 0x7F00000, mb_type = 1, mb_pad = []\<rparr>"

definition demo_mbi :: "nat \<Rightarrow> u8" where
  "demo_mbi a = (if a < 0x600 then (le_bytes 4 (64 :: u32) @ replicate 40 0 @ le_bytes 4 (24 :: u32) @ le_bytes 4 (0x600 :: u32)) ! (a - 0x500)
     else mb_encode demo_entry ! (a - 0x600))"

lemma laid_cong: "(\<And>i. i < length bs \<Longrightarrow> ram (a + i) = bs ! i) \<Longrightarrow> laid ram a bs"
  by (auto simp: laid_def mem_bytes_def intro!: nth_equalityI)

theorem multiboot_memory_usable_witness:
  "mmap_iter (mb_parse_memory_map demo_mbi MB_MAGIC 0x500) = [mb_region demo_entry]
   \<and> 0x80000 \<notin> free_bytes (replicate 9 []) (mem_init X86_64 0x300000 (mb_parse_memory_map demo_mbi MB_MAGIC 0x500) (mem_boot (\<lambda>_. 0)))"
proof -
  let ?m = "mb_parse_memory_map demo_mbi MB_MAGIC 0x500"
  have "laid demo_mbi 0x500 (le_bytes 4 (64 :: u32) @ replicate 40 0 @ le_bytes 4 (24 :: u32) @ le_bytes 4 (0x600 :: u32))"
    by (rule laid_cong) (simp add: demo_mbi_def)
  then have h: "read_u32 demo_mbi 0x500 = 64" "read_u32 demo_mbi 0x52C = 24" "read_u32 demo_mbi 0x530 = 0x600" by simp_all
  have len: "length (mb_encode demo_entry) = 24" by (simp add: mb_encode_def demo_entry_def)
  then have "laid demo_mbi 0x600 (mb_encode demo_entry)" by (intro laid_cong) (simp add: demo_mbi_def)
  then have P: "read_u32 demo_mbi (unat (0x500 :: u32)) AND FLAG_MMAP \<noteq> 0" "list_all (\<lambda>e. length (mb_pad e) < 2 ^ 31) [demo_entry]"
      "laid demo_mbi (unat (read_u32 demo_mbi (unat (0x500 :: u32) + 48))) (concat (map mb_encode [demo_entry]))"
      "unat (read_u32 demo_mbi (unat (0x500 :: u32) + 44)) = length (concat (map mb_encode [demo_entry]))"
    by (simp_all add: h FLAG_MMAP_def len) (simp add: demo_entry_def)
  note key = multiboot_memory_usable[OF P refl, of "0x80000" "0x300000" "\<lambda>_. 0"]
  have reg: "mb_region demo_entry = \<lparr>mr_base = 0x100000, mr_size = 0x7F00000, mr_kind = Usable\<rparr>"
    by (simp add: mb_region_def demo_entry_def)
  have it: "mmap_iter ?m = [mb_region demo_entry]" using conjunct1[OF key] by (simp add: reg MAX_REGIONS_def)
  have "largest_usable ?m (pmm_min_base X86_64) \<noteq> None"
    by (simp add: it reg largest_usable_def largest_step_def region_end_def usize_max_def pmm_min_base_def)
  from conjunct2[OF key, rule_format, OF this] it show ?thesis by auto
qed

end
