(* ===== verification/ShellLine.thy ===== *)
theory ShellLine
  imports Prelude
begin

text \<open>
  The parts of \<^verbatim>\<open>kernel/src/shell/\<close> that do not touch the kernel: the user table
  (\<^verbatim>\<open>users.rs\<close>), the command history, the line editor, and the parsing and printing helpers.  The
  editor is a state machine over decoded keys; \<open>read_line\<close> runs it on a list of keys and has no result
  while the line is not finished.  The history is shown to be the list of the most recent commands,
  the editor to compute the typed line, and the number printers and parsers to be inverse.
\<close>

unbundle bit_operations_syntax


section \<open>Users\<close>

definition MAX_USERS :: nat where "MAX_USERS = 8"

record user =
  u_uid :: u16
  u_gid :: u16
  u_used :: bool
  u_name :: bytes
  u_name_len :: nat

record user_list =
  ut_users :: "user list"
  ut_count :: nat

definition user_empty :: user where
  "user_empty = \<lparr>u_uid = 0, u_gid = 0, u_used = False, u_name = replicate 32 0, u_name_len = 0\<rparr>"

definition user_name_str :: "user \<Rightarrow> bytes" where
  "user_name_str u = (let s = take (u_name_len u) (u_name u) in if utf8_valid s then s else ascii ''?'')"

definition users_bss :: user_list where
  "users_bss = \<lparr>ut_users = replicate MAX_USERS user_empty, ut_count = 0\<rparr>"

definition users_add :: "u16 \<Rightarrow> u16 \<Rightarrow> bytes \<Rightarrow> user_list \<Rightarrow> user_list" where
  "users_add uid gid name t =
     (if ut_count t \<ge> MAX_USERS then t
      else let n = min (length name) 32 in
        t\<lparr>ut_users := upd_nth (ut_count t)
            (\<lambda>u. u\<lparr>u_uid := uid, u_gid := gid, u_used := True,
                   u_name := copy_into (u_name u) 0 (take n name), u_name_len := n\<rparr>) (ut_users t),
          ut_count := ut_count t + 1\<rparr>)"

definition users_init :: "user_list \<Rightarrow> user_list" where
  "users_init t = users_add 1000 1000 (ascii ''ferrugem'') (users_add 0 0 (ascii ''root'') t)"

definition lookup_by_name :: "bytes \<Rightarrow> user_list \<Rightarrow> user option" where
  "lookup_by_name name t =
     map_option ((!) (ut_users t))
       (scan (\<lambda>i. u_used (ut_users t ! i) \<and> user_name_str (ut_users t ! i) = name) 0 (ut_count t))"

definition lookup_by_uid :: "u16 \<Rightarrow> user_list \<Rightarrow> user option" where
  "lookup_by_uid uid t =
     map_option ((!) (ut_users t))
       (scan (\<lambda>i. u_used (ut_users t ! i) \<and> u_uid (ut_users t ! i) = uid) 0 (ut_count t))"

definition users_list :: "user_list \<Rightarrow> user list" where
  "users_list t = take (ut_count t) (ut_users t)"

section \<open>History\<close>

definition MAX_CMD :: nat where "MAX_CMD = 256"
definition HIST_DEPTH :: nat where "HIST_DEPTH = 16"

record history =
  hi_bufs :: "bytes list"
  hi_lens :: "nat list"
  hi_head :: nat
  hi_count :: nat

definition hist_new :: history where
  "hist_new = \<lparr>hi_bufs = replicate HIST_DEPTH (replicate MAX_CMD 0), hi_lens = replicate HIST_DEPTH 0,
               hi_head = 0, hi_count = 0\<rparr>"

definition hist_push :: "bytes \<Rightarrow> history \<Rightarrow> history" where
  "hist_push data h =
     (if data = [] then h
      else let len = min (length data) MAX_CMD in
        h\<lparr>hi_bufs := upd_nth (hi_head h) (\<lambda>b. copy_into b 0 (take len data)) (hi_bufs h),
          hi_lens := (hi_lens h)[hi_head h := len],
          hi_head := (hi_head h + 1) mod HIST_DEPTH,
          hi_count := if hi_count h < HIST_DEPTH then hi_count h + 1 else hi_count h\<rparr>)"

definition hist_get :: "nat \<Rightarrow> history \<Rightarrow> (bytes \<times> nat) option" where
  "hist_get offset h =
     (if offset \<ge> hi_count h then None
      else let idx = (hi_head h + HIST_DEPTH - 1 - offset) mod HIST_DEPTH in Some (hi_bufs h ! idx, hi_lens h ! idx))"

section \<open>Line buffers\<close>

record line_buffer =
  lb_data :: bytes
  lb_len :: nat

definition lb_new :: line_buffer where
  "lb_new = \<lparr>lb_data = replicate MAX_CMD 0, lb_len = 0\<rparr>"

definition lb_push :: "u8 \<Rightarrow> line_buffer \<Rightarrow> line_buffer \<times> bool" where
  "lb_push b l =
     (if lb_len l < MAX_CMD - 1 then (l\<lparr>lb_data := (lb_data l)[lb_len l := b], lb_len := lb_len l + 1\<rparr>, True)
      else (l, False))"

definition lb_backspace :: "line_buffer \<Rightarrow> line_buffer \<times> bool" where
  "lb_backspace l = (if lb_len l > 0 then (l\<lparr>lb_len := lb_len l - 1\<rparr>, True) else (l, False))"

definition lb_as_bytes :: "line_buffer \<Rightarrow> bytes" where
  "lb_as_bytes l = take (lb_len l) (lb_data l)"

definition lb_as_str :: "line_buffer \<Rightarrow> bytes" where
  "lb_as_str l = (let s = take (lb_len l) (lb_data l) in if utf8_valid s then s else [])"

definition lb_is_empty :: "line_buffer \<Rightarrow> bool" where
  "lb_is_empty l \<longleftrightarrow> lb_len l = 0"

definition lb_load :: "bytes \<Rightarrow> nat \<Rightarrow> line_buffer \<Rightarrow> line_buffer" where
  "lb_load data len l =
     (let n = min len (MAX_CMD - 1) in l\<lparr>lb_data := copy_into (lb_data l) 0 (take n data), lb_len := n\<rparr>)"

definition lb_clone_copy :: "line_buffer \<Rightarrow> line_buffer" where
  "lb_clone_copy l =
     lb_new\<lparr>lb_data := copy_into (lb_data lb_new) 0 (take (lb_len l) (lb_data l)), lb_len := lb_len l\<rparr>"

section \<open>Keys\<close>

datatype key = KChar u8 | KEnter | KBackspace | KUp | KDown | KLeft | KRight | KEsc | KInterrupt

text \<open>\<^verbatim>\<open>read_key\<close> on the byte it read and on what the two timed reads after an escape returned.\<close>

definition decode_key :: "u8 \<Rightarrow> u8 option \<Rightarrow> u8 option \<Rightarrow> key" where
  "decode_key c t1 t2 =
     (if c = 0x0A \<or> c = 0x0D then KEnter
      else if c = 0x08 \<or> c = 0x7F then KBackspace
      else if c = 0x03 then KInterrupt
      else if c = 0x1B then
        (if t1 \<noteq> Some 0x5B then KEsc
         else if t2 = Some 0x41 then KUp
         else if t2 = Some 0x42 then KDown
         else if t2 = Some 0x43 then KRight
         else if t2 = Some 0x44 then KLeft
         else KEsc)
      else KChar c)"

section \<open>The line editor\<close>

record editor =
  ed_buf :: line_buffer
  ed_saved :: line_buffer
  ed_nav :: int

definition ed_new :: editor where
  "ed_new = \<lparr>ed_buf = lb_new, ed_saved = lb_new, ed_nav = - 1\<rparr>"

definition rubout :: bytes where "rubout = [0x08, 0x20, 0x08]"

definition erase_chars :: "nat \<Rightarrow> bytes" where
  "erase_chars n = concat (replicate n rubout)"

text \<open>The body of the loop of \<^verbatim>\<open>read_line\<close> for the keys that do not end it; the second component is what is
  printed.\<close>

definition edit_key :: "history \<Rightarrow> key \<Rightarrow> editor \<Rightarrow> editor \<times> bytes" where
  "edit_key hist key ed =
     (case key of
        KBackspace \<Rightarrow>
          (case lb_backspace (ed_buf ed) of
             (b, ok) \<Rightarrow> (ed\<lparr>ed_buf := b, ed_nav := - 1\<rparr>, if ok then rubout else []))
      | KChar c \<Rightarrow>
          if c \<ge> 32 \<and> c \<le> 126 then
            (case lb_push c (ed_buf ed) of
               (b, ok) \<Rightarrow> (ed\<lparr>ed_buf := b, ed_nav := - 1\<rparr>, if ok then [c] else []))
          else (ed, [])
      | KUp \<Rightarrow>
          let next = (if ed_nav ed < 0 then 0 else ed_nav ed + 1) in
          (case hist_get (nat next) hist of
             Some (data, len) \<Rightarrow>
               let b = lb_load data len (ed_buf ed) in
               (ed\<lparr>ed_saved := if ed_nav ed < 0 then lb_clone_copy (ed_buf ed) else ed_saved ed, ed_buf := b, ed_nav := next\<rparr>,
                erase_chars (lb_len (ed_buf ed)) @ lb_as_str b)
           | None \<Rightarrow> (ed, []))
      | KDown \<Rightarrow>
          if ed_nav ed > 0 then
            let next = ed_nav ed - 1 in
            (case hist_get (nat next) hist of
               Some (data, len) \<Rightarrow>
                 let b = lb_load data len (ed_buf ed) in
                 (ed\<lparr>ed_buf := b, ed_nav := next\<rparr>, erase_chars (lb_len (ed_buf ed)) @ lb_as_str b)
             | None \<Rightarrow> (ed, []))
          else if ed_nav ed = 0 then
            (ed\<lparr>ed_buf := ed_saved ed, ed_saved := lb_new, ed_nav := - 1\<rparr>,
             erase_chars (lb_len (ed_buf ed)) @ lb_as_str (ed_saved ed))
          else (ed, [])
      | _ \<Rightarrow> (ed, []))"

text \<open>The loop: the finished line, what was printed and the keys not consumed; no result while no key has
  ended the line.\<close>

fun edit_loop :: "history \<Rightarrow> key list \<Rightarrow> editor \<Rightarrow> bytes \<Rightarrow> (line_buffer \<times> bytes \<times> key list) option" where
  "edit_loop hist [] ed out = None"
| "edit_loop hist (KEnter # ks) ed out = Some (ed_buf ed, out @ nl, ks)"
| "edit_loop hist (KInterrupt # ks) ed out = Some (lb_new, out @ ascii ''^C'' @ nl, ks)"
| "edit_loop hist (k # ks) ed out = (case edit_key hist k ed of (ed', o') \<Rightarrow> edit_loop hist ks ed' (out @ o'))"

definition read_line :: "history \<Rightarrow> key list \<Rightarrow> (line_buffer \<times> bytes \<times> key list) option" where
  "read_line hist ks = edit_loop hist ks ed_new []"

section \<open>Numbers and modes\<close>

text \<open>The loop that fills the digit buffer from its end.\<close>

fun dec_digits :: "nat \<Rightarrow> bytes \<Rightarrow> bytes" where
  "dec_digits v acc = (if v = 0 then acc else dec_digits (v div 10) ((0x30 + word_of_nat (v mod 10)) # acc))"

declare dec_digits.simps [simp del]

definition fmt_u64 :: "nat \<Rightarrow> bytes" where
  "fmt_u64 n = (if n = 0 then ascii ''0'' else dec_digits n [])"

text \<open>\<^verbatim>\<open>print_u64_padded\<close>: at most \<^verbatim>\<open>width\<close> digits, the low ones, right-aligned.\<close>

fun pad_digits :: "nat \<Rightarrow> nat \<Rightarrow> bytes \<Rightarrow> bytes" where
  "pad_digits 0 v acc = acc"
| "pad_digits (Suc i) v acc =
     (if v > 0 then pad_digits i (v div 10) ((0x30 + word_of_nat (v mod 10)) # acc) else replicate (Suc i) 0x20 @ acc)"

definition fmt_u64_padded :: "nat \<Rightarrow> nat \<Rightarrow> bytes" where
  "fmt_u64_padded n width = (if n = 0 then replicate (width - 1) 0x20 @ ascii ''0'' else pad_digits width n [])"

definition mode_char :: "u16 \<Rightarrow> u16 \<Rightarrow> char \<Rightarrow> u8" where
  "mode_char mode flag c = (if mode AND flag \<noteq> 0 then of_char c else 0x2D)"

definition format_mode :: "bool \<Rightarrow> u16 \<Rightarrow> bytes" where
  "format_mode is_directory mode =
     [if is_directory then 0x64 else 0x2D,
      mode_char mode 0x100 CHR ''r'', mode_char mode 0x80 CHR ''w'', mode_char mode 0x40 CHR ''x'',
      mode_char mode 0x20 CHR ''r'', mode_char mode 0x10 CHR ''w'', mode_char mode 0x8 CHR ''x'',
      mode_char mode 0x4 CHR ''r'', mode_char mode 0x2 CHR ''w'', mode_char mode 0x1 CHR ''x'']"

text \<open>Saturating accumulation at the width of the result.\<close>

fun octal_loop :: "bytes \<Rightarrow> nat \<Rightarrow> nat option" where
  "octal_loop [] val = Some val"
| "octal_loop (b # bs) val =
     (if b < 0x30 \<or> b > 0x37 then None
      else octal_loop bs (min (min (val * 8) (2 ^ 16 - 1) + unat (b - 0x30)) (2 ^ 16 - 1)))"

definition parse_octal :: "bytes \<Rightarrow> u16 option" where
  "parse_octal s = map_option word_of_nat (octal_loop s 0)"

fun decimal_loop :: "bytes \<Rightarrow> nat \<Rightarrow> nat option" where
  "decimal_loop [] val = Some val"
| "decimal_loop (b # bs) val =
     (if b < 0x30 \<or> b > 0x39 then None
      else decimal_loop bs (min (min (val * 10) (2 ^ 64 - 1) + unat (b - 0x30)) (2 ^ 64 - 1)))"

definition parse_decimal :: "bytes \<Rightarrow> nat option" where
  "parse_decimal s = (case decimal_loop s 0 of None \<Rightarrow> None | Some v \<Rightarrow> if s = [] then None else Some v)"

section \<open>Words of a command line\<close>

definition ascii_ws :: "u8 \<Rightarrow> bool" where
  "ascii_ws c \<longleftrightarrow> c \<in> {0x20, 0x09, 0x0A, 0x0C, 0x0D}"

definition skip_ws :: "bytes \<Rightarrow> bytes" where
  "skip_ws s = dropWhile ascii_ws s"

definition skip_word :: "bytes \<Rightarrow> bytes" where
  "skip_word s = dropWhile (\<lambda>c. \<not> ascii_ws c) s"

text \<open>\<^verbatim>\<open>split_ascii_whitespace\<close>, all the words.\<close>

function split_words :: "bytes \<Rightarrow> bytes list" where
  "split_words s =
     (let t = skip_ws s in if t = [] then [] else takeWhile (\<lambda>c. \<not> ascii_ws c) t # split_words (skip_word t))"
  by pat_completeness auto
termination
proof (relation "measure length")
  fix s t assume t: "t = skip_ws s" "t \<noteq> []"
  then have "\<not> ascii_ws (hd t)" by (simp add: skip_ws_def hd_dropWhile)
  then have "length (skip_word t) < length t"
    using t(2) by (cases t) (auto simp: skip_word_def le_imp_less_Suc length_dropWhile_le)
  also have "length t \<le> length s" by (simp add: t skip_ws_def length_dropWhile_le)
  finally show "(skip_word t, s) \<in> measure length" by simp
qed simp

declare split_words.simps [simp del]

definition skip_words :: "bytes \<Rightarrow> nat \<Rightarrow> bytes" where
  "skip_words s n = skip_ws (((\<lambda>s. skip_word (skip_ws s)) ^^ n) s)"

section \<open>Redirections\<close>

definition find_sub :: "bytes \<Rightarrow> bytes \<Rightarrow> nat option" where
  "find_sub pat s = scan (\<lambda>i. take (length pat) (drop i s) = pat) 0 (length s + 1 - length pat)"

text \<open>\<^verbatim>\<open>str::trim\<close> on ASCII text.\<close>

definition white :: "u8 \<Rightarrow> bool" where
  "white c \<longleftrightarrow> c = 0x20 \<or> 0x09 \<le> c \<and> c \<le> 0x0D"

definition trim :: "bytes \<Rightarrow> bytes" where
  "trim s = rev (dropWhile white (rev (dropWhile white s)))"

definition parse_redirect :: "bytes \<Rightarrow> (bytes \<times> bytes \<times> bool) option" where
  "parse_redirect rest =
     (case find_sub (ascii '' >> '') rest of
        Some pos \<Rightarrow> Some (take pos rest, trim (drop (pos + 4) rest), True)
      | None \<Rightarrow>
          if take 3 rest = ascii ''>> '' then Some ([], trim (drop 3 rest), True)
          else case find_sub (ascii '' > '') rest of
            Some pos \<Rightarrow> Some (take pos rest, trim (drop (pos + 3) rest), False)
          | None \<Rightarrow> if take 2 rest = ascii ''> '' then Some ([], trim (drop 2 rest), False) else None)"

text \<open>\<^verbatim>\<open>trim_start_matches("echo")\<close> strips the prefix as often as it occurs.\<close>

function strip_all :: "bytes \<Rightarrow> bytes \<Rightarrow> bytes" where
  "strip_all pat s =
     (if pat \<noteq> [] \<and> take (length pat) s = pat then strip_all pat (drop (length pat) s) else s)"
  by pat_completeness auto
termination
proof (relation "measure (\<lambda>(pat, s). length s)")
  fix pat s :: bytes
  assume "pat \<noteq> [] \<and> take (length pat) s = pat"
  then have "length pat \<le> length s" "0 < length pat" by (auto simp: min_def split: if_splits dest: arg_cong[where f = length])
  then have "length s - length pat < length s" by linarith
  then show "((pat, drop (length pat) s), (pat, s)) \<in> measure (\<lambda>(pat, s). length s)" by simp
qed simp

declare strip_all.simps [simp del]

section \<open>The history is the list of the last commands\<close>

definition hist_wf :: "history \<Rightarrow> bool" where
  "hist_wf h \<longleftrightarrow> length (hi_bufs h) = HIST_DEPTH \<and> length (hi_lens h) = HIST_DEPTH \<and> hi_head h < HIST_DEPTH
     \<and> hi_count h \<le> HIST_DEPTH \<and> list_all (\<lambda>b. length b = MAX_CMD) (hi_bufs h) \<and> list_all (\<lambda>n. n \<le> MAX_CMD) (hi_lens h)"

definition hist_entry :: "history \<Rightarrow> nat \<Rightarrow> bytes" where
  "hist_entry h i = (let idx = (hi_head h + HIST_DEPTH - 1 - i) mod HIST_DEPTH in take (hi_lens h ! idx) (hi_bufs h ! idx))"

definition hist_list :: "history \<Rightarrow> bytes list" where
  "hist_list h = map (hist_entry h) [0..<hi_count h]"

lemma hist_new_wf [wf_intros]: "hist_wf hist_new"
  by (simp add: hist_wf_def hist_new_def HIST_DEPTH_def list_all_length)

lemma hist_push_wf [wf_intros]: "hist_wf h \<Longrightarrow> hist_wf (hist_push data h)"
  by (auto simp: hist_wf_def hist_push_def Let_def list_all_length nth_list_update HIST_DEPTH_def MAX_CMD_def)

lemma ring_index: "i < HIST_DEPTH \<Longrightarrow> h < HIST_DEPTH \<Longrightarrow>
    (h + HIST_DEPTH - 1 - i) mod HIST_DEPTH = (if i < h then h - 1 - i else h + HIST_DEPTH - 1 - i)"
  by (auto simp: HIST_DEPTH_def mod_if)

lemma hist_entry_push:
  assumes wf: "hist_wf h" and d: "data \<noteq> []" and i: "i < HIST_DEPTH"
  shows "hist_entry (hist_push data h) i = (case i of 0 \<Rightarrow> take MAX_CMD data | Suc j \<Rightarrow> hist_entry h j)"
proof -
  let ?hd = "hi_head h"
  have hd: "?hd < HIST_DEPTH" using wf by (simp add: hist_wf_def)
  have idx: "((?hd + 1) mod HIST_DEPTH + HIST_DEPTH - 1 - i) mod HIST_DEPTH =
      (case i of 0 \<Rightarrow> ?hd | Suc j \<Rightarrow> (?hd + HIST_DEPTH - 1 - j) mod HIST_DEPTH)"
    using i hd by (auto simp: ring_index split: nat.split) (auto simp: HIST_DEPTH_def mod_if)
  show ?thesis
  proof (cases i)
    case 0
    have "length (hi_bufs h ! ?hd) = MAX_CMD" using wf hd by (simp add: hist_wf_def list_all_length)
    then show ?thesis using 0 idx d hd wf by (auto simp: hist_entry_def hist_push_def Let_def hist_wf_def min_def)
  next
    case (Suc j)
    have "(?hd + HIST_DEPTH - 1 - j) mod HIST_DEPTH \<noteq> ?hd"
      using ring_index[of j ?hd] i hd Suc by (auto split: if_splits)
    moreover have "(?hd + HIST_DEPTH - 1 - j) mod HIST_DEPTH < HIST_DEPTH" by (simp add: HIST_DEPTH_def)
    ultimately show ?thesis using Suc idx d hd wf by (simp add: hist_entry_def hist_push_def Let_def hist_wf_def)
  qed
qed

lemma hist_list_push:
  assumes "hist_wf h"
  shows "hist_list (hist_push data h) = (if data = [] then hist_list h else take HIST_DEPTH (take MAX_CMD data # hist_list h))"
proof (cases "data = []")
  case False
  have c: "hi_count h \<le> HIST_DEPTH" using assms by (simp add: hist_wf_def)
  have cnt: "hi_count (hist_push data h) = min (Suc (hi_count h)) HIST_DEPTH"
    using False c by (auto simp: hist_push_def Let_def)
  show ?thesis
  proof (rule nth_equalityI)
    show "length (hist_list (hist_push data h)) = length (if data = [] then hist_list h else take HIST_DEPTH (take MAX_CMD data # hist_list h))"
      using False cnt by (simp add: hist_list_def)
    fix i assume "i < length (hist_list (hist_push data h))"
    then have i: "i < Suc (hi_count h)" "i < HIST_DEPTH" using cnt by (simp_all add: hist_list_def)
    then show "hist_list (hist_push data h) ! i = (if data = [] then hist_list h else take HIST_DEPTH (take MAX_CMD data # hist_list h)) ! i"
      using False hist_entry_push[OF assms False i(2)] cnt by (cases i) (simp_all add: hist_list_def)
  qed
qed (simp add: hist_push_def)

lemma hist_get_list:
  assumes "hist_wf h"
  shows "hist_get i h = None \<longleftrightarrow> length (hist_list h) \<le> i"
    "hist_get i h = Some (b, n) \<Longrightarrow> take n b = hist_list h ! i \<and> n \<le> MAX_CMD \<and> length b = MAX_CMD \<and> i < length (hist_list h)"
proof -
  show "hist_get i h = None \<longleftrightarrow> length (hist_list h) \<le> i" by (simp add: hist_get_def hist_list_def Let_def)
  have "(hi_head h + HIST_DEPTH - 1 - i) mod HIST_DEPTH < HIST_DEPTH" by (simp add: HIST_DEPTH_def)
  then show "hist_get i h = Some (b, n) \<Longrightarrow> take n b = hist_list h ! i \<and> n \<le> MAX_CMD \<and> length b = MAX_CMD \<and> i < length (hist_list h)"
    using assms by (auto simp: hist_get_def hist_list_def hist_entry_def hist_wf_def Let_def list_all_length split: if_splits)
qed

lemma hist_list_history:
  "hist_wf h \<Longrightarrow> hist_list (fold hist_push cmds h) =
     take HIST_DEPTH (rev (map (take MAX_CMD) (filter (\<lambda>c. c \<noteq> []) cmds)) @ hist_list h)"
proof (induction cmds arbitrary: h)
  case Nil
  then show ?case by (simp add: hist_list_def hist_wf_def)
next
  case (Cons c cmds)
  then show ?case by (simp add: hist_list_push hist_push_wf take_Cons' Suc_diff_le not_less)
qed

section \<open>The editor computes the edited line\<close>

text \<open>The abstract editor: the text, the text saved when the history was entered, and the position in the
  history.\<close>

record aeditor =
  a_text :: bytes
  a_saved :: bytes
  a_nav :: "nat option"

fun spec_key :: "bytes list \<Rightarrow> key \<Rightarrow> aeditor \<Rightarrow> aeditor" where
  "spec_key H (KChar c) a =
     (if 32 \<le> c \<and> c \<le> 126 then a\<lparr>a_text := if length (a_text a) < 255 then a_text a @ [c] else a_text a, a_nav := None\<rparr> else a)"
| "spec_key H KBackspace a = a\<lparr>a_text := butlast (a_text a), a_nav := None\<rparr>"
| "spec_key H KUp a =
     (let next = (case a_nav a of None \<Rightarrow> 0 | Some i \<Rightarrow> Suc i) in
      if next < length H
      then a\<lparr>a_saved := if a_nav a = None then a_text a else a_saved a, a_text := take 255 (H ! next), a_nav := Some next\<rparr>
      else a)"
| "spec_key H KDown a =
     (case a_nav a of
        None \<Rightarrow> a
      | Some 0 \<Rightarrow> a\<lparr>a_text := a_saved a, a_saved := [], a_nav := None\<rparr>
      | Some (Suc i) \<Rightarrow> if i < length H then a\<lparr>a_text := take 255 (H ! i), a_nav := Some i\<rparr> else a)"
| "spec_key H _ a = a"

definition lb_wf :: "line_buffer \<Rightarrow> bool" where
  "lb_wf l \<longleftrightarrow> length (lb_data l) = MAX_CMD \<and> lb_len l < MAX_CMD"

definition ed_wf :: "editor \<Rightarrow> bool" where
  "ed_wf ed \<longleftrightarrow> lb_wf (ed_buf ed) \<and> lb_wf (ed_saved ed) \<and> - 1 \<le> ed_nav ed"

definition ed_abs :: "editor \<Rightarrow> aeditor" where
  "ed_abs ed = \<lparr>a_text = lb_as_bytes (ed_buf ed), a_saved = lb_as_bytes (ed_saved ed),
                a_nav = if ed_nav ed < 0 then None else Some (nat (ed_nav ed))\<rparr>"

lemma lb_push_effect:
  "lb_wf l \<Longrightarrow> lb_wf (fst (lb_push c l)) \<and>
     lb_as_bytes (fst (lb_push c l)) = (if length (lb_as_bytes l) < 255 then lb_as_bytes l @ [c] else lb_as_bytes l)"
  by (auto simp: lb_wf_def lb_push_def lb_as_bytes_def MAX_CMD_def take_Suc_conv_app_nth)

lemma lb_backspace_effect:
  "lb_wf l \<Longrightarrow> lb_wf (fst (lb_backspace l)) \<and> lb_as_bytes (fst (lb_backspace l)) = butlast (lb_as_bytes l)"
  by (auto simp: lb_wf_def lb_backspace_def lb_as_bytes_def butlast_take)

lemma lb_load_effect:
  assumes "lb_wf l" "n \<le> MAX_CMD" "length b = MAX_CMD"
  shows "lb_wf (lb_load b n l)" "lb_as_bytes (lb_load b n l) = take 255 (take n b)"
  using assms by (auto simp: lb_wf_def lb_load_def lb_as_bytes_def Let_def MAX_CMD_def min_def)

lemma lb_clone_effect: "lb_wf l \<Longrightarrow> lb_wf (lb_clone_copy l) \<and> lb_as_bytes (lb_clone_copy l) = lb_as_bytes l"
  by (auto simp: lb_wf_def lb_clone_copy_def lb_as_bytes_def lb_new_def MAX_CMD_def)

lemma lb_new_effect [simp]: "lb_wf lb_new" "lb_as_bytes lb_new = []"
  by (auto simp: lb_wf_def lb_new_def lb_as_bytes_def MAX_CMD_def)

lemma edit_key_history:
  assumes "hist_wf h" "lb_wf l" "hist_get i h = Some (b, n)"
  shows "lb_wf (lb_load b n l)" "lb_as_bytes (lb_load b n l) = take 255 (hist_list h ! i)" "i < length (hist_list h)"
proof -
  from hist_get_list(2)[OF assms(1,3)] have b: "take n b = hist_list h ! i" "n \<le> MAX_CMD" "length b = MAX_CMD" "i < length (hist_list h)"
    by blast+
  show "lb_wf (lb_load b n l)" by (rule lb_load_effect(1)[OF assms(2) b(2,3)])
  show "lb_as_bytes (lb_load b n l) = take 255 (hist_list h ! i)" unfolding b(1)[symmetric] by (rule lb_load_effect(2)[OF assms(2) b(2,3)])
  show "i < length (hist_list h)" by (rule b)
qed

lemma edit_key_refines:
  assumes h: "hist_wf h" and ed: "ed_wf ed" and k: "k \<noteq> KEnter" "k \<noteq> KInterrupt"
  shows "ed_wf (fst (edit_key h k ed)) \<and> ed_abs (fst (edit_key h k ed)) = spec_key (hist_list h) k (ed_abs ed)"
proof (cases k)
  case (KChar c)
  then show ?thesis using ed lb_push_effect[of "ed_buf ed" c]
    by (auto simp: edit_key_def ed_wf_def ed_abs_def split: prod.split)
next
  case KBackspace
  then show ?thesis using ed lb_backspace_effect[of "ed_buf ed"]
    by (auto simp: edit_key_def ed_wf_def ed_abs_def split: prod.split)
next
  case KUp
  let ?next = "if ed_nav ed < 0 then 0 else ed_nav ed + 1"
  have nx: "nat ?next = (case a_nav (ed_abs ed) of None \<Rightarrow> 0 | Some i \<Rightarrow> Suc i)"
    by (simp add: ed_abs_def nat_add_distrib)
  show ?thesis
  proof (cases "hist_get (nat ?next) h")
    case None
    then have "length (hist_list h) \<le> nat ?next" using hist_get_list(1)[OF h] by blast
    then show ?thesis using None KUp ed nx by (simp add: edit_key_def Let_def)
  next
    case (Some p)
    obtain b n where p: "p = (b, n)" by (cases p)
    note L = edit_key_history[OF h _ Some[unfolded p], of "ed_buf ed"]
    show ?thesis using Some p KUp ed nx L lb_clone_effect[of "ed_buf ed"]
      by (simp add: edit_key_def Let_def ed_wf_def) (simp add: ed_abs_def nat_add_distrib)
  qed
next
  case KDown
  show ?thesis
  proof (cases "ed_nav ed > 0")
    case True
    obtain i where i: "nat (ed_nav ed) = Suc i" "nat (ed_nav ed - 1) = i" using True by (metis Suc_nat_eq_nat_zadd1 diff_add_cancel int_one_le_iff_zero_less le_diff_eq add_0 add.commute)
    show ?thesis
    proof (cases "hist_get i h")
      case None
      then have "length (hist_list h) \<le> i" using hist_get_list(1)[OF h] by blast
      then show ?thesis using None KDown ed True i by (simp add: edit_key_def Let_def ed_abs_def)
    next
      case (Some p)
      obtain b n where p: "p = (b, n)" by (cases p)
      note L = edit_key_history[OF h _ Some[unfolded p], of "ed_buf ed"]
      show ?thesis using Some p KDown ed True i L by (simp add: edit_key_def Let_def ed_wf_def ed_abs_def)
    qed
  next
    case False
    then show ?thesis using KDown ed by (auto simp: edit_key_def ed_wf_def ed_abs_def)
  qed
qed (use ed k in \<open>simp_all add: edit_key_def\<close>)

lemma edit_loop_refines:
  assumes "hist_wf h" "ed_wf ed" "KEnter \<notin> set ks" "KInterrupt \<notin> set ks"
  shows "\<exists>l out'. edit_loop h (ks @ KEnter # rest) ed out = Some (l, out', rest) \<and> lb_wf l
    \<and> lb_as_bytes l = a_text (fold (spec_key (hist_list h)) ks (ed_abs ed))"
  using assms(2-4)
proof (induction ks arbitrary: ed out)
  case Nil
  then show ?case by (simp add: ed_abs_def ed_wf_def)
next
  case (Cons k ks)
  have k: "k \<noteq> KEnter" "k \<noteq> KInterrupt" using Cons.prems by auto
  obtain ed' o' where e: "edit_key h k ed = (ed', o')" by fastforce
  have step: "edit_loop h ((k # ks) @ KEnter # rest) ed out = edit_loop h (ks @ KEnter # rest) ed' (out @ o')"
    using k e by (cases k) auto
  have "ed_wf ed'" "ed_abs ed' = spec_key (hist_list h) k (ed_abs ed)"
    using edit_key_refines[OF assms(1) Cons.prems(1) k] e by auto
  with Cons.IH[of ed' "out @ o'"] Cons.prems(2,3) show ?case unfolding step by simp
qed

section \<open>Numbers\<close>

lemma digit_word: "d < 10 \<Longrightarrow> unat (0x30 + word_of_nat d :: u8) = 48 + d"
  by (simp add: unat_word_ariths unsigned_of_nat take_bit_eq_mod)

lemma digit_ok: "d < 10 \<Longrightarrow> \<not> (0x30 + word_of_nat d :: u8) < 0x30 \<and> \<not> (0x30 + word_of_nat d :: u8) > 0x39"
  by (simp add: word_less_nat_alt digit_word)

lemma digit_value: "d < 10 \<Longrightarrow> unat ((0x30 + word_of_nat d :: u8) - 0x30) = d"
  by (simp add: unsigned_of_nat take_bit_eq_mod)

text \<open>Reading printed digits continues from the value read so far.\<close>

fun dec_value :: "nat \<Rightarrow> nat \<Rightarrow> nat" where
  "dec_value v w = (if v = 0 then w else dec_value (v div 10) w * 10 + v mod 10)"

declare dec_value.simps [simp del]

lemma dec_value_0: "dec_value v 0 = v"
proof (induction v rule: less_induct)
  case (less v)
  then show ?case by (cases "v = 0") (subst dec_value.simps, simp)+
qed

lemma dec_value_ge: "dec_value (v div 10) w \<le> dec_value v w"
  by (subst (2) dec_value.simps) (simp add: dec_value.simps[of "v div 10"])

lemma decimal_loop_digits:
  "dec_value v w < 2 ^ 64 \<Longrightarrow> w < 2 ^ 64 \<Longrightarrow> decimal_loop (dec_digits v acc) w = decimal_loop acc (dec_value v w)"
proof (induction v arbitrary: acc rule: less_induct)
  case (less v)
  show ?case
  proof (cases "v = 0")
    case False
    let ?d = "v mod 10"
    have d: "?d < 10" by simp
    have "decimal_loop (dec_digits v acc) w = decimal_loop ((0x30 + word_of_nat ?d) # acc) (dec_value (v div 10) w)"
      using False less dec_value_ge[of v w] by (subst dec_digits.simps) simp
    also have "\<dots> = decimal_loop acc (dec_value (v div 10) w * 10 + ?d)"
    proof -
      have "dec_value (v div 10) w * 10 + ?d < 2 ^ 64" using less.prems(1) False dec_value.simps[of v w] by simp
      then show ?thesis using digit_ok[OF d] digit_value[OF d] by (simp add: min_def)
    qed
    also have "\<dots> = decimal_loop acc (dec_value v w)" using False by (subst (2) dec_value.simps) simp
    finally show ?thesis .
  qed (simp add: dec_digits.simps dec_value.simps)
qed

lemma dec_digits_append: "dec_digits v acc = dec_digits v [] @ acc"
proof (induction v arbitrary: acc rule: less_induct)
  case (less v)
  show ?case
  proof (cases "v = 0")
    case False
    then have "v div 10 < v" by simp
    let ?c = "0x30 + word_of_nat (v mod 10) :: u8"
    have "dec_digits v acc = dec_digits (v div 10) (?c # acc)" using False by (subst dec_digits.simps) simp
    also have "\<dots> = dec_digits (v div 10) [?c] @ acc"
      using less.IH[OF \<open>v div 10 < v\<close>, of "?c # acc"] less.IH[OF \<open>v div 10 < v\<close>, of "[?c]"] by simp
    also have "dec_digits (v div 10) [?c] = dec_digits v []" using False by (subst (2) dec_digits.simps) simp
    finally show ?thesis .
  qed (simp add: dec_digits.simps)
qed

lemma length_dec_digits: "v < 10 ^ n \<Longrightarrow> length (dec_digits v []) \<le> n"
proof (induction n arbitrary: v)
  case (Suc n)
  show ?case
  proof (cases "v = 0")
    case False
    have "v div 10 < 10 ^ n" using Suc.prems by (simp add: div_less_iff_less_mult mult.commute)
    with Suc.IH show ?thesis using False by (subst dec_digits.simps) (simp add: dec_digits_append[of _ "[_]"])
  qed (simp add: dec_digits.simps)
qed (simp add: dec_digits.simps)

section \<open>Properties\<close>

text \<open>C27: The line editor returns the edited line: after any keys and Enter, with any commands in the
  history, the line is what the abstract editor computes over the list of the last sixteen commands,
  most recent first (characters appended up to 255, backspace, recall of older and newer commands,
  return to the line in progress), and the remaining keys are left for the next line.\<close>

theorem read_line_edits:
  assumes "KEnter \<notin> set ks" "KInterrupt \<notin> set ks"
    "H = take HIST_DEPTH (rev (map (take MAX_CMD) (filter (\<lambda>c. c \<noteq> []) cmds)))"
  shows "\<exists>l out. read_line (fold hist_push cmds hist_new) (ks @ KEnter # rest) = Some (l, out, rest)
    \<and> lb_as_bytes l = a_text (fold (spec_key H) ks \<lparr>a_text = [], a_saved = [], a_nav = None\<rparr>)
    \<and> length (lb_as_bytes l) \<le> 255"
proof -
  let ?h = "fold hist_push cmds hist_new"
  have "hist_wf (fold hist_push cmds h)" if "hist_wf h" for h using that
    by (induction cmds arbitrary: h) (simp_all add: hist_push_wf)
  then have wf: "hist_wf ?h" by (simp add: hist_new_wf)
  have "hist_list hist_new = []" by (simp add: hist_list_def hist_new_def)
  then have H: "hist_list ?h = H" using hist_list_history[OF hist_new_wf, of cmds] assms(3) by simp
  have ed: "ed_wf ed_new" "ed_abs ed_new = \<lparr>a_text = [], a_saved = [], a_nav = None\<rparr>"
    by (simp_all add: ed_wf_def ed_abs_def ed_new_def)
  from edit_loop_refines[OF wf ed(1) assms(1,2)] obtain l out where
    l: "edit_loop ?h (ks @ KEnter # rest) ed_new [] = Some (l, out, rest)" "lb_wf l"
      "lb_as_bytes l = a_text (fold (spec_key (hist_list ?h)) ks (ed_abs ed_new))" by blast
  from l(2) have "length (lb_as_bytes l) \<le> 255" by (simp add: lb_wf_def lb_as_bytes_def MAX_CMD_def)
  with l show ?thesis unfolding read_line_def H ed(2) by blast
qed

theorem read_line_edits_witness:
  "\<exists>l out. read_line (fold hist_push [ascii ''ls'', ascii ''pwd''] hist_new)
       ([KChar 0x61, KUp, KUp, KBackspace, KChar 0x73, KUp, KDown, KLeft] @ KEnter # [KEsc]) = Some (l, out, [KEsc])
     \<and> lb_as_bytes l = [0x6C, 0x73]"
proof -
  let ?ks = "[KChar 0x61, KUp, KUp, KBackspace, KChar 0x73, KUp, KDown, KLeft]"
  let ?H = "[ascii ''pwd'', ascii ''ls'']"
  have H: "?H = take HIST_DEPTH (rev (map (take MAX_CMD) (filter (\<lambda>c. c \<noteq> []) [ascii ''ls'', ascii ''pwd''])))"
    by (simp add: HIST_DEPTH_def MAX_CMD_def ascii_def)
  have "a_text (fold (spec_key ?H) ?ks \<lparr>a_text = [], a_saved = [], a_nav = None\<rparr>) = [0x6C, 0x73]"
    by (simp add: ascii_def)
  moreover have "KEnter \<notin> set ?ks" "KInterrupt \<notin> set ?ks" by simp_all
  ultimately show ?thesis using read_line_edits[OF _ _ H, of ?ks "[KEsc]"] by metis
qed

text \<open>Printing a 64-bit number and parsing the digits gives the number back; the digits fit the buffer of
  20 bytes that the printer fills from its end.\<close>

theorem decimal_roundtrip:
  assumes "n < 2 ^ 64"
  shows "parse_decimal (fmt_u64 n) = Some n \<and> length (fmt_u64 n) \<le> 20"
proof (cases "n = 0")
  case False
  then have ne: "dec_digits n [] \<noteq> []" by (subst dec_digits.simps) (simp add: dec_digits_append[of _ "[_]"])
  have "decimal_loop (dec_digits n []) 0 = Some n"
    using decimal_loop_digits[of n 0 "[]"] assms by (simp add: dec_value_0)
  moreover have "length (dec_digits n []) \<le> 20" using assms by (intro length_dec_digits) simp
  ultimately show ?thesis using False ne by (simp add: parse_decimal_def fmt_u64_def)
qed (simp add: parse_decimal_def fmt_u64_def ascii_def)

theorem decimal_roundtrip_witness:
  "parse_decimal (fmt_u64 18446744073709551615) = Some 18446744073709551615 \<and> length (fmt_u64 18446744073709551615) \<le> 20"
  using decimal_roundtrip[of 18446744073709551615] by simp

end
