(* ===== verification/Shell.thy ===== *)
theory Shell
  imports ShellLine SyscallInv
begin

text \<open>
  \<^verbatim>\<open>kernel/src/shell/mod.rs\<close>: the commands of the kernel's built-in shell on top of the file system, the
  scheduler and the console.  A command is a function on the kernel state (and on the shell's state,
  where it changes it); what it prints goes to the console with the translation of line ends that the
  console driver makes.  Reading characters blocks on the terminal like the \<^verbatim>\<open>read\<close> system call and is
  modelled by one pass of its loop.  What the build embeds (version, demo program, addresses of the demo
  tasks) and the entropy for a new program are the record \<open>shell_env\<close>.
\<close>

record shell =
  sh_cwd :: nat
  sh_uid :: u16
  sh_gid :: u16

definition shell_new :: shell where
  "shell_new = \<lparr>sh_cwd = 0, sh_uid = 0, sh_gid = 0\<rparr>"

record shell_env =
  se_banner :: bytes
  se_version :: bytes
  se_hello_user :: bytes
  se_task_hello :: u64
  se_task_counter :: u64
  se_seed :: u64

definition print_str :: "bytes \<Rightarrow> kernel \<Rightarrow> kernel" where
  "print_str s k = k\<lparr>console := console k @ serial_print_bytes s\<rparr>"

definition say :: "string \<Rightarrow> kernel \<Rightarrow> kernel" where
  "say s k = print_str (ascii s @ nl) k"

definition name_str :: "inode \<Rightarrow> bytes" where
  "name_str n = (let s = take (i_name_len n) (i_name n) in if utf8_valid s then s else [])"

definition cwd_str :: "shell \<Rightarrow> kernel \<Rightarrow> bytes" where
  "cwd_str s k =
     (case inode_path (k_fs k) (sh_cwd s) (replicate 256 0) of
        (buf, len) \<Rightarrow> if utf8_valid (take len buf) then take len buf else ascii ''/'')"

definition user_label :: "user_list \<Rightarrow> u16 \<Rightarrow> bytes" where
  "user_label ut uid = (case lookup_by_uid uid ut of Some u \<Rightarrow> user_name_str u | None \<Rightarrow> ascii ''?'')"

definition print_prompt :: "user_list \<Rightarrow> shell \<Rightarrow> kernel \<Rightarrow> kernel" where
  "print_prompt ut s k =
     print_str (user_label ut (sh_uid s) @ ascii ''@ferrugem:'' @ cwd_str s k
       @ (if sh_uid s = 0 then ascii ''# '' else ascii ''$ '')) k"

section \<open>Input\<close>

definition read_char_nonblocking :: "kernel \<Rightarrow> kernel \<times> u8 option" where
  "read_char_nonblocking k =
     (case ring_pop (serial_rx k) of
        (rx, Some b) \<Rightarrow> (k\<lparr>serial_rx := rx\<rparr>, Some b)
      | (rx, None) \<Rightarrow>
          (case ring_pop (kbd_rx k) of (kb, sc) \<Rightarrow> (k\<lparr>kbd_rx := kb\<rparr>, Option.bind sc scancode_to_ascii)))"

text \<open>\<^verbatim>\<open>read_char\<close>, one pass; \<^verbatim>\<open>read_char_timeout\<close> when nothing arrives while it spins.\<close>

definition read_char_pass :: "kernel \<Rightarrow> (kernel \<times> u8 pass) option" where
  "read_char_pass k =
     (case read_char_nonblocking k of
        (k1, Some c) \<Rightarrow> Some (k1, Done c)
      | (k1, None) \<Rightarrow> map_option (\<lambda>k. (k, Again)) (block_on_tty k1))"

fun read_char_timeout :: "nat \<Rightarrow> kernel \<Rightarrow> kernel \<times> u8 option" where
  "read_char_timeout 0 k = (k, None)"
| "read_char_timeout (Suc spins) k =
     (case read_char_nonblocking k of
        (k1, Some c) \<Rightarrow> (k1, Some c)
      | (k1, None) \<Rightarrow> read_char_timeout spins k1)"

definition read_key_pass :: "kernel \<Rightarrow> (kernel \<times> key pass) option" where
  "read_key_pass k =
     (case read_char_pass k of
        None \<Rightarrow> None
      | Some (k1, Again) \<Rightarrow> Some (k1, Again)
      | Some (k1, Done c) \<Rightarrow>
          if c \<noteq> 0x1B then Some (k1, Done (decode_key c None None))
          else case read_char_timeout 200000 k1 of
            (k2, t1) \<Rightarrow>
              if t1 \<noteq> Some 0x5B then Some (k2, Done (decode_key c t1 None))
              else case read_char_timeout 200000 k2 of (k3, t2) \<Rightarrow> Some (k3, Done (decode_key c t1 t2)))"

section \<open>Navigation\<close>

definition cmd_pwd :: "shell \<Rightarrow> kernel \<Rightarrow> kernel" where
  "cmd_pwd s k = print_str (cwd_str s k @ nl) k"

definition cmd_cd :: "bytes option \<Rightarrow> shell \<Rightarrow> kernel \<Rightarrow> kernel \<times> shell" where
  "cmd_cd arg s k =
     (let path = (case arg of Some p \<Rightarrow> p | None \<Rightarrow> ascii ''/'') in
      case resolve (k_fs k) path (sh_cwd s) of
        None \<Rightarrow> (print_str (ascii ''cd: no such directory: '' @ path @ nl) k, s)
      | Some idx \<Rightarrow>
          if is_dir (k_fs k) path (sh_cwd s) = Some True then (k, s\<lparr>sh_cwd := idx\<rparr>)
          else (print_str (ascii ''cd: not a directory: '' @ path @ nl) k, s))"

definition ls_line :: "user_list \<Rightarrow> bool \<Rightarrow> inode \<Rightarrow> bytes" where
  "ls_line ut long n =
     (if long
      then format_mode (i_kind n = Dir) (i_mode n) @ ascii ''  '' @ user_label ut (i_uid n) @ ascii ''  ''
           @ user_label ut (i_gid n) @ ascii ''  '' @ fmt_u64_padded (i_size n) 6 @ ascii ''  ''
      else [])
     @ name_str n @ (if i_kind n = Dir then ascii ''/'' else []) @ nl"

definition cmd_ls :: "user_list \<Rightarrow> bytes option \<Rightarrow> bytes option \<Rightarrow> shell \<Rightarrow> kernel \<Rightarrow> kernel" where
  "cmd_ls ut first second s k =
     (let (long, path) =
        (case first of
           None \<Rightarrow> (False, ascii ''.'')
         | Some p \<Rightarrow> if p = ascii ''-l'' then (True, case second of Some q \<Rightarrow> q | None \<Rightarrow> ascii ''.'') else (False, p));
          entries = list_dir (k_fs k) path (sh_cwd s)
      in if entries \<noteq> [] then print_str (concat (map (ls_line ut long) entries)) k
         else case resolve (k_fs k) path (sh_cwd s) of
           None \<Rightarrow> print_str (ascii ''ls: '' @ path @ ascii '': no such file'' @ nl) k
         | Some _ \<Rightarrow> print_str (path @ nl) k)"

section \<open>Commands on files\<close>

text \<open>A call on the file system and the message when it is refused.\<close>

definition fs_do :: "fs_call \<Rightarrow> bytes \<Rightarrow> kernel \<Rightarrow> kernel" where
  "fs_do c msg k =
     (case fs_exec c (k_fs k) of (fs, ok) \<Rightarrow> let k1 = k\<lparr>k_fs := fs\<rparr> in if ok then k1 else print_str msg k1)"

definition cmd_mkdir :: "bytes option \<Rightarrow> shell \<Rightarrow> kernel \<Rightarrow> kernel" where
  "cmd_mkdir arg s k =
     (case arg of
        None \<Rightarrow> say ''usage: mkdir <dir>'' k
      | Some path \<Rightarrow> fs_do (Mkdir path (sh_cwd s) (sh_uid s) (sh_gid s) 0x1ED)
                       (ascii ''mkdir: cannot create directory: '' @ path @ nl) k)"

definition cmd_rmdir :: "bytes option \<Rightarrow> shell \<Rightarrow> kernel \<Rightarrow> kernel" where
  "cmd_rmdir arg s k =
     (case arg of
        None \<Rightarrow> say ''usage: rmdir <dir>'' k
      | Some path \<Rightarrow> fs_do (Rmdir path (sh_cwd s) (sh_uid s) (sh_gid s))
                       (ascii ''rmdir: cannot remove '' @ path @ ascii '' (not empty, no permission, or not a directory)'' @ nl) k)"

definition cmd_rm :: "bytes option \<Rightarrow> shell \<Rightarrow> kernel \<Rightarrow> kernel" where
  "cmd_rm arg s k =
     (case arg of
        None \<Rightarrow> say ''usage: rm <file>'' k
      | Some path \<Rightarrow> fs_do (Unlink path (sh_cwd s) (sh_uid s) (sh_gid s)) (ascii ''rm: cannot remove: '' @ path @ nl) k)"

definition cmd_touch :: "bytes option \<Rightarrow> shell \<Rightarrow> kernel \<Rightarrow> kernel" where
  "cmd_touch arg s k =
     (case arg of
        None \<Rightarrow> say ''usage: touch <file>'' k
      | Some path \<Rightarrow> fs_do (Touch path (sh_cwd s) (sh_uid s) (sh_gid s)) (ascii ''touch: cannot create: '' @ path @ nl) k)"

definition shell_read :: "bytes \<Rightarrow> shell \<Rightarrow> kernel \<Rightarrow> bytes option" where
  "shell_read path s k = read_at (k_fs k) path (sh_cwd s) (sh_uid s) (sh_gid s)"

definition shell_write :: "bytes \<Rightarrow> bytes \<Rightarrow> string \<Rightarrow> shell \<Rightarrow> kernel \<Rightarrow> kernel" where
  "shell_write path data who s k =
     fs_do (WriteFile path (sh_cwd s) data (sh_uid s) (sh_gid s)) (ascii who @ ascii '': cannot write: '' @ path @ nl) k"

definition cmd_cat :: "bytes option \<Rightarrow> shell \<Rightarrow> kernel \<Rightarrow> kernel" where
  "cmd_cat arg s k =
     (case arg of
        None \<Rightarrow> say ''usage: cat <file>'' k
      | Some path \<Rightarrow>
          (case shell_read path s k of
             Some data \<Rightarrow> if utf8_valid data then print_str data k else say ''<binary file>'' k
           | None \<Rightarrow> print_str (ascii ''cat: '' @ path @ ascii '': no such file or permission denied'' @ nl) k))"

definition cmd_write :: "bytes option \<Rightarrow> bytes \<Rightarrow> shell \<Rightarrow> kernel \<Rightarrow> kernel" where
  "cmd_write arg line s k =
     (case arg of
        None \<Rightarrow> say ''usage: write <file> <content>'' k
      | Some path \<Rightarrow> shell_write path (skip_words line 2) ''write'' s k)"

definition do_append :: "bytes \<Rightarrow> bytes \<Rightarrow> shell \<Rightarrow> kernel \<Rightarrow> kernel" where
  "do_append path content s k =
     (let prefix = (case shell_read path s k of Some existing \<Rightarrow> take 4090 existing | None \<Rightarrow> []);
          added = take (4090 - length prefix) content
      in shell_write path (prefix @ added @ nl) ''append'' s k)"

definition cmd_append :: "bytes option \<Rightarrow> bytes \<Rightarrow> shell \<Rightarrow> kernel \<Rightarrow> kernel" where
  "cmd_append arg line s k =
     (case arg of
        None \<Rightarrow> say ''usage: append <file> <content>'' k
      | Some path \<Rightarrow> do_append path (skip_words line 2) s k)"

definition cmd_cp :: "bytes option \<Rightarrow> bytes option \<Rightarrow> shell \<Rightarrow> kernel \<Rightarrow> kernel" where
  "cmd_cp src_arg dst_arg s k =
     (case (src_arg, dst_arg) of
        (Some src, Some dst) \<Rightarrow>
          (case shell_read src s k of
             None \<Rightarrow> print_str (ascii ''cp: cannot read: '' @ src @ nl) k
           | Some data \<Rightarrow> shell_write dst (take 4096 data) ''cp'' s k)
      | _ \<Rightarrow> say ''usage: cp <src> <dst>'' k)"

definition cmd_mv :: "bytes option \<Rightarrow> bytes option \<Rightarrow> shell \<Rightarrow> kernel \<Rightarrow> kernel" where
  "cmd_mv src_arg dst_arg s k =
     (case (src_arg, dst_arg) of
        (Some src, Some dst) \<Rightarrow>
          fs_do (Rename src dst (sh_cwd s) (sh_uid s) (sh_gid s)) (ascii ''mv: cannot rename: '' @ src @ nl) k
      | _ \<Rightarrow> say ''usage: mv <src> <dst>'' k)"

definition stat_text :: "inode \<Rightarrow> bytes" where
  "stat_text n =
     ascii ''  File: '' @ name_str n @ nl @ ascii ''  Type: ''
     @ (if i_kind n = Dir then ascii ''directory'' else ascii ''regular file'')
     @ nl @ ascii ''  Mode: '' @ format_mode (i_kind n = Dir) (i_mode n)
     @ nl @ ascii ''   Uid: '' @ fmt_u64 (unat (i_uid n)) @ ascii ''   Gid: '' @ fmt_u64 (unat (i_gid n))
     @ nl @ ascii ''  Size: '' @ fmt_u64 (i_size n) @ ascii '' bytes'' @ nl"

definition cmd_stat :: "bytes option \<Rightarrow> shell \<Rightarrow> kernel \<Rightarrow> kernel" where
  "cmd_stat arg s k =
     (case arg of
        None \<Rightarrow> say ''usage: stat <path>'' k
      | Some path \<Rightarrow>
          (case stat_at (k_fs k) path (sh_cwd s) of
             Some n \<Rightarrow> print_str (stat_text n) k
           | None \<Rightarrow> print_str (ascii ''stat: '' @ path @ ascii '': no such file or directory'' @ nl) k))"

definition cmd_echo :: "bytes \<Rightarrow> shell \<Rightarrow> kernel \<Rightarrow> kernel" where
  "cmd_echo line s k =
     (let rest = dropWhile (\<lambda>c. c = 0x20) (strip_all (ascii ''echo'') line) in
      case parse_redirect rest of
        Some (content, path, appending) \<Rightarrow>
          if path = [] then say ''echo: missing filename for redirect'' k
          else if appending then do_append path content s k
          else shell_write path (take 4095 content @ nl) ''echo'' s k
      | None \<Rightarrow> print_str (rest @ nl) k)"

section \<open>Permissions and users\<close>

definition cmd_chmod :: "bytes option \<Rightarrow> bytes option \<Rightarrow> shell \<Rightarrow> kernel \<Rightarrow> kernel" where
  "cmd_chmod mode_arg path_arg s k =
     (case (mode_arg, path_arg) of
        (Some m, Some path) \<Rightarrow>
          (case parse_octal m of
             None \<Rightarrow> say ''chmod: invalid mode (use octal, e.g. 755)'' k
           | Some mode \<Rightarrow> fs_do (Chmod path (sh_cwd s) mode (sh_uid s)) (ascii ''chmod: permission denied or file not found'' @ nl) k)
      | _ \<Rightarrow> say ''usage: chmod <mode> <file>'' k)"

definition cmd_chown :: "user_list \<Rightarrow> bytes option \<Rightarrow> bytes option \<Rightarrow> shell \<Rightarrow> kernel \<Rightarrow> kernel" where
  "cmd_chown ut owner_arg path_arg s k =
     (case (owner_arg, path_arg) of
        (Some name, Some path) \<Rightarrow>
          (case lookup_by_name name ut of
             None \<Rightarrow> print_str (ascii ''chown: unknown user: '' @ name @ nl) k
           | Some u \<Rightarrow> fs_do (Chown path (sh_cwd s) (u_uid u) (u_gid u) (sh_uid s))
                         (ascii ''chown: permission denied (only root can chown)'' @ nl) k)
      | _ \<Rightarrow> say ''usage: chown <user> <file>'' k)"

definition cmd_whoami :: "user_list \<Rightarrow> shell \<Rightarrow> kernel \<Rightarrow> kernel" where
  "cmd_whoami ut s k =
     print_str ((case lookup_by_uid (sh_uid s) ut of
                   Some u \<Rightarrow> user_name_str u
                 | None \<Rightarrow> ascii ''uid='' @ fmt_u64 (unat (sh_uid s))) @ nl) k"

definition cmd_su :: "user_list \<Rightarrow> bytes option \<Rightarrow> shell \<Rightarrow> kernel \<Rightarrow> kernel \<times> shell" where
  "cmd_su ut arg s k =
     (let name = (case arg of Some n \<Rightarrow> n | None \<Rightarrow> ascii ''root'') in
      case lookup_by_name name ut of
        None \<Rightarrow> (print_str (ascii ''su: user not found: '' @ name @ nl) k, s)
      | Some u \<Rightarrow> (print_str (ascii ''switched to '' @ user_name_str u @ nl) k, s\<lparr>sh_uid := u_uid u, sh_gid := u_gid u\<rparr>))"

definition cmd_users :: "user_list \<Rightarrow> kernel \<Rightarrow> kernel" where
  "cmd_users ut k =
     print_str (concat (map (\<lambda>u. ascii ''uid='' @ fmt_u64 (unat (u_uid u)) @ ascii '' gid='' @ fmt_u64 (unat (u_gid u))
                                 @ ascii '' '' @ user_name_str u @ nl)
                  (filter u_used (users_list ut)))) k"

section \<open>System and processes\<close>

definition help_lines :: "string list" where
  "help_lines =
    [''ferrugem Shell'',
     '''',
     ''Navigation:'',
     ''  cd [path]              change directory (default: /)'',
     ''  ls [-l] [path]         list directory  (-l for long format)'',
     ''  pwd                    print working directory'',
     '''',
     ''Files:'',
     ''  touch <file>           create empty file'',
     ''  cat <file>             print file contents'',
     ''  write <file> <text>    overwrite file'',
     ''  append <file> <text>   append to file'',
     ''  cp <src> <dst>         copy file'',
     ''  mv <src> <dst>         rename / move file'',
     ''  rm <file>              delete file'',
     ''  mkdir <dir>            create directory'',
     ''  rmdir <dir>            remove empty directory'',
     ''  stat <path>            show file metadata'',
     '''',
     ''Redirects:'',
     ''  echo <text>            print text'',
     ''  echo <text> > <file>   overwrite file'',
     ''  echo <text> >> <file>  append to file'',
     '''',
     ''Permissions:'',
     ''  chmod <mode> <file>    change mode (octal, e.g. 755)'',
     ''  chown <user> <file>    change owner  (root only)'',
     '''',
     ''Users:'',
     ''  whoami                 print current user'',
     ''  su [user]              switch user  (default: root)'',
     ''  users                  list all users'',
     '''',
     ''System:'',
     ''  uname                  kernel name and architecture'',
     ''  uptime                 scheduler tick counter'',
     ''  mem                    heap memory usage'',
     ''  ps                     list running processes'',
     ''  clear                  clear the screen'',
     ''  halt | exit            halt the system'',
     '''',
     ''Processes:'',
     ''  spawn <task>           start a kernel task  (hello, counter)'',
     ''  run <path>             load and run an ELF64 binary from VFS'',
     ''  run user               start the built-in demo user program'',
     ''  kill <slot>            terminate task by slot number'',
     '''',
     ''History: up/down arrows navigate command history'']"

definition cmd_help :: "kernel \<Rightarrow> kernel" where
  "cmd_help k = print_str (concat (map (\<lambda>l. ascii l @ nl) help_lines)) k"

definition cmd_uname :: "shell_env \<Rightarrow> kernel \<Rightarrow> kernel" where
  "cmd_uname env k = print_str (ascii ''Ferrugem '' @ se_version env @ ascii '' x86_64'' @ nl) k"

definition state_str :: "task_state \<Rightarrow> bytes" where
  "state_str st = (case st of Ready \<Rightarrow> ascii ''ready  '' | Running \<Rightarrow> ascii ''running''
                    | Blocked \<Rightarrow> ascii ''blocked'' | Zombie \<Rightarrow> ascii ''zombie '')"

definition ps_line :: "nat \<Rightarrow> nat \<times> u64 \<times> task_state \<times> bool \<Rightarrow> bytes" where
  "ps_line self_slot t =
     (case t of (slot, p, st, usr) \<Rightarrow>
        fmt_u64_padded slot 4 @ ascii ''  '' @ fmt_u64_padded (unat p) 5 @ ascii ''  '' @ state_str st @ ascii ''  ''
        @ (if slot = 0 then ascii ''kernel (idle)'' else if slot = self_slot then ascii ''kernel (self)''
           else if usr then ascii ''user'' else ascii ''kernel'') @ nl)"

definition cmd_ps :: "kernel \<Rightarrow> kernel" where
  "cmd_ps k =
     print_str (ascii ''SLOT  PID    STATE    TYPE'' @ nl @ concat (map (ps_line (current k)) (for_each_task k))) k"

definition cmd_uptime :: "kernel \<Rightarrow> kernel" where
  "cmd_uptime k = print_str (ascii ''ticks: '' @ fmt_u64 (unat (tick_count k)) @ nl) k"

definition cmd_mem :: "kernel \<Rightarrow> kernel" where
  "cmd_mem k =
     (let h = get_heap_stats (k_mem k); overhead = hs_total h - hs_used h - hs_free h in
      print_str (ascii ''heap total:  '' @ fmt_u64 (hs_total h div 1024) @ ascii '' KiB'' @ nl
        @ ascii ''     used:   '' @ fmt_u64 (hs_used h) @ ascii '' bytes (''
        @ fmt_u64 (hs_allocs h) @ ascii '' allocations)'' @ nl
        @ ascii ''     free:   '' @ fmt_u64 (hs_free h) @ ascii '' bytes'' @ nl
        @ (if overhead > 0 then ascii ''  overhead:  '' @ fmt_u64 overhead @ ascii '' bytes (headers)'' @ nl else [])) k)"

text \<open>The arrow in the messages is U+2192.\<close>

definition to_slot :: "nat \<Rightarrow> bytes" where
  "to_slot slot = ascii '' '' @ [0xE2, 0x86, 0x92] @ ascii '' slot '' @ fmt_u64 slot"

definition resolve_task :: "shell_env \<Rightarrow> bytes \<Rightarrow> u64 option" where
  "resolve_task env name =
     (if name = ascii ''hello'' then Some (se_task_hello env)
      else if name = ascii ''counter'' then Some (se_task_counter env) else None)"

definition cmd_spawn :: "shell_env \<Rightarrow> bytes option \<Rightarrow> kernel \<Rightarrow> kernel" where
  "cmd_spawn env arg k =
     (case arg of
        None \<Rightarrow> say ''usage: spawn <name>  (tasks: hello, counter)'' k
      | Some name \<Rightarrow>
          (case resolve_task env name of
             None \<Rightarrow> print_str (ascii ''spawn: unknown task '' @ [0x27] @ name @ [0x27] @ nl) k
           | Some entry \<Rightarrow>
               (case spawn_fn entry k of
                  (k1, Some slot) \<Rightarrow> print_str (ascii ''spawned '' @ [0x27] @ name @ [0x27] @ to_slot slot @ nl) k1
                | (k1, None) \<Rightarrow> say ''spawn: run queue full'' k1)))"

definition cmd_kill :: "bytes option \<Rightarrow> kernel \<Rightarrow> kernel" where
  "cmd_kill arg k =
     (case arg of
        None \<Rightarrow> say ''usage: kill <slot>'' k
      | Some a \<Rightarrow>
          (case parse_decimal a of
             None \<Rightarrow> say ''kill: invalid slot number'' k
           | Some slot \<Rightarrow>
               (case kill_task slot k of
                  (k1, True) \<Rightarrow> print_str (ascii ''killed slot '' @ fmt_u64 slot @ nl) k1
                | (k1, False) \<Rightarrow> say ''kill: no such task, cannot kill (slot 0 or self not allowed)'' k1)))"

definition run_user_hello :: "shell_env \<Rightarrow> kernel \<Rightarrow> kernel" where
  "run_user_hello env k =
     (case spawn_user (se_hello_user env) k of
        (k1, Some slot) \<Rightarrow> print_str (ascii ''started user'' @ to_slot slot @ nl) k1
      | (k1, None) \<Rightarrow> say ''run: failed (OOM or run queue full)'' k1)"

definition run_elf_from_vfs :: "shell_env \<Rightarrow> bytes \<Rightarrow> kernel \<Rightarrow> kernel" where
  "run_elf_from_vfs env path k =
     (case read_at (k_fs k) path 0 0 0 of
        None \<Rightarrow> print_str (ascii ''run: not found: '' @ path @ nl) k
      | Some data \<Rightarrow>
          if \<not> is_elf data then print_str (ascii ''run: not an ELF64 binary: '' @ path @ nl) k
          else case spawn_elf (se_seed env) data path k of
            (k1, Some slot) \<Rightarrow>
              print_str (ascii ''started '' @ [0x27] @ path @ [0x27] @ to_slot slot @ ascii '' pid ''
                @ fmt_u64 (unat (task_pid slot k1)) @ nl) k1
          | (k1, None) \<Rightarrow> say ''run: failed (bad ELF, OOM, or run queue full)'' k1)"

definition cmd_run :: "shell_env \<Rightarrow> bytes option \<Rightarrow> kernel \<Rightarrow> kernel" where
  "cmd_run env arg k =
     (case arg of
        None \<Rightarrow> say ''usage: run <path>  or  run user'' k
      | Some name \<Rightarrow> if name = ascii ''user'' then run_user_hello env k else run_elf_from_vfs env name k)"

section \<open>Dispatch\<close>

datatype outcome = Continue shell | Halted

definition nth_word :: "bytes list \<Rightarrow> nat \<Rightarrow> bytes option" where
  "nth_word ws i = (if i < length ws then Some (ws ! i) else None)"

definition execute :: "shell_env \<Rightarrow> user_list \<Rightarrow> bytes \<Rightarrow> shell \<Rightarrow> kernel \<Rightarrow> kernel \<times> outcome" where
  "execute env ut line s k =
     (let ws = split_words line; a = nth_word ws 1; b = nth_word ws 2; keep = (\<lambda>k. (k, Continue s)) in
      case nth_word ws 0 of
        None \<Rightarrow> keep k
      | Some cmd \<Rightarrow>
          if cmd = ascii ''help'' then keep (cmd_help k)
          else if cmd = ascii ''echo'' then keep (cmd_echo line s k)
          else if cmd = ascii ''clear'' then keep k
          else if cmd = ascii ''pwd'' then keep (cmd_pwd s k)
          else if cmd = ascii ''cd'' then (case cmd_cd a s k of (k1, s1) \<Rightarrow> (k1, Continue s1))
          else if cmd = ascii ''ls'' then keep (cmd_ls ut a b s k)
          else if cmd = ascii ''mkdir'' then keep (cmd_mkdir a s k)
          else if cmd = ascii ''rmdir'' then keep (cmd_rmdir a s k)
          else if cmd = ascii ''rm'' then keep (cmd_rm a s k)
          else if cmd = ascii ''touch'' then keep (cmd_touch a s k)
          else if cmd = ascii ''cat'' then keep (cmd_cat a s k)
          else if cmd = ascii ''write'' then keep (cmd_write a line s k)
          else if cmd = ascii ''append'' then keep (cmd_append a line s k)
          else if cmd = ascii ''cp'' then keep (cmd_cp a b s k)
          else if cmd = ascii ''mv'' then keep (cmd_mv a b s k)
          else if cmd = ascii ''stat'' then keep (cmd_stat a s k)
          else if cmd = ascii ''chmod'' then keep (cmd_chmod a b s k)
          else if cmd = ascii ''chown'' then keep (cmd_chown ut a b s k)
          else if cmd = ascii ''whoami'' then keep (cmd_whoami ut s k)
          else if cmd = ascii ''su'' then (case cmd_su ut a s k of (k1, s1) \<Rightarrow> (k1, Continue s1))
          else if cmd = ascii ''users'' then keep (cmd_users ut k)
          else if cmd = ascii ''uname'' then keep (cmd_uname env k)
          else if cmd = ascii ''ps'' then keep (cmd_ps k)
          else if cmd = ascii ''uptime'' then keep (cmd_uptime k)
          else if cmd = ascii ''mem'' then keep (cmd_mem k)
          else if cmd = ascii ''spawn'' then keep (cmd_spawn env a k)
          else if cmd = ascii ''run'' then keep (cmd_run env a k)
          else if cmd = ascii ''kill'' then keep (cmd_kill a k)
          else if cmd = ascii ''halt'' \<or> cmd = ascii ''exit'' \<or> cmd = ascii ''poweroff'' \<or> cmd = ascii ''shutdown''
            then (say ''System halting...'' k, Halted)
          else keep (print_str (ascii ''unknown command: '' @ cmd @ nl) k))"

text \<open>One round of the main loop on keys that complete a line: prompt, editing, history, execution.\<close>

definition shell_round ::
    "shell_env \<Rightarrow> user_list \<Rightarrow> key list \<Rightarrow> history \<Rightarrow> shell \<Rightarrow> kernel \<Rightarrow> (kernel \<times> history \<times> outcome \<times> key list) option" where
  "shell_round env ut ks hist s k =
     (case read_line hist ks of
        None \<Rightarrow> None
      | Some (line, out, rest) \<Rightarrow>
          let k1 = print_str out (print_prompt ut s k);
              hist1 = (if lb_is_empty line then hist else hist_push (lb_as_bytes line) hist)
          in case execute env ut (lb_as_str line) s k1 of (k2, r) \<Rightarrow> Some (k2, hist1, r, rest))"

definition shell_start :: "shell_env \<Rightarrow> user_list \<Rightarrow> kernel \<Rightarrow> kernel \<times> user_list" where
  "shell_start env ut k =
     (print_str (se_banner env @ ascii ''Type '' @ [0x27] @ ascii ''help'' @ [0x27] @ ascii '' for available commands.'' @ nl @ nl) k,
      users_init ut)"

section \<open>What a command does to the file system\<close>

fun call_uid :: "fs_call \<Rightarrow> u16" where
  "call_uid (WriteFile _ _ _ uid _) = uid"
| "call_uid (Mkdir _ _ uid _ _) = uid"
| "call_uid (Rmdir _ _ uid _) = uid"
| "call_uid (Touch _ _ uid _) = uid"
| "call_uid (Unlink _ _ uid _) = uid"
| "call_uid (Rename _ _ _ uid _) = uid"
| "call_uid (Chmod _ _ _ uid) = uid"
| "call_uid (Chown _ _ _ _ uid) = uid"

fun call_gid :: "fs_call \<Rightarrow> u16 option" where
  "call_gid (WriteFile _ _ _ _ gid) = Some gid"
| "call_gid (Mkdir _ _ _ gid _) = Some gid"
| "call_gid (Rmdir _ _ _ gid) = Some gid"
| "call_gid (Touch _ _ _ gid) = Some gid"
| "call_gid (Unlink _ _ _ gid) = Some gid"
| "call_gid (Rename _ _ _ _ gid) = Some gid"
| "call_gid (Chmod _ _ _ _) = None"
| "call_gid (Chown _ _ _ _ _) = None"

definition as_user :: "shell \<Rightarrow> fs_call \<Rightarrow> bool" where
  "as_user s c \<longleftrightarrow> call_uid c = sh_uid s \<and> call_cwd c = sh_cwd s \<and> (call_gid c = None \<or> call_gid c = Some (sh_gid s))"

text \<open>A state that differs from \<open>k\<close> by at most one file system call made with the credentials of the shell.\<close>

definition one_call :: "shell \<Rightarrow> kernel \<Rightarrow> kernel \<Rightarrow> bool" where
  "one_call s k k' \<longleftrightarrow> k_fs k' = k_fs k \<or> (\<exists>c. as_user s c \<and> k_fs k' = fst (fs_exec c (k_fs k)))"

lemma print_frame [simp]:
  "k_fs (print_str t k) = k_fs k" "k_fs (say m k) = k_fs k" "sched_wf (print_str t k) = sched_wf k"
  "sched_wf (say m k) = sched_wf k" "next_pid (print_str t k) = next_pid k" "one_call s k (print_str t k)" "one_call s k (say m k)"
  by (simp_all add: print_str_def say_def one_call_def)

lemma fs_do_fs: "k_fs (fs_do c msg k) = fst (fs_exec c (k_fs k))"
  by (simp add: fs_do_def Let_def split: prod.split)

lemma one_call_fs_do [intro]: "as_user s c \<Longrightarrow> one_call s k (fs_do c msg k)"
  by (auto simp: one_call_def fs_do_fs)

lemma one_call_refl [intro, simp]: "one_call s k k"
  by (simp add: one_call_def)

lemma one_call_shell_write [intro]: "one_call s k (shell_write path data who s k)"
  unfolding shell_write_def by (rule one_call_fs_do) (simp add: as_user_def)

lemma one_call_append [intro]: "one_call s k (do_append path content s k)"
  unfolding do_append_def Let_def by (rule one_call_shell_write)

lemma spawn_fs [simp]:
  "k_fs (fst (spawn_fn e k)) = k_fs k" "k_fs (fst (spawn_user p k)) = k_fs k" "k_fs (fst (spawn_elf sd d a k)) = k_fs k"
  "k_fs (fst (kill_task n k)) = k_fs k"
  by (auto simp: spawn_fn_def spawn_user_def spawn_elf_def kill_task_def add_user_task_def install_def set_slot_def
      upd_task_def Let_def split: option.splits prod.splits)

lemma spawn_fsD:
  "spawn_fn e k = (k1, r) \<Longrightarrow> k_fs k1 = k_fs k" "spawn_user p k = (k1, r) \<Longrightarrow> k_fs k1 = k_fs k"
  "spawn_elf sd d a k = (k1, r) \<Longrightarrow> k_fs k1 = k_fs k" "kill_task n k = (k1, b) \<Longrightarrow> k_fs k1 = k_fs k"
  by (metis spawn_fs fst_conv)+

lemma one_call_spawn [simp]:
  "one_call s k (cmd_spawn env a k)" "one_call s k (cmd_run env a k)" "one_call s k (cmd_kill a k)"
  by (auto simp: cmd_spawn_def cmd_run_def run_user_hello_def run_elf_from_vfs_def cmd_kill_def one_call_def
      split: option.split prod.split bool.split dest: spawn_fsD)

lemma one_call_files [simp]:
  "one_call s k (cmd_mkdir a s k)" "one_call s k (cmd_rmdir a s k)" "one_call s k (cmd_rm a s k)" "one_call s k (cmd_touch a s k)"
  "one_call s k (cmd_write a line s k)" "one_call s k (cmd_append a line s k)" "one_call s k (cmd_cp a b s k)"
  "one_call s k (cmd_mv a b s k)" "one_call s k (cmd_echo line s k)" "one_call s k (cmd_chmod a b s k)" "one_call s k (cmd_chown ut a b s k)"
  by (auto simp: cmd_mkdir_def cmd_rmdir_def cmd_rm_def cmd_touch_def cmd_write_def cmd_append_def cmd_cp_def cmd_mv_def
      cmd_echo_def cmd_chmod_def cmd_chown_def as_user_def Let_def split: option.split)

lemma one_call_shows [simp]:
  "one_call s k (cmd_help k)" "one_call s k (cmd_pwd s k)" "one_call s k (cmd_ls ut a b s k)" "one_call s k (cmd_cat a s k)"
  "one_call s k (cmd_stat a s k)" "one_call s k (cmd_whoami ut s k)" "one_call s k (cmd_users ut k)" "one_call s k (cmd_uname env k)"
  "one_call s k (cmd_ps k)" "one_call s k (cmd_uptime k)" "one_call s k (cmd_mem k)"
  by (auto simp: cmd_help_def cmd_pwd_def cmd_ls_def cmd_cat_def cmd_stat_def cmd_whoami_def cmd_users_def cmd_uname_def
      cmd_ps_def cmd_uptime_def cmd_mem_def Let_def split: option.split prod.split)

lemma one_call_state [simp]:
  "one_call s k (fst (cmd_cd a s k))" "one_call s k (fst (cmd_su ut a s k))"
  by (auto simp: cmd_cd_def cmd_su_def Let_def split: option.split)

section \<open>Invariants of a command line\<close>

definition exec_ok :: "shell \<Rightarrow> kernel \<Rightarrow> kernel \<times> outcome \<Rightarrow> bool" where
  "exec_ok s k r \<longleftrightarrow> one_call s k (fst r) \<and> sched_wf (fst r)
     \<and> (case snd r of Continue s' \<Rightarrow> sh_cwd s' < MAX_INODES | Halted \<Rightarrow> True)"

lemma exec_ok_if: "exec_ok s k a \<Longrightarrow> exec_ok s k b \<Longrightarrow> exec_ok s k (if c then a else b)"
  by simp

lemma fs_do_wf [wf_intros]: "sched_wf k \<Longrightarrow> call_cwd c < MAX_INODES \<Longrightarrow> sched_wf (fs_do c msg k)"
  using fs_exec_wf[of "k_fs k" c] sched_wfD(7)[of k]
  by (auto simp: fs_do_def Let_def split: prod.split intro: sched_wf_fs)

lemma file_commands_wf:
  assumes "sched_wf k" "sh_cwd s < MAX_INODES"
  shows "sched_wf (cmd_mkdir a s k)" "sched_wf (cmd_rmdir a s k)" "sched_wf (cmd_rm a s k)" "sched_wf (cmd_touch a s k)"
    "sched_wf (cmd_write a line s k)" "sched_wf (cmd_append a line s k)" "sched_wf (cmd_cp a b s k)"
    "sched_wf (cmd_mv a b s k)" "sched_wf (cmd_echo line s k)" "sched_wf (cmd_chmod a b s k)" "sched_wf (cmd_chown ut a b s k)"
  using assms
  by (auto simp: cmd_mkdir_def cmd_rmdir_def cmd_rm_def cmd_touch_def cmd_write_def cmd_append_def cmd_cp_def cmd_mv_def
      cmd_echo_def cmd_chmod_def cmd_chown_def do_append_def shell_write_def Let_def fs_do_wf split: option.split)

lemma show_commands_wf:
  assumes "sched_wf k"
  shows "sched_wf (cmd_help k)" "sched_wf (cmd_pwd s k)" "sched_wf (cmd_ls ut a b s k)" "sched_wf (cmd_cat a s k)"
    "sched_wf (cmd_stat a s k)" "sched_wf (cmd_whoami ut s k)" "sched_wf (cmd_users ut k)" "sched_wf (cmd_uname env k)"
    "sched_wf (cmd_ps k)" "sched_wf (cmd_uptime k)" "sched_wf (cmd_mem k)"
  using assms
  by (auto simp: cmd_help_def cmd_pwd_def cmd_ls_def cmd_cat_def cmd_stat_def cmd_whoami_def cmd_users_def cmd_uname_def
      cmd_ps_def cmd_uptime_def cmd_mem_def Let_def split: option.split prod.split)

lemma process_commands_wf:
  assumes "sched_wf k" "next_pid k < next_pid k + 1"
  shows "sched_wf (cmd_spawn env a k)" "sched_wf (cmd_run env a k)" "sched_wf (cmd_kill a k)"
proof -
  have p: "spawn_fn e k = (k1, r) \<Longrightarrow> sched_wf k1" "spawn_user prog k = (k1, r) \<Longrightarrow> sched_wf k1"
      "spawn_elf sd d a0 k = (k1, r) \<Longrightarrow> sched_wf k1" "kill_task n k = (k1, ok) \<Longrightarrow> sched_wf k1" for e prog sd d a0 n k1 r ok
    using spawn_fn_wf[OF assms, of e] spawn_user_wf[OF assms, of prog] spawn_elf_wf[OF assms, of sd d a0] kill_task_wf[OF assms(1), of n]
    by auto
  show "sched_wf (cmd_spawn env a k)" "sched_wf (cmd_run env a k)" "sched_wf (cmd_kill a k)"
    using assms(1) by (auto simp: cmd_spawn_def cmd_run_def run_user_hello_def run_elf_from_vfs_def cmd_kill_def
        split: option.split prod.split bool.split intro: p)
qed

lemma cd_su_ok:
  assumes "sched_wf k" "sh_cwd s < MAX_INODES"
  shows "exec_ok s k (case cmd_cd a s k of (k1, s1) \<Rightarrow> (k1, Continue s1))"
    "exec_ok s k (case cmd_su ut a s k of (k1, s1) \<Rightarrow> (k1, Continue s1))"
  using assms resolve_bound[OF sched_wfD(7)[OF assms(1)] assms(2)]
  by (auto simp: exec_ok_def cmd_cd_def cmd_su_def Let_def split: option.split)

lemma execute_ok:
  assumes "sched_wf k" "next_pid k < next_pid k + 1" "sh_cwd s < MAX_INODES"
  shows "exec_ok s k (execute env ut line s k)"
proof -
  have keep: "one_call s k k1 \<Longrightarrow> sched_wf k1 \<Longrightarrow> exec_ok s k (k1, Continue s)" for k1
    using assms(3) by (simp add: exec_ok_def)
  have halt: "exec_ok s k (say m k, Halted)" for m using assms(1) by (simp add: exec_ok_def)
  note wf = file_commands_wf[OF assms(1,3)] show_commands_wf[OF assms(1)] process_commands_wf[OF assms(1,2)]
  show ?thesis
  proof (cases "nth_word (split_words line) 0")
    case None
    then show ?thesis using assms by (simp add: execute_def keep)
  next
    case (Some cmd)
    show ?thesis unfolding execute_def Let_def Some option.case
      by (intro exec_ok_if keep halt cd_su_ok wf) (use assms in simp_all)
  qed
qed

section \<open>Files of others\<close>

text \<open>A file that a user may neither write nor remove or rename: owned by somebody else, no write permission
  on it or on its directory, and nothing below it.\<close>

definition protected :: "ramfs \<Rightarrow> u16 \<Rightarrow> u16 \<Rightarrow> nat \<Rightarrow> bool" where
  "protected fs uid gid i \<longleftrightarrow> i < MAX_INODES \<and> i_used (fs ! i) \<and> i_kind (fs ! i) = File \<and> uid \<noteq> 0 \<and> i_uid (fs ! i) \<noteq> uid
     \<and> \<not> perm fs i uid gid 2 \<and> \<not> perm fs (i_parent (fs ! i)) uid gid 2
     \<and> (\<forall>j < MAX_INODES. i_parent (fs ! j) \<noteq> i)"

lemma protected_alloc:
  assumes "protected fs uid gid i" "ramfs_alloc fs = (fs1, Some j)"
  shows "j \<noteq> i" "fs1 ! i = fs ! i"
proof -
  show j: "j \<noteq> i" using assms(1) ramfs_alloc_Some(3)[OF assms(2)] by (auto simp: protected_def)
  show "fs1 ! i = fs ! i" using j ramfs_alloc_Some(4)[OF assms(2)] by simp
qed

lemma upd_nth_other: "j \<noteq> i \<Longrightarrow> upd_nth j f xs ! i = xs ! i"
  by (simp add: upd_nth_def)

lemma fill_store_other:
  "j \<noteq> i \<Longrightarrow> fill_inode j k pa uid gid mode nm fs ! i = fs ! i" "j \<noteq> i \<Longrightarrow> ramfs_store j data fs ! i = fs ! i"
  by (simp_all add: fill_inode_def ramfs_store_def Let_def upd_nth_other)

lemma ramfs_rename_cases:
  assumes "ramfs_rename src dst cwd uid gid fs = (fs', ok)"
  obtains "fs' = fs"
  | si pp q f where "perm fs (i_parent (fs ! si)) uid gid 2" "resolve_parent fs pp cwd = Some q" "perm fs q uid gid 2" "fs' = upd_nth si f fs"
  | si pp q f nm d g where "perm fs (i_parent (fs ! si)) uid gid 2" "resolve_parent fs pp cwd = Some q" "perm fs q uid gid 2"
      "lookup_in fs q nm = Some d" "fs' = upd_nth si f (upd_nth d g fs)"
proof -
  obtain pp nm where sp: "split_parent dst = (pp, nm)" by fastforce
  note a = assms[unfolded ramfs_rename_def Let_def sp prod.case]
  show thesis
  proof (cases "resolve fs src cwd")
    case None
    with a that(1) show thesis by simp
  next
    case (Some si)
    show thesis
    proof (cases "resolve_parent fs pp cwd")
      case None
      with a Some that(1) show thesis by (simp split: if_splits)
    next
      case q: (Some q)
      show thesis
      proof (cases "si = 0 \<or> \<not> perm fs (i_parent (fs ! si)) uid gid 2 \<or> \<not> perm fs q uid gid 2")
        case True
        with a Some q that(1) show thesis by (auto split: if_splits)
      next
        case False
        then have ok: "si \<noteq> 0" "perm fs (i_parent (fs ! si)) uid gid 2" "perm fs q uid gid 2" by auto
        show thesis
        proof (cases "lookup_in fs q nm")
          case None
          with a Some q ok have "upd_nth si (\<lambda>n. set_name nm (n\<lparr>i_parent := q\<rparr>)) fs = fs'" by simp
          then show thesis using that(2) ok q by metis
        next
          case d: (Some d)
          show thesis
          proof (cases "d = si \<or> i_kind (fs ! d) = Dir")
            case True
            with a Some q ok d that(1) show thesis by (auto split: if_splits)
          next
            case False
            with a Some q ok d have "upd_nth si (\<lambda>n. set_name nm (n\<lparr>i_parent := q\<rparr>)) (upd_nth d (\<lambda>n. n\<lparr>i_used := False\<rparr>) fs) = fs'" by simp
            then show thesis using that(3) ok q d by metis
          qed
        qed
      qed
    qed
  qed
qed

lemma protected_rename:
  assumes wf: "fs_wf fs" and p: "protected fs uid gid i" and cwd: "cwd < MAX_INODES"
  shows "fst (ramfs_rename src dst cwd uid gid fs) ! i = fs ! i"
proof -
  have target: "d \<noteq> i" if r: "resolve_parent fs pp cwd = Some q" and w: "perm fs q uid gid 2" and l: "lookup_in fs q nm = Some d" for pp q nm d
  proof
    assume d: "d = i"
    have q: "q < MAX_INODES" using r resolve_bound[OF wf cwd] by (simp add: resolve_parent_def)
    consider "nm = dot" | "nm = dotdot" | "nm \<noteq> dot" "nm \<noteq> dotdot" by blast
    then show False
    proof cases
      case 1 with l d w p show False by (simp add: lookup_in_def protected_def)
    next
      case 2 with l d q p show False by (simp add: lookup_in_def protected_def dot_def dotdot_def)
    next
      case 3 with l d have "i_parent (fs ! i) = q" by (auto simp: lookup_in_def dest: scan_SomeD)
      with w p show False by (simp add: protected_def)
    qed
  qed
  obtain fs' ok where r: "ramfs_rename src dst cwd uid gid fs = (fs', ok)" by fastforce
  have source: "perm fs (i_parent (fs ! si)) uid gid 2 \<Longrightarrow> si \<noteq> i" for si using p by (auto simp: protected_def)
  from r have "fs' ! i = fs ! i"
  proof (cases rule: ramfs_rename_cases)
    case (2 si pp q f)
    then show ?thesis using source by (simp add: upd_nth_other)
  next
    case (3 si pp q f nm d g)
    then have "si \<noteq> i" "d \<noteq> i" using source target by blast+
    with 3(5) show ?thesis by (simp add: upd_nth_other)
  qed simp
  with r show ?thesis by simp
qed

lemma protected_exec:
  assumes wf: "fs_wf fs" and p: "protected fs uid gid i" and c: "call_uid c = uid" "call_gid c = None \<or> call_gid c = Some gid"
    "call_cwd c < MAX_INODES"
  shows "fst (fs_exec c fs) ! i = fs ! i"
proof (cases c)
  case (WriteFile path cwd data u g)
  have "j \<noteq> i" if "perm fs j uid gid 2" for j using that p by (auto simp: protected_def)
  then show ?thesis using WriteFile c p protected_alloc[OF p]
    by (auto simp: ramfs_write_def fill_store_other split: option.split prod.split dest: ramfs_alloc_None)
next
  case (Mkdir path cwd u g m)
  then show ?thesis using c protected_alloc[OF p]
    by (auto simp: ramfs_mkdir_def fill_store_other split: option.split prod.split dest: ramfs_alloc_None)
next
  case (Rmdir path cwd u g)
  then show ?thesis using p by (auto simp: ramfs_rmdir_def protected_def split: option.split intro!: upd_nth_other)
next
  case (Touch path cwd u g)
  then show ?thesis using c protected_alloc[OF p]
    by (auto simp: ramfs_touch_def fill_store_other split: option.split prod.split dest: ramfs_alloc_None)
next
  case (Unlink path cwd u g)
  then show ?thesis using p c by (auto simp: ramfs_unlink_def protected_def split: option.split intro!: upd_nth_other)
next
  case (Rename src dst cwd u g)
  then show ?thesis using protected_rename[OF wf p, of cwd src dst] c by simp
next
  case (Chmod path cwd m u)
  then show ?thesis using p c by (auto simp: ramfs_chmod_def protected_def split: option.split intro!: upd_nth_other)
next
  case (Chown path cwd nu ng u)
  then show ?thesis using p c by (simp add: ramfs_chown_def protected_def)
qed

section \<open>Copying and appending\<close>

lemma shell_write_read:
  assumes "sched_wf k" "parents_used (k_fs k)" "sh_cwd s < MAX_INODES" "i_used (k_fs k ! sh_cwd s)"
    "snd (fs_exec (WriteFile path (sh_cwd s) data (sh_uid s) (sh_gid s)) (k_fs k))" "length (snd (split_parent path)) \<le> MAX_NAME"
    "\<And>i. resolve (k_fs k) path (sh_cwd s) = Some i \<Longrightarrow> perm (k_fs k) i (sh_uid s) (sh_gid s) 4"
  shows "shell_read path s (shell_write path data who s k) = Some (take MAX_DATA data)"
proof -
  obtain fs' where w: "ramfs_write path (sh_cwd s) data (sh_uid s) (sh_gid s) (k_fs k) = (fs', True)"
    using assms(5) by (cases "ramfs_write path (sh_cwd s) data (sh_uid s) (sh_gid s) (k_fs k)") auto
  have "read_at fs' path (sh_cwd s) (sh_uid s) (sh_gid s) = Some (take MAX_DATA data)"
    by (rule ramfs_write_read[OF sched_wfD(7)[OF assms(1)] assms(2-4) w assms(6,7)])
  then show ?thesis using w by (simp add: shell_read_def shell_write_def fs_do_fs)
qed

lemma shell_read_Some:
  assumes "sched_wf k" "sh_cwd s < MAX_INODES" "shell_read path s k = Some data"
  shows "length data \<le> MAX_DATA" "resolve (k_fs k) path (sh_cwd s) = Some i \<Longrightarrow> perm (k_fs k) i (sh_uid s) (sh_gid s) 4"
proof -
  obtain j where j: "resolve (k_fs k) path (sh_cwd s) = Some j" "data = take (i_size (k_fs k ! j)) (i_data (k_fs k ! j))"
      "perm (k_fs k) j (sh_uid s) (sh_gid s) 4"
    using assms(3) by (auto simp: shell_read_def read_at_def split: option.splits if_splits)
  have wf: "fs_wf (k_fs k)" using assms(1) by (rule sched_wfD)
  have "inode_wf (k_fs k ! j)" using resolve_bound[OF wf assms(2) j(1)] wf by (simp add: fs_wf_def list_all_length)
  then show "length data \<le> MAX_DATA" by (simp add: j(2) inode_wf_def)
  show "resolve (k_fs k) path (sh_cwd s) = Some i \<Longrightarrow> perm (k_fs k) i (sh_uid s) (sh_gid s) 4" using j by simp
qed

text \<open>A path that names a file the user may read and write.\<close>

definition editable :: "bytes \<Rightarrow> shell \<Rightarrow> kernel \<Rightarrow> bool" where
  "editable path s k \<longleftrightarrow>
     (case resolve (k_fs k) path (sh_cwd s) of
        None \<Rightarrow> False
      | Some i \<Rightarrow> i_kind (k_fs k ! i) \<noteq> Dir \<and> perm (k_fs k) i (sh_uid s) (sh_gid s) 4 \<and> perm (k_fs k) i (sh_uid s) (sh_gid s) 2)"

lemma editable_write:
  assumes "sched_wf k" "sh_cwd s < MAX_INODES" "editable path s k" and k'_def: "k' = shell_write path data who s k"
  shows "sched_wf k'" "editable path s k'" "shell_read path s k' = Some (take MAX_DATA data)"
proof -
  have wf: "fs_wf (k_fs k)" using assms(1) by (rule sched_wfD)
  obtain i where i: "resolve (k_fs k) path (sh_cwd s) = Some i" "i_kind (k_fs k ! i) \<noteq> Dir"
      "perm (k_fs k) i (sh_uid s) (sh_gid s) 4" "perm (k_fs k) i (sh_uid s) (sh_gid s) 2"
    using assms(3) by (auto simp: editable_def split: option.splits)
  have k': "k_fs k' = ramfs_store i data (k_fs k)"
    using i by (simp add: k'_def shell_write_def fs_do_fs ramfs_write_def)
  show "sched_wf k'" unfolding k'_def shell_write_def using assms(1,2) by (simp add: fs_do_wf)
  show "shell_read path s k' = Some (take MAX_DATA data)"
    using write_existing_read[OF wf assms(2) i(1-3)] k' by (simp add: shell_read_def)
  have "same_links (k_fs k) (k_fs k')"
    using fs_wfD wf by (auto simp: k' same_links_def ramfs_store_def Let_def)
  then have "resolve (k_fs k') path (sh_cwd s) = Some i" using same_links_resolve[of "k_fs k" "k_fs k'"] assms(2) wf i(1) by simp
  moreover have "length (k_fs k) = MAX_INODES" "i < MAX_INODES" using wf fs_wfD resolve_bound[OF wf assms(2) i(1)] by blast+
  moreover from this have "i_kind (k_fs k' ! i) = i_kind (k_fs k ! i)"
      "perm (k_fs k') i (sh_uid s) (sh_gid s) p = perm (k_fs k) i (sh_uid s) (sh_gid s) p" for p
    by (simp_all add: k' ramfs_store_def perm_def Let_def)
  ultimately show "editable path s k'" using i by (simp add: editable_def)
qed

lemma append_read:
  assumes "sched_wf k" "sh_cwd s < MAX_INODES" "editable path s k" "shell_read path s k = Some old"
    "length old + length c < 4090"
  shows "shell_read path s (do_append path c s k) = Some (old @ c @ nl)"
  using editable_write(3)[OF assms(1-3) refl] assms(4,5) by (simp add: do_append_def MAX_DATA_def nl_def)

lemma append_all_read:
  assumes "sched_wf k" "sh_cwd s < MAX_INODES" "editable path s k" "shell_read path s k = Some old"
    "length old + (\<Sum>c\<leftarrow>cs. length c + 1) \<le> 4090"
  shows "shell_read path s (fold (\<lambda>c. do_append path c s) cs k) = Some (old @ concat (map (\<lambda>c. c @ nl) cs))"
  using assms
proof (induction cs arbitrary: k old)
  case (Cons c cs)
  let ?k = "do_append path c s k"
  have "sched_wf ?k" "editable path s ?k" using editable_write[OF Cons.prems(1-3) refl] by (simp_all add: do_append_def Let_def)
  moreover have "shell_read path s ?k = Some (old @ c @ nl)" using append_read[OF Cons.prems(1-4)] Cons.prems(5) by simp
  ultimately show ?case using Cons.IH[of ?k "old @ c @ nl"] Cons.prems(2,5) by (simp add: nl_def)
qed simp

section \<open>Properties\<close>

text \<open>A kernel whose file system holds the directories and files made by root in the concrete instances.\<close>

definition shell_kernel :: "ramfs \<Rightarrow> kernel" where
  "shell_kernel fs = (kernel_boot demo_mem \<lparr>k_pml4 = 0x1000, k_pdpt = 0x2000, k_pd = 0x3000\<rparr> 0 0
     \<lparr>h_rsp = 0, h_cr3 = 0, h_rsp0 = 0, h_fs_base = 0\<rparr> [])\<lparr>k_fs := fs\<rparr>"

lemma shell_kernel [simp]:
  "fs_wf fs \<Longrightarrow> sched_wf (shell_kernel fs)" "k_fs (shell_kernel fs) = fs" "next_pid (shell_kernel fs) = 1"
  by (simp_all add: shell_kernel_def kernel_boot_wf sched_wf_fs) (simp add: kernel_boot_def scheduler_init_def set_slot_def)

definition demo_env :: shell_env where
  "demo_env = \<lparr>se_banner = [], se_version = [], se_hello_user = [], se_task_hello = 0, se_task_counter = 0, se_seed = 0\<rparr>"

definition demo_file_fs :: "bytes \<Rightarrow> ramfs" where
  "demo_file_fs data = fst (ramfs_write [slash, 0x61] 0 data 0 0 (init_root ramfs_new))"

lemma demo_file_fs:
  "fs_wf (demo_file_fs data)" "i_used (demo_file_fs data ! 1)" "i_kind (demo_file_fs data ! 1) = File" "i_uid (demo_file_fs data ! 1) = 0"
  "i_gid (demo_file_fs data ! 1) = 0" "i_mode (demo_file_fs data ! 1) = 0x1A4" "i_parent (demo_file_fs data ! 1) = 0"
  "i \<noteq> 1 \<Longrightarrow> demo_file_fs data ! i = init_root ramfs_new ! i"
  "length data \<le> MAX_DATA \<Longrightarrow> read_at (demo_file_fs data) [slash, 0x61] 0 0 0 = Some data"
proof -
  have rp: "resolve_parent (init_root ramfs_new) [slash] 0 = Some 0"
    by (simp add: resolve_parent_def resolve_def trim_start_slash_def slash_def)
  have f: "demo_file_fs data = ramfs_store 1 data (fill_inode 1 File 0 0 0 0x1A4 [0x61] ((init_root ramfs_new)[1 := inode_empty\<lparr>i_used := True\<rparr>]))"
    using rp root_fs_write(1,2) by (simp add: demo_file_fs_def ramfs_write_def root_fs_alloc perm_def)
  note d = f ramfs_store_def fill_inode_def Let_def root_fs set_name_def MAX_INODES_def inode_empty_def
  show "i_used (demo_file_fs data ! 1)" "i_kind (demo_file_fs data ! 1) = File" "i_uid (demo_file_fs data ! 1) = 0"
    "i_gid (demo_file_fs data ! 1) = 0" "i_mode (demo_file_fs data ! 1) = 0x1A4" "i_parent (demo_file_fs data ! 1) = 0"
    by (simp_all add: d)
  show "i \<noteq> 1 \<Longrightarrow> demo_file_fs data ! i = init_root ramfs_new ! i"
    by (simp add: f ramfs_store_def fill_inode_def Let_def upd_nth_other)
  show "fs_wf (demo_file_fs data)" using fs_exec_wf[OF root_fs(1), of "WriteFile [slash, 0x61] 0 data 0 0"]
    by (simp add: demo_file_fs_def MAX_INODES_def)
  have "ramfs_write [slash, 0x61] 0 data 0 0 (init_root ramfs_new) = (demo_file_fs data, True)"
    using root_fs_write(3)[of data] by (simp add: prod_eq_iff demo_file_fs_def)
  from ramfs_write_read[OF root_fs(1) root_fs_parents _ root_fs(4) this]
  show "length data \<le> MAX_DATA \<Longrightarrow> read_at (demo_file_fs data) [slash, 0x61] 0 0 0 = Some data"
    using root_fs_write(2) by (simp add: MAX_NAME_def MAX_INODES_def perm_def)
qed

lemma demo_protected: "protected (demo_file_fs data) 1000 1000 1"
proof -
  have "i_parent (demo_file_fs data ! j) \<noteq> 1" if "j < MAX_INODES" for j
  proof (cases "j = 1")
    case False
    with that demo_file_fs(8)[of j data] root_fs(3)[of j] fs_wfD(6)[OF root_fs(1)] show ?thesis
      by (cases "j = 0") (auto simp: inode_empty_def)
  qed (use demo_file_fs(7)[of data] in simp)
  moreover have "i_uid (demo_file_fs data ! 0) = 0" "i_gid (demo_file_fs data ! 0) = 0" "i_mode (demo_file_fs data ! 0) = 0x1ED"
    by (simp_all add: demo_file_fs(8)) (simp_all add: init_root_def ramfs_new_def MAX_INODES_def)
  ultimately show ?thesis using demo_file_fs(2-7)[of data]
    by (simp add: protected_def MAX_INODES_def perm_def Let_def)
qed



text \<open>Lines appended to a file one after the other are read back in that order, each followed by a line
  end, after what the file held before, as long as the whole fits the 4090 bytes that \<^verbatim>\<open>append\<close> keeps.\<close>

theorem appends_build_log:
  assumes "sched_wf k" "sh_cwd s < MAX_INODES" "editable path s k" "shell_read path s k = Some old"
    "length old + (\<Sum>c\<leftarrow>cs. length c + 1) \<le> 4090"
  shows "shell_read path s (fold (\<lambda>c. do_append path c s) cs k) = Some (old @ concat (map (\<lambda>c. c @ nl) cs))"
  using assms by (rule append_all_read)

theorem appends_build_log_witness:
  "shell_read [slash, 0x61] shell_new (fold (\<lambda>c. do_append [slash, 0x61] c shell_new) [ascii ''b'', ascii ''cd''] (shell_kernel (demo_file_fs [1, 2, 3])))
   = Some ([1, 2, 3] @ ascii ''b'' @ nl @ ascii ''cd'' @ nl)"
proof -
  let ?k = "shell_kernel (demo_file_fs [1, 2, 3])"
  have r: "shell_read [slash, 0x61] shell_new ?k = Some [1, 2, 3]"
    using demo_file_fs(1,9)[of "[1, 2, 3]"] by (simp add: shell_read_def shell_new_def MAX_DATA_def)
  then have "editable [slash, 0x61] shell_new ?k"
    by (auto simp: shell_read_def read_at_def editable_def shell_new_def perm_def split: option.splits if_splits)
  with r show ?thesis
    using appends_build_log[of ?k shell_new "[slash, 0x61]" "[1, 2, 3]" "[ascii ''b'', ascii ''cd'']"] demo_file_fs(1)
    by (simp add: shell_new_def MAX_INODES_def ascii_def)
qed

text \<open>Every command line leaves the kernel well formed and the shell in an existing slot of the inode table.\<close>

lemma shell_keeps_invariant:
  assumes "sched_wf k" "next_pid k < next_pid k + 1" "sh_cwd s < MAX_INODES"
    "shell_round env ut ks hist s k = Some (k', hist', r, rest)"
  shows "sched_wf k' \<and> (case r of Continue s' \<Rightarrow> sh_cwd s' < MAX_INODES | Halted \<Rightarrow> True)"
proof -
  obtain line out k1 where "execute env ut (lb_as_str line) s k1 = (k', r)" "k1 = print_str out (print_prompt ut s k)"
    using assms(4) by (auto simp: shell_round_def Let_def split: option.splits prod.splits)
  then show ?thesis using execute_ok[of k1 s env ut "lb_as_str line"] assms(1-3) by (simp add: exec_ok_def print_prompt_def)
qed

end
