(* ===== verification/Console.thy ===== *)
theory Console
  imports RingBuf
begin

text \<open>
  \<^verbatim>\<open>kernel/src/boards/qemu_pc/console.rs\<close> (and its copy for VirtualBox): the text screen of 80 by 25 cells,
  mirrored to the serial port.  The cells, the two position statics, the cursor registers of the CRT
  controller and the bytes sent are the record \<open>vga\<close>.  The screen is shown to be a window on an
  unbounded page of lines (\<open>page\<close>): scrolling is a new line at the end of the page.
\<close>

unbundle bit_operations_syntax

definition WIDTH :: nat where "WIDTH = 80"
definition HEIGHT :: nat where "HEIGHT = 25"
definition ATTR :: u16 where "ATTR = 0x0700"

record vga =
  cells :: "u16 list"
  v_col :: nat
  v_row :: nat
  crtc_lo :: u8
  crtc_hi :: u8
  v_tx :: bytes

definition cell :: "u8 \<Rightarrow> u16" where
  "cell b = ATTR OR ucast b"

definition blank :: u16 where "blank = cell 0x20"

definition put_cell :: "nat \<Rightarrow> u16 \<Rightarrow> vga \<Rightarrow> vga" where
  "put_cell off c v = v\<lparr>cells := (cells v)[off := c]\<rparr>"

definition update_cursor :: "nat \<Rightarrow> vga \<Rightarrow> vga" where
  "update_cursor pos v =
     (let p = word_of_nat pos :: u16 in v\<lparr>crtc_lo := ucast (p AND 0xFF), crtc_hi := ucast (drop_bit 8 p AND 0xFF)\<rparr>)"

definition vga_clear :: "vga \<Rightarrow> vga" where
  "vga_clear v =
     (let v1 = fold (\<lambda>i. put_cell i blank) [0..<WIDTH * HEIGHT] v
      in update_cursor 0 (v1\<lparr>v_col := 0, v_row := 0\<rparr>))"

definition scroll :: "vga \<Rightarrow> vga" where
  "scroll v =
     (let v1 = fold (\<lambda>row v. fold (\<lambda>col v. put_cell ((row - 1) * WIDTH + col) (cells v ! (row * WIDTH + col)) v) [0..<WIDTH] v) [1..<HEIGHT] v
      in fold (\<lambda>col. put_cell ((HEIGHT - 1) * WIDTH + col) blank) [0..<WIDTH] v1)"

definition newline :: "vga \<Rightarrow> vga" where
  "newline v =
     (let v1 = v\<lparr>v_col := 0, v_row := v_row v + 1\<rparr>
      in if v_row v1 \<ge> HEIGHT then (scroll v1)\<lparr>v_row := HEIGHT - 1\<rparr> else v1)"

definition backspace :: "vga \<Rightarrow> vga" where
  "backspace v =
     (let v1 = (if v_col v > 0 then v\<lparr>v_col := v_col v - 1\<rparr>
                else if v_row v > 0 then v\<lparr>v_row := v_row v - 1, v_col := WIDTH - 1\<rparr>
                else v)
      in put_cell (v_row v1 * WIDTH + v_col v1) blank v1)"

definition serial_write_byte :: "u8 \<Rightarrow> vga \<Rightarrow> vga" where
  "serial_write_byte b v = v\<lparr>v_tx := v_tx v @ [b]\<rparr>"

definition print_byte :: "u8 \<Rightarrow> vga \<Rightarrow> vga" where
  "print_byte b v =
     (let v1 = serial_write_byte b (if b = 0x0A then serial_write_byte 0x0D v else v);
          v2 = (if b = 0x0A then newline v1
                else if b = 0x0D then v1\<lparr>v_col := 0\<rparr>
                else if b = 0x08 then backspace v1
                else let v3 = put_cell (v_row v1 * WIDTH + v_col v1) (cell b) v1;
                         v4 = v3\<lparr>v_col := v_col v3 + 1\<rparr>
                     in if v_col v4 \<ge> WIDTH then newline v4 else v4)
      in update_cursor (v_row v2 * WIDTH + v_col v2) v2)"

definition vga_print_str :: "bytes \<Rightarrow> vga \<Rightarrow> vga" where
  "vga_print_str s v = fold print_byte s v"

section \<open>Scrolling\<close>

lemma put_cells:
  "fold (\<lambda>i. put_cell (f i) c) xs v = v\<lparr>cells := fold (\<lambda>i cs. cs[f i := c]) xs (cells v)\<rparr>"
  by (induction xs arbitrary: v) (simp_all add: put_cell_def)

lemma fill_range: "a + n \<le> length cs \<Longrightarrow> fold (\<lambda>i cs. cs[a + i := c]) [0..<n] cs = take a cs @ replicate n c @ drop (a + n) cs"
proof (induction n)
  case (Suc n)
  then show ?case
    by (simp add: list_update_append replicate_append_same[symmetric] Cons_nth_drop_Suc[symmetric] del: drop_eq_nths)
qed simp

lemma move_row:
  assumes "a + n \<le> b" "b + n \<le> length cs"
  shows "fold (\<lambda>i cs. cs[a + i := cs ! (b + i)]) [0..<n] cs = take a cs @ take n (drop b cs) @ drop (a + n) cs"
  using assms
proof (induction n)
  case (Suc n)
  let ?x = "take a cs @ take n (drop b cs) @ drop (a + n) cs"
  have "?x ! (b + n) = cs ! (b + n)" using Suc.prems by (auto simp: nth_append add.commute)
  moreover have "?x[a + n := v] = take a cs @ (take n (drop b cs) @ [v]) @ drop (a + Suc n) cs" for v
    using Suc.prems by (simp add: list_update_append Cons_nth_drop_Suc[symmetric])
  moreover have "take (Suc n) (drop b cs) = take n (drop b cs) @ [cs ! (b + n)]" using Suc.prems by (simp add: take_Suc_conv_app_nth)
  ultimately show ?case using Suc by simp
qed simp

lemma move_rows:
  assumes "length cs = 2000" "m \<le> 24"
  shows "fold (\<lambda>row cs. fold (\<lambda>col cs. cs[(row - 1) * 80 + col := cs ! (row * 80 + col)]) [0..<80] cs) [1..<m + 1] cs
    = take (80 * m) (drop 80 cs) @ drop (80 * m) cs"
  using assms(2)
proof (induction m)
  case (Suc m)
  let ?x = "take (80 * m) (drop 80 cs) @ drop (80 * m) cs"
  have "fold (\<lambda>col cs. cs[m * 80 + col := cs ! (Suc m * 80 + col)]) [0..<80] ?x
      = take (m * 80) ?x @ take 80 (drop (Suc m * 80) ?x) @ drop (m * 80 + 80) ?x"
    by (rule move_row) (use assms(1) Suc.prems in simp_all)
  also have "\<dots> = take (80 * Suc m) (drop 80 cs) @ drop (80 * Suc m) cs"
    using assms(1) Suc.prems take_add[of "80 * m" 80 "drop 80 cs"] by (simp add: algebra_simps)
  finally show ?case using Suc by (simp add: add.commute)
qed simp

lemma put_rows:
  "fold (\<lambda>row v. fold (\<lambda>col v. put_cell (f row col) (cells v ! g row col) v) xs v) ys v
    = v\<lparr>cells := fold (\<lambda>row cs. fold (\<lambda>col cs. cs[f row col := cs ! g row col]) xs cs) ys (cells v)\<rparr>"
proof (induction ys arbitrary: v)
  case (Cons y ys)
  have "fold (\<lambda>col v. put_cell (f y col) (cells v ! g y col) v) xs v
      = v\<lparr>cells := fold (\<lambda>col cs. cs[f y col := cs ! g y col]) xs (cells v)\<rparr>" for v
    by (induction xs arbitrary: v) (simp_all add: put_cell_def)
  with Cons show ?case by simp
qed simp

lemma scroll_cells:
  assumes "length (cells v) = 2000"
  shows "scroll v = v\<lparr>cells := drop 80 (cells v) @ replicate 80 blank\<rparr>"
proof -
  have r: "[1..<25] = [1..<24 + 1]" by simp
  let ?x = "take 1920 (drop 80 (cells v)) @ drop 1920 (cells v)"
  have "fold (\<lambda>col cs. cs[1920 + col := blank]) [0..<80] ?x = take 1920 ?x @ replicate 80 blank @ drop (1920 + 80) ?x"
    by (rule fill_range) (use assms in simp)
  then show ?thesis
    using move_rows[of "cells v" 24] assms
    by (simp add: scroll_def put_cells put_rows Let_def WIDTH_def HEIGHT_def r del: upt_rec_numeral)
qed

lemma vga_clear_cells:
  assumes "length (cells v) = 2000"
  shows "vga_clear v = v\<lparr>cells := replicate 2000 blank, v_col := 0, v_row := 0, crtc_lo := 0, crtc_hi := 0\<rparr>"
  using fill_range[of 0 2000 "cells v" blank] assms
  by (simp add: vga_clear_def put_cells update_cursor_def Let_def WIDTH_def HEIGHT_def del: upt_rec_numeral)

section \<open>The page behind the screen\<close>

record page =
  p_lines :: "u16 list list"
  p_row :: nat
  p_col :: nat

definition page_top :: "page \<Rightarrow> nat" where
  "page_top p = length (p_lines p) - 25"

definition page_put :: "u16 \<Rightarrow> page \<Rightarrow> page" where
  "page_put c p = p\<lparr>p_lines := (p_lines p)[p_row p := (p_lines p ! p_row p)[p_col p := c]]\<rparr>"

definition page_newline :: "page \<Rightarrow> page" where
  "page_newline p =
     (let p1 = p\<lparr>p_row := p_row p + 1, p_col := 0\<rparr>
      in if p_row p1 = length (p_lines p) then p1\<lparr>p_lines := p_lines p @ [replicate 80 blank]\<rparr> else p1)"

definition page_left :: "page \<Rightarrow> page" where
  "page_left p =
     (if p_col p > 0 then p\<lparr>p_col := p_col p - 1\<rparr>
      else if p_row p > page_top p then p\<lparr>p_row := p_row p - 1, p_col := 79\<rparr>
      else p)"

definition page_byte :: "u8 \<Rightarrow> page \<Rightarrow> page" where
  "page_byte b p =
     (if b = 0x0A then page_newline p
      else if b = 0x0D then p\<lparr>p_col := 0\<rparr>
      else if b = 0x08 then page_put blank (page_left p)
      else let p1 = page_put (cell b) p in if p_col p = 79 then page_newline p1 else p1\<lparr>p_col := p_col p + 1\<rparr>)"

definition page_wf :: "page \<Rightarrow> bool" where
  "page_wf p \<longleftrightarrow> 25 \<le> length (p_lines p) \<and> list_all (\<lambda>l. length l = 80) (p_lines p) \<and> p_row p < length (p_lines p)
     \<and> page_top p \<le> p_row p \<and> p_col p < 80"

definition window :: "page \<Rightarrow> u16 list" where
  "window p = concat (drop (page_top p) (p_lines p))"

definition shows_page :: "vga \<Rightarrow> page \<Rightarrow> bool" where
  "shows_page v p \<longleftrightarrow> page_wf p \<and> cells v = window p \<and> v_col v = p_col p \<and> v_row v = p_row p - page_top p"

lemma concat_length: "list_all (\<lambda>l. length l = n) ls \<Longrightarrow> length (concat ls) = n * length ls"
  by (induction ls) simp_all

lemma concat_drop: "list_all (\<lambda>l. length l = n) ls \<Longrightarrow> drop n (concat ls) = concat (drop 1 ls)"
  by (cases ls) simp_all

lemma concat_update:
  "list_all (\<lambda>l. length l = n) ls \<Longrightarrow> r < length ls \<Longrightarrow> c < n \<Longrightarrow> (concat ls)[r * n + c := x] = concat (ls[r := (ls ! r)[c := x]])"
  by (induction ls arbitrary: r) (auto simp: list_update_append nth_Cons' split: nat.split)

lemma list_all_drop: "list_all P xs \<Longrightarrow> list_all P (drop n xs)"
  by (auto simp: list_all_iff dest: in_set_dropD)

lemma shows_bounds:
  assumes "shows_page v p"
  shows "length (cells v) = 2000" "v_row v < 25" "v_col v < 80"
proof -
  have wf: "page_wf p" using assms by (simp add: shows_page_def)
  then have "length (window p) = 80 * length (drop (page_top p) (p_lines p))"
    unfolding window_def by (intro concat_length list_all_drop) (simp add: page_wf_def)
  then show "length (cells v) = 2000" "v_row v < 25" "v_col v < 80"
    using assms wf by (auto simp: shows_page_def page_wf_def page_top_def)
qed

lemma shows_put:
  assumes "shows_page v p"
  shows "shows_page (put_cell (v_row v * WIDTH + v_col v) c v) (page_put c p)"
proof -
  have wf: "page_wf p" and w: "cells v = window p" and pos: "v_col v = p_col p" "v_row v = p_row p - page_top p"
    using assms by (simp_all add: shows_page_def)
  let ?ls = "drop (page_top p) (p_lines p)" and ?r = "p_row p - page_top p"
  have l: "list_all (\<lambda>l. length l = 80) ?ls" using wf by (intro list_all_drop) (simp add: page_wf_def)
  have r: "?r < length ?ls" "?ls ! ?r = p_lines p ! p_row p" "page_top p + ?r = p_row p"
    using wf by (auto simp: page_wf_def intro: diff_less_mono)
  have top: "page_top (page_put c p) = page_top p" by (simp add: page_top_def page_put_def)
  have "(window p)[?r * 80 + p_col p := c] = concat (?ls[?r := (?ls ! ?r)[p_col p := c]])"
    unfolding window_def by (rule concat_update) (use l r wf in \<open>simp_all add: page_wf_def\<close>)
  also have "?ls[?r := (?ls ! ?r)[p_col p := c]] = drop (page_top p) ((p_lines p)[p_row p := (p_lines p ! p_row p)[p_col p := c]])"
    using r(2,3) wf by (simp add: drop_update_swap page_wf_def)
  finally have "(window p)[?r * 80 + p_col p := c] = window (page_put c p)" by (simp add: window_def top) (simp add: page_put_def)
  moreover have "page_wf (page_put c p)"
    using wf top by (auto simp: page_wf_def page_put_def list_all_iff dest!: set_update_subset_insert[THEN subsetD])
  ultimately show ?thesis using w pos top by (simp add: shows_page_def put_cell_def WIDTH_def) (simp add: page_put_def)
qed

lemma shows_newline:
  assumes "shows_page v p"
  shows "shows_page (newline v) (page_newline p)"
proof -
  have wf: "page_wf p" and w: "cells v = window p" and pos: "v_row v = p_row p - page_top p"
    using assms by (simp_all add: shows_page_def)
  show ?thesis
  proof (cases "p_row p + 1 = length (p_lines p)")
    case True
    then have "v_row v + 1 = HEIGHT" using wf pos by (simp add: page_wf_def page_top_def HEIGHT_def)
    moreover have "drop 80 (window p) @ replicate 80 blank = concat (drop (page_top p + 1) (p_lines p @ [replicate 80 blank]))"
      using wf concat_drop[OF list_all_drop, of 80 "p_lines p" "page_top p"] by (simp add: window_def page_wf_def page_top_def)
    moreover have "page_top (page_newline p) = page_top p + 1" using True wf by (auto simp: page_newline_def page_top_def page_wf_def Let_def)
    ultimately show ?thesis
      using True wf w shows_bounds(1)[OF assms]
      by (simp add: shows_page_def newline_def page_newline_def Let_def scroll_cells window_def HEIGHT_def)
        (auto simp: page_wf_def page_top_def)
  next
    case False
    then have "v_row v + 1 < HEIGHT" using wf pos by (auto simp: page_wf_def page_top_def HEIGHT_def)
    then show ?thesis
      using False wf w pos by (auto simp: shows_page_def newline_def page_newline_def Let_def window_def page_wf_def page_top_def)
  qed
qed

lemma shows_left:
  assumes "shows_page v p"
  shows "shows_page (if v_col v > 0 then v\<lparr>v_col := v_col v - 1\<rparr>
      else if v_row v > 0 then v\<lparr>v_row := v_row v - 1, v_col := WIDTH - 1\<rparr> else v) (page_left p)"
  using assms by (auto simp: shows_page_def page_left_def page_wf_def page_top_def window_def WIDTH_def)

lemma shows_backspace: "shows_page v p \<Longrightarrow> shows_page (backspace v) (page_put blank (page_left p))"
  unfolding backspace_def Let_def by (rule shows_put[OF shows_left])

lemma shows_frame:
  "shows_page (serial_write_byte b v) p = shows_page v p" "shows_page (update_cursor n v) p = shows_page v p"
  by (simp_all add: shows_page_def serial_write_byte_def update_cursor_def Let_def)

lemma print_byte_shows:
  assumes "shows_page v p"
  shows "shows_page (print_byte b v) (page_byte b p)"
proof -
  let ?v = "serial_write_byte b (if b = 0x0A then serial_write_byte 0x0D v else v)"
  have s: "shows_page ?v p" using assms by (simp add: shows_frame)
  consider "b = 0x0A" | "b = 0x0D" | "b = 0x08" | "b \<noteq> 0x0A" "b \<noteq> 0x0D" "b \<noteq> 0x08" by blast
  then show ?thesis
  proof cases
    case 1
    with shows_newline[OF s] show ?thesis by (simp add: print_byte_def page_byte_def Let_def shows_frame)
  next
    case 2
    with s show ?thesis by (simp add: print_byte_def page_byte_def Let_def shows_frame)
        (auto simp: shows_page_def page_wf_def page_top_def window_def serial_write_byte_def)
  next
    case 3
    with shows_backspace[OF s] show ?thesis by (simp add: print_byte_def page_byte_def Let_def shows_frame)
  next
    case 4
    let ?w = "put_cell (v_row ?v * WIDTH + v_col ?v) (cell b) ?v"
    have w: "shows_page ?w (page_put (cell b) p)" by (rule shows_put[OF s])
    have c: "v_col ?w = p_col p" using s by (simp add: shows_page_def put_cell_def)
    show ?thesis
    proof (cases "p_col p = 79")
      case True
      have "newline (?w\<lparr>v_col := v_col ?w + 1\<rparr>) = newline ?w" by (simp add: newline_def Let_def)
      with 4 True c shows_newline[OF w] show ?thesis by (simp add: print_byte_def page_byte_def Let_def shows_frame WIDTH_def)
    next
      case False
      then have "shows_page (?w\<lparr>v_col := v_col ?w + 1\<rparr>) ((page_put (cell b) p)\<lparr>p_col := p_col p + 1\<rparr>)"
        using w c s by (auto simp: shows_page_def page_wf_def page_top_def window_def page_put_def)
      moreover have "v_col ?w + 1 < WIDTH" using False c s by (auto simp: shows_page_def page_wf_def WIDTH_def)
      ultimately show ?thesis using 4 False by (simp add: print_byte_def page_byte_def Let_def shows_frame)
    qed
  qed
qed

lemma newline_tx: "v_tx (newline v) = v_tx v"
  by (simp add: newline_def scroll_def put_cells put_rows Let_def)

lemma print_byte_tx: "v_tx (print_byte b v) = v_tx v @ serial_print_bytes [b]"
  by (simp add: print_byte_def Let_def update_cursor_def newline_tx backspace_def put_cell_def serial_write_byte_def)

lemma serial_print_bytes_append: "serial_print_bytes (a @ b) = serial_print_bytes a @ serial_print_bytes b"
  by (induction a) simp_all

definition cursor_pos :: "vga \<Rightarrow> nat" where
  "cursor_pos v = 256 * unat (crtc_hi v) + unat (crtc_lo v)"

lemma update_cursor_pos: "n < 65536 \<Longrightarrow> cursor_pos (update_cursor n v) = n"
proof -
  assume n: "n < 65536"
  have "(word_of_nat n :: u16) AND 0xFF = take_bit 8 (word_of_nat n)" "drop_bit 8 (word_of_nat n :: u16) AND 0xFF = take_bit 8 (drop_bit 8 (word_of_nat n))"
    by (simp_all add: take_bit_eq_mask mask_eq_exp_minus_1)
  moreover have "unat (word_of_nat n :: u16) = n" using n by (simp add: unsigned_of_nat take_bit_nat_eq_self_iff)
  ultimately show "cursor_pos (update_cursor n v) = n" using n
    by (simp add: cursor_pos_def update_cursor_def Let_def unsigned_ucast_eq unsigned_take_bit_eq unsigned_drop_bit_eq
        take_bit_eq_mod[of _ "_ :: nat"] drop_bit_eq_div[of _ "_ :: nat"] mult_div_mod_eq)
qed

lemma print_byte_cursor:
  assumes "shows_page v p"
  shows "cursor_pos (print_byte b v) = v_row (print_byte b v) * 80 + v_col (print_byte b v)"
proof -
  obtain w where w: "print_byte b v = update_cursor (v_row w * WIDTH + v_col w) w" by (simp add: print_byte_def Let_def)
  have "v_row w < 25" "v_col w < 80"
    using shows_bounds(2,3)[OF print_byte_shows[OF assms, of b]] by (simp_all add: w update_cursor_def Let_def)
  then have "v_row w * WIDTH + v_col w < 65536" by (simp add: WIDTH_def)
  from update_cursor_pos[OF this, of w] show ?thesis by (simp add: w) (simp add: update_cursor_def Let_def WIDTH_def)
qed

definition page_new :: page where
  "page_new = \<lparr>p_lines = replicate 25 (replicate 80 blank), p_row = 0, p_col = 0\<rparr>"

lemma vga_print_shows:
  assumes "shows_page v p" "cursor_pos v = v_row v * 80 + v_col v"
  shows "shows_page (vga_print_str s v) (fold page_byte s p)"
    "cursor_pos (vga_print_str s v) = v_row (vga_print_str s v) * 80 + v_col (vga_print_str s v)"
    "v_tx (vga_print_str s v) = v_tx v @ serial_print_bytes s"
proof -
  have "shows_page (vga_print_str s v) (fold page_byte s p) \<and> cursor_pos (vga_print_str s v) = v_row (vga_print_str s v) * 80 + v_col (vga_print_str s v)
    \<and> v_tx (vga_print_str s v) = v_tx v @ serial_print_bytes s"
    using assms
  proof (induction s arbitrary: v p)
    case (Cons b s)
    from Cons.IH[OF print_byte_shows[OF Cons.prems(1)] print_byte_cursor[OF Cons.prems(1)], of b] show ?case
      by (simp add: vga_print_str_def print_byte_tx)
  qed (simp add: vga_print_str_def)
  then show "shows_page (vga_print_str s v) (fold page_byte s p)"
    "cursor_pos (vga_print_str s v) = v_row (vga_print_str s v) * 80 + v_col (vga_print_str s v)"
    "v_tx (vga_print_str s v) = v_tx v @ serial_print_bytes s" by simp_all
qed

lemma vga_clear_shows:
  assumes "length (cells v) = 2000"
  shows "shows_page (vga_clear v) page_new" "cursor_pos (vga_clear v) = 0"
proof -
  have "concat (replicate n (replicate 80 blank)) = replicate (n * 80) blank" for n
    by (induction n) (simp_all add: replicate_add)
  then show "shows_page (vga_clear v) page_new" "cursor_pos (vga_clear v) = 0"
    using assms by (simp_all add: vga_clear_cells shows_page_def page_wf_def page_top_def window_def page_new_def cursor_pos_def
        list_all_iff)
qed

section \<open>Properties\<close>

text \<open>C28: Whatever is printed on the cleared console, the screen shows the last 25 lines of the page the text makes,
  with wrapping at column 80, carriage returns and backspaces; the position stays inside the screen and
  the hardware cursor is at it, and the serial port gets the same bytes with a carriage return before each line end.\<close>

theorem console_shows_page:
  assumes "length (cells v) = 2000" "w = vga_print_str s (vga_clear v)" "p = fold page_byte s page_new"
  shows "cells w = concat (drop (length (p_lines p) - 25) (p_lines p))
    \<and> v_row w < 25 \<and> v_col w < 80 \<and> v_row w = p_row p - (length (p_lines p) - 25) \<and> v_col w = p_col p
    \<and> cursor_pos w = v_row w * 80 + v_col w \<and> v_tx w = v_tx v @ serial_print_bytes s"
proof -
  have c: "cursor_pos (vga_clear v) = v_row (vga_clear v) * 80 + v_col (vga_clear v)" "v_tx (vga_clear v) = v_tx v"
    using vga_clear_shows(2)[OF assms(1)] assms(1) by (simp_all add: vga_clear_cells)
  note p = vga_print_shows[OF vga_clear_shows(1)[OF assms(1)] c(1), of s, folded assms(2,3)]
  show ?thesis using p shows_bounds[OF p(1)] c(2) by (simp add: shows_page_def window_def page_top_def)
qed

text \<open>Typing A, B, backspace, C and a line end on a screen full of other things.\<close>

definition demo_page :: page where
  "demo_page = \<lparr>p_lines = (cell 0x41 # cell 0x43 # replicate 78 blank) # replicate 24 (replicate 80 blank), p_row = 1, p_col = 0\<rparr>"

lemma demo_page: "fold page_byte [0x41, 0x42, 0x08, 0x43, 0x0A] page_new = demo_page"
proof -
  let ?l = "replicate 80 blank" and ?r = "replicate 24 (replicate 80 blank)"
  have l: "?l = blank # blank # replicate 78 blank" "replicate 25 ?l = ?l # ?r" by (simp_all add: numeral_eq_Suc)
  have 1: "page_byte 0x41 page_new = \<lparr>p_lines = (cell 0x41 # blank # replicate 78 blank) # ?r, p_row = 0, p_col = 1\<rparr>"
    unfolding page_new_def l(2) unfolding l(1) by (simp add: page_byte_def page_put_def)
  have 2: "page_byte 0x42 \<lparr>p_lines = (cell 0x41 # blank # replicate 78 blank) # ?r, p_row = 0, p_col = 1\<rparr>
      = \<lparr>p_lines = (cell 0x41 # cell 0x42 # replicate 78 blank) # ?r, p_row = 0, p_col = 2\<rparr>"
    by (simp add: page_byte_def page_put_def)
  have 3: "page_byte 0x08 \<lparr>p_lines = (cell 0x41 # cell 0x42 # replicate 78 blank) # ?r, p_row = 0, p_col = 2\<rparr>
      = \<lparr>p_lines = (cell 0x41 # blank # replicate 78 blank) # ?r, p_row = 0, p_col = 1\<rparr>"
    by (simp add: page_byte_def page_put_def page_left_def)
  have 4: "page_byte 0x43 \<lparr>p_lines = (cell 0x41 # blank # replicate 78 blank) # ?r, p_row = 0, p_col = 1\<rparr>
      = \<lparr>p_lines = (cell 0x41 # cell 0x43 # replicate 78 blank) # ?r, p_row = 0, p_col = 2\<rparr>"
    by (simp add: page_byte_def page_put_def)
  have 5: "page_byte 0x0A \<lparr>p_lines = (cell 0x41 # cell 0x43 # replicate 78 blank) # ?r, p_row = 0, p_col = 2\<rparr> = demo_page"
    by (simp add: page_byte_def page_newline_def demo_page_def Let_def)
  show ?thesis by (simp only: fold_simps 1 2 3 4 5)
qed

theorem console_shows_page_witness:
  "\<exists>w. w = vga_print_str [0x41, 0x42, 0x08, 0x43, 0x0A]
       (vga_clear \<lparr>cells = replicate 2000 0, v_col = 7, v_row = 9, crtc_lo = 1, crtc_hi = 2, v_tx = []\<rparr>)
   \<and> take 2 (cells w) = [cell 0x41, cell 0x43] \<and> cursor_pos w = 80 \<and> v_tx w = [0x41, 0x42, 0x08, 0x43, 0x0D, 0x0A]"
proof -
  let ?v = "\<lparr>cells = replicate 2000 0, v_col = 7, v_row = 9, crtc_lo = 1, crtc_hi = 2, v_tx = []\<rparr> :: vga"
  note t = console_shows_page[of ?v _ "[0x41, 0x42, 0x08, 0x43, 0x0A]" demo_page, OF _ refl demo_page[symmetric]]
  have "length (cells ?v) = 2000" by simp
  from t[OF this] show ?thesis by (simp add: demo_page_def)
qed

end
