(* ===== verification/Descriptors.thy ===== *)
theory Descriptors
  imports Prelude
begin

text \<open>
  The descriptor tables of \<^verbatim>\<open>kernel/src/arch/x86_64/gdt.rs\<close> and \<^verbatim>\<open>idt.rs\<close> as the structures the code fills in,
  next to what the processor reads out of them: segment bases and limits, the base of the task state
  segment, gate targets and privilege levels.  The addresses of the entry stubs are arguments.
\<close>

unbundle bit_operations_syntax

section \<open>Segments\<close>

record gdt_entry =
  limit_low :: u16
  base_low :: u16
  base_mid :: u8
  g_access :: u8
  gran :: u8
  base_high :: u8

definition gdt_null :: gdt_entry where
  "gdt_null = \<lparr>limit_low = 0, base_low = 0, base_mid = 0, g_access = 0, gran = 0, base_high = 0\<rparr>"

definition gdt_new :: "u32 \<Rightarrow> u32 \<Rightarrow> u8 \<Rightarrow> u8 \<Rightarrow> gdt_entry" where
  "gdt_new base limit acc gr =
     \<lparr>limit_low = ucast (limit AND 0xFFFF), base_low = ucast (base AND 0xFFFF), base_mid = ucast (drop_bit 16 base AND 0xFF),
      g_access = acc, gran = gr AND 0xF0 OR ucast (drop_bit 16 limit AND 0x0F), base_high = ucast (drop_bit 24 base AND 0xFF)\<rparr>"

definition GDT :: "gdt_entry list" where
  "GDT = [gdt_null, gdt_new 0 0xFFFFF 0x9A 0xA0, gdt_new 0 0xFFFFF 0x92 0xC0, gdt_new 0 0xFFFFF 0xF2 0xC0, gdt_new 0 0xFFFFF 0xFA 0xA0]"

text \<open>The packed structure as the 64-bit word that \<^verbatim>\<open>read_unaligned\<close> copies.\<close>

definition gdt_raw :: "gdt_entry \<Rightarrow> u64" where
  "gdt_raw e = ucast (limit_low e) OR push_bit 16 (ucast (base_low e)) OR push_bit 32 (ucast (base_mid e))
     OR push_bit 40 (ucast (g_access e)) OR push_bit 48 (ucast (gran e)) OR push_bit 56 (ucast (base_high e))"

text \<open>\<^verbatim>\<open>size_of::<Tss>()\<close> of the packed structure is 104.\<close>

definition tss_lo :: "u64 \<Rightarrow> u64" where
  "tss_lo tss_base =
     (let tss_limit = 104 - 1 in
      push_bit 16 (tss_base AND 0xFFFFFF) OR (tss_limit AND 0xFFFF) OR push_bit 40 0x89
      OR push_bit 56 (drop_bit 24 tss_base AND 0xFF) OR push_bit 48 (drop_bit 16 tss_limit))"

definition tss_hi :: "u64 \<Rightarrow> u64" where
  "tss_hi tss_base = drop_bit 32 tss_base AND 0xFFFFFFFFFF"

definition gdt_init :: "u64 \<Rightarrow> u64 list" where
  "gdt_init tss_base = map gdt_raw GDT @ [tss_lo tss_base, tss_hi tss_base]"

definition KERNEL_CODE_SEL :: u16 where "KERNEL_CODE_SEL = 0x08"
definition KERNEL_DATA_SEL :: u16 where "KERNEL_DATA_SEL = 0x10"

text \<open>What the processor takes from a descriptor.\<close>

definition seg_base :: "u64 \<Rightarrow> u64" where
  "seg_base d = take_bit 24 (drop_bit 16 d) OR push_bit 24 (take_bit 8 (drop_bit 56 d))"

definition seg_limit :: "u64 \<Rightarrow> u64" where
  "seg_limit d = take_bit 16 d OR push_bit 16 (take_bit 4 (drop_bit 48 d))"

definition seg_dpl :: "u64 \<Rightarrow> u64" where
  "seg_dpl d = take_bit 2 (drop_bit 45 d)"

definition sys_base :: "u64 \<Rightarrow> u64 \<Rightarrow> u64" where
  "sys_base lo hi = seg_base lo OR push_bit 32 (take_bit 32 hi)"

section \<open>Gates\<close>

record idt_entry =
  offset_low :: u16
  selector :: u16
  ist :: u8
  type_attr :: u8
  offset_mid :: u16
  offset_high :: u32
  id_reserved :: u32

definition idt_missing :: idt_entry where
  "idt_missing = \<lparr>offset_low = 0, selector = 0, ist = 0, type_attr = 0, offset_mid = 0, offset_high = 0, id_reserved = 0\<rparr>"

definition idt_set :: "u64 \<Rightarrow> u16 \<Rightarrow> u8 \<Rightarrow> u8 \<Rightarrow> idt_entry \<Rightarrow> idt_entry" where
  "idt_set handler sel is attr e =
     e\<lparr>offset_low := ucast (handler AND 0xFFFF), offset_mid := ucast (drop_bit 16 handler AND 0xFFFF),
       offset_high := ucast (drop_bit 32 handler), selector := sel, ist := is, type_attr := attr, id_reserved := 0\<rparr>"

definition idt_init :: "u64 list \<Rightarrow> u64 \<Rightarrow> u64 \<Rightarrow> idt_entry list \<Rightarrow> idt_entry list" where
  "idt_init handlers isr_ignore isr128 idt =
     (let idt = fold (\<lambda>i. upd_nth i (idt_set (handlers ! i) 0x08 0 0x8E)) [0..<length handlers] idt;
          idt = fold (\<lambda>i. upd_nth i (idt_set isr_ignore 0x08 0 0x8E)) [48..<256] idt
      in upd_nth 0x80 (idt_set isr128 0x08 0 0xEF) idt)"

definition gate_target :: "idt_entry \<Rightarrow> u64" where
  "gate_target e = ucast (offset_low e) OR push_bit 16 (ucast (offset_mid e)) OR push_bit 32 (ucast (offset_high e))"

definition gate_dpl :: "idt_entry \<Rightarrow> u8" where
  "gate_dpl e = take_bit 2 (drop_bit 5 (type_attr e))"

section \<open>Lemmas\<close>

lemma and_masks:
  "(x :: u64) AND 0xFFFF = take_bit 16 x" "(x :: u64) AND 0xFF = take_bit 8 x" "(x :: u64) AND 0xFFFFFF = take_bit 24 x"
  "(x :: u64) AND 0xFFFFFFFFFF = take_bit 40 x"
  by (simp_all add: take_bit_eq_mask mask_eq_exp_minus_1)

lemma gate_target_set: "gate_target (idt_set h sel is attr e) = h"
proof (rule bit_word_eqI)
  show "n < LENGTH(64) \<Longrightarrow> bit (gate_target (idt_set h sel is attr e)) n = bit h n" for n
    by (cases "n < 16"; cases "n < 32") (auto simp: gate_target_def idt_set_def bit_simps and_masks)
qed

lemma small_bits:
  "bit (0x89 :: u64) n \<Longrightarrow> n < 8" "bit (103 :: u64) n \<Longrightarrow> n < 7"
proof -
  have "take_bit 8 (0x89 :: u64) = 0x89" "take_bit 7 (103 :: u64) = 103" by simp_all
  then show "bit (0x89 :: u64) n \<Longrightarrow> n < 8" "bit (103 :: u64) n \<Longrightarrow> n < 7"
    by (metis bit_take_bit_iff)+
qed

lemma seg_base_tss: "seg_base (tss_lo b) = take_bit 32 b"
proof (rule bit_word_eqI)
  show "n < LENGTH(64) \<Longrightarrow> bit (seg_base (tss_lo b)) n = bit (take_bit 32 b) n" for n
    by (cases "n < 24"; cases "n < 32") (auto simp: seg_base_def tss_lo_def Let_def bit_simps and_masks dest: small_bits)
qed

lemma tss_base_roundtrip: "sys_base (tss_lo b) (tss_hi b) = b"
proof (rule bit_word_eqI)
  show "n < LENGTH(64) \<Longrightarrow> bit (sys_base (tss_lo b) (tss_hi b)) n = bit b n" for n
    by (cases "n < 32") (auto simp: sys_base_def seg_base_tss tss_hi_def bit_simps and_masks)
qed

lemma fold_set_length [simp]: "length (fold (\<lambda>i. upd_nth i (f i)) xs idt) = length idt"
  by (induction xs arbitrary: idt) simp_all

lemma fold_set_nth:
  "i < length idt \<Longrightarrow> fold (\<lambda>i. upd_nth i (f i)) [a..<b] idt ! i = (if a \<le> i \<and> i < b then f i (idt ! i) else idt ! i)"
proof (induction b)
  case (Suc b)
  then show ?case by (cases "a \<le> b"; cases "i = b") auto
qed simp

text \<open>Every vector has a present gate to the kernel code segment; exceptions and interrupts go to their own stub,
  and only the system call vector can be raised from user mode.\<close>

lemma idt_init_gates:
  assumes "length handlers = 48" "v < 256"
  shows "gate_target (idt_init handlers ign sys (replicate 256 idt_missing) ! v) = (if v < 48 then handlers ! v else if v = 0x80 then sys else ign)"
    "selector (idt_init handlers ign sys (replicate 256 idt_missing) ! v) = 0x08"
    "bit (type_attr (idt_init handlers ign sys (replicate 256 idt_missing) ! v)) 7"
    "gate_dpl (idt_init handlers ign sys (replicate 256 idt_missing) ! v) = (if v = 0x80 then 3 else 0)"
proof -
  have e: "idt_init handlers ign sys idt ! v = (if v = 0x80 then idt_set sys 0x08 0 0xEF (idt_set ign 0x08 0 0x8E (idt ! v))
      else if v < 48 then idt_set (handlers ! v) 0x08 0 0x8E (idt ! v) else idt_set ign 0x08 0 0x8E (idt ! v))"
    if "length idt = 256" for idt
    unfolding idt_init_def Let_def using assms that by (auto simp: fold_set_nth simp del: upt_rec_numeral)
  note g = e[of "replicate 256 idt_missing", OF length_replicate]
  show "gate_target (idt_init handlers ign sys (replicate 256 idt_missing) ! v) = (if v < 48 then handlers ! v else if v = 0x80 then sys else ign)"
    unfolding g by (simp add: gate_target_set)
  show "selector (idt_init handlers ign sys (replicate 256 idt_missing) ! v) = 0x08"
      "bit (type_attr (idt_init handlers ign sys (replicate 256 idt_missing) ! v)) 7"
      "gate_dpl (idt_init handlers ign sys (replicate 256 idt_missing) ! v) = (if v = 0x80 then 3 else 0)"
    unfolding g by (simp_all add: idt_set_def gate_dpl_def)
qed

text \<open>The selectors that \<^verbatim>\<open>sysretq\<close> derives from STAR name the user descriptors of the table.\<close>

lemma gdt_user_segments:
  "seg_dpl (gdt_init b ! 3) = 3" "seg_dpl (gdt_init b ! 4) = 3" "seg_dpl (gdt_init b ! 1) = 0" "seg_dpl (gdt_init b ! 2) = 0"
  by (simp_all add: gdt_init_def GDT_def gdt_new_def gdt_raw_def seg_dpl_def gdt_null_def)

lemma gdt_flat: "list_all (\<lambda>e. seg_base (gdt_raw e) = 0 \<and> seg_limit (gdt_raw e) = 0xFFFFF) (tl GDT)"
  by (simp add: GDT_def gdt_new_def gdt_raw_def seg_base_def seg_limit_def)

end
