(* ===== verification/Sv39.thy ===== *)
theory Sv39
  imports Paging
begin

text \<open>
  \<^verbatim>\<open>kernel/src/arch/riscv64/paging.rs\<close>: three-level Sv39 tables, the second format of the page-table library.
  The four gibibytes of the kernel are huge-page leaves of the root; user addresses start at its entry 4.
  \<open>sv_translate\<close> is the page walk of the processor, with the encodings that it refuses (writable without
  readable, a pointer at the last level, a misaligned huge page).  The bits above the page number, which the
  kernel's entries never set, and the check that an address is canonical are left out.
\<close>

section \<open>Entries\<close>

definition PAGE_V :: u64 where "PAGE_V = 1"
definition PAGE_R :: u64 where "PAGE_R = 2"
definition PAGE_W :: u64 where "PAGE_W = 4"
definition PAGE_X :: u64 where "PAGE_X = 8"
definition PAGE_U :: u64 where "PAGE_U = 16"
definition PAGE_A :: u64 where "PAGE_A = 64"
definition PAGE_D :: u64 where "PAGE_D = 128"

lemmas page_bits_defs = PAGE_V_def PAGE_R_def PAGE_W_def PAGE_X_def PAGE_U_def PAGE_A_def PAGE_D_def

definition rv_USER_CODE_VA :: nat where "rv_USER_CODE_VA = 0x100001000"
definition rv_USER_STACK_TOP :: nat where "rv_USER_STACK_TOP = 0x100010000"

definition rv_valid :: "u64 \<Rightarrow> bool" where
  "rv_valid e \<longleftrightarrow> e AND PAGE_V \<noteq> 0"

definition rv_leaf :: "u64 \<Rightarrow> bool" where
  "rv_leaf e \<longleftrightarrow> e AND (PAGE_R OR PAGE_W OR PAGE_X) \<noteq> 0"

definition rv_addr :: "u64 \<Rightarrow> nat" where
  "rv_addr e = unat (push_bit 12 (drop_bit 10 e))"

text \<open>\<^verbatim>\<open>((a as u64) >> 12 << 10) | flags\<close>\<close>

definition rv_entry :: "nat \<Rightarrow> u64 \<Rightarrow> u64" where
  "rv_entry a flags = push_bit 10 (drop_bit 12 (word_of_nat a)) OR flags"

definition rv_table :: "nat \<Rightarrow> u64" where
  "rv_table t = rv_entry t PAGE_V"

definition sv39_format :: pt_format where
  "sv39_format = \<lparr>pf_present = rv_valid, pf_leaf = rv_leaf, pf_addr = rv_addr, pf_table = rv_table,
     pf_depth = 2, pf_plain_top = False\<rparr>"

section \<open>Operations\<close>

definition rv_KERNEL :: u64 where
  "rv_KERNEL = PAGE_V OR PAGE_R OR PAGE_W OR PAGE_X OR PAGE_A OR PAGE_D"

text \<open>\<^verbatim>\<open>switch_address_space\<close>: the value that goes to \<^verbatim>\<open>satp\<close>.\<close>

definition rv_satp :: "nat \<Rightarrow> u64" where
  "rv_satp root = push_bit 60 8 OR drop_bit 12 (word_of_nat root)"

definition rv_paging_init :: "nat \<Rightarrow> mem \<Rightarrow> mem \<times> u64" where
  "rv_paging_init root m =
     (fold (\<lambda>i. wr64 (root + 8 * i) (push_bit 10 (push_bit 18 (word_of_nat i)) OR rv_KERNEL)) [0..<4] m, rv_satp root)"

definition rv_page_flags :: "u32 \<Rightarrow> u64" where
  "rv_page_flags prot =
     PAGE_V OR PAGE_A OR PAGE_D OR (if prot AND PROT_READ \<noteq> 0 then PAGE_R else 0)
       OR (if prot AND PROT_WRITE \<noteq> 0 then PAGE_W else 0) OR (if prot AND PROT_EXEC \<noteq> 0 then PAGE_X else 0)
       OR (if prot AND PROT_USER \<noteq> 0 then PAGE_U else 0)"

definition vpn :: "nat \<Rightarrow> nat list" where
  "vpn va = [va div 2 ^ 30 mod 512, va div 2 ^ 21 mod 512, va div 2 ^ 12 mod 512]"

definition rv_map_user_page :: "nat \<Rightarrow> nat \<Rightarrow> nat \<Rightarrow> u32 \<Rightarrow> mem \<Rightarrow> mem \<times> bool" where
  "rv_map_user_page root va pa prot m =
     (if hd (vpn va) < 4 then (m, False)
      else map_path sv39_format root (vpn va) (rv_entry pa (rv_page_flags prot)) m)"

text \<open>The entries of the kernel's root, at the address \<open>kroot\<close>, are shared by all address spaces.\<close>

definition rv_share_kernel :: "nat \<Rightarrow> nat \<Rightarrow> mem \<Rightarrow> mem" where
  "rv_share_kernel kroot root = fold (\<lambda>i m. wr64 (root + 8 * i) (rd64 m (kroot + 8 * i)) m) [0..<4]"

definition rv_create_empty_process_page_table :: "nat \<Rightarrow> mem \<Rightarrow> mem \<times> nat option" where
  "rv_create_empty_process_page_table kroot m =
     (case alloc_pages 1 m of
        (m1, None) \<Rightarrow> (m1, None)
      | (m1, Some root) \<Rightarrow> (rv_share_kernel kroot root (zero_page root m1), Some root))"

definition rv_create_process_page_table :: "nat \<Rightarrow> nat \<Rightarrow> nat \<Rightarrow> mem \<Rightarrow> mem \<times> nat option" where
  "rv_create_process_page_table kroot code_phys stack_phys m =
     (case alloc_pages 1 m of (m1, None) \<Rightarrow> (m1, None) | (m1, Some root) \<Rightarrow>
     (case alloc_pages 1 m1 of (m2, None) \<Rightarrow> (m2, None) | (m2, Some l1) \<Rightarrow>
     (case alloc_pages 1 m2 of (m3, None) \<Rightarrow> (m3, None) | (m3, Some l0) \<Rightarrow>
        let z = rv_share_kernel kroot root (zero_page l0 (zero_page l1 (zero_page root m3)));
            a = wr64 l1 (rv_table l0) (wr64 (root + 8 * 4) (rv_table l1) z);
            b = wr64 (l0 + 8 * (rv_USER_CODE_VA div 2 ^ 12 mod 512))
                  (rv_entry code_phys (PAGE_V OR PAGE_R OR PAGE_W OR PAGE_X OR PAGE_U OR PAGE_A OR PAGE_D)) a
        in (wr64 (l0 + 8 * ((rv_USER_STACK_TOP - 4096) div 2 ^ 12 mod 512))
              (rv_entry stack_phys (PAGE_V OR PAGE_R OR PAGE_W OR PAGE_U OR PAGE_A OR PAGE_D)) b, Some root))))"

definition sv39_clone :: clone_format where
  "sv39_clone = \<lparr>cl_fmt = sv39_format, cl_inner = (\<lambda>_. rv_table), cl_page = (\<lambda>e t. rv_entry t (e AND 0x3FF))\<rparr>"

definition rv_clone_user_page_table :: "nat \<Rightarrow> mem \<Rightarrow> mem \<times> nat option" where
  "rv_clone_user_page_table src m = clone_root sv39_clone 4 3 src m"

definition rv_protect_guard_page :: "nat \<Rightarrow> bool" where
  "rv_protect_guard_page phys = False"

section \<open>The page walk\<close>

definition sv_leaf_addr :: "u64 \<Rightarrow> nat \<Rightarrow> nat \<Rightarrow> nat option" where
  "sv_leaf_addr e s va =
     (if e AND PAGE_W \<noteq> 0 \<and> e AND PAGE_R = 0 \<or> e AND PAGE_R = 0 \<and> e AND PAGE_X = 0 \<or> rv_addr e mod 2 ^ s \<noteq> 0 then None
      else Some (rv_addr e + va mod 2 ^ s))"

definition sv_translate :: "mem \<Rightarrow> nat \<Rightarrow> nat \<Rightarrow> nat option" where
  "sv_translate m root va =
     (let e2 = rd64 m (root + 8 * (va div 2 ^ 30 mod 512)) in
      if \<not> rv_valid e2 then None
      else if rv_leaf e2 then sv_leaf_addr e2 30 va
      else let e1 = rd64 m (rv_addr e2 + 8 * (va div 2 ^ 21 mod 512)) in
      if \<not> rv_valid e1 then None
      else if rv_leaf e1 then sv_leaf_addr e1 21 va
      else let e0 = rd64 m (rv_addr e1 + 8 * (va div 2 ^ 12 mod 512)) in
      if \<not> rv_valid e0 then None else sv_leaf_addr e0 12 va)"

section \<open>Laws of the format\<close>

lemma sv39_simps [simp]:
  "pf_present sv39_format = rv_valid" "pf_leaf sv39_format = rv_leaf" "pf_addr sv39_format = rv_addr"
  "pf_table sv39_format = rv_table" "pf_depth sv39_format = 2" "\<not> pf_plain_top sv39_format"
  "cl_fmt sv39_clone = sv39_format" "cl_inner sv39_clone = (\<lambda>_. rv_table)" "cl_page sv39_clone = (\<lambda>e t. rv_entry t (e AND 0x3FF))"
  by (simp_all add: sv39_format_def sv39_clone_def)

lemma mask_1023: "(0x3FF :: u64) = mask 10"
  by (simp add: mask_numeral)

text \<open>The flags of an entry are its low ten bits, the page number is above them.\<close>

lemma rv_entry_low: "n < 10 \<Longrightarrow> bit (rv_entry a f) n = bit f n"
  by (simp add: rv_entry_def bit_or_iff bit_push_bit_iff)

lemma rv_entry_addr [simp]:
  assumes "4096 dvd a" "a < 2 ^ 64" "f AND NOT 0x3FF = 0"
  shows "rv_addr (rv_entry a f) = a"
proof -
  let ?w = "word_of_nat a :: u64"
  have f: "\<not> bit f n" if "10 \<le> n" "n < 64" for n
  proof -
    have "bit (NOT 0x3FF :: u64) n" using that by (simp add: mask_1023 bit_not_iff bit_mask_iff del: mask_numeral)
    then show ?thesis using assms(3) by (metis bit_and_iff bit_0_eq bot_apply bot_bool_def)
  qed
  have "push_bit 12 (drop_bit 10 (rv_entry a f)) = ?w"
  proof (rule bit_word_eqI)
    fix n assume n: "n < LENGTH(64)"
    have "bit ?w n \<longrightarrow> 12 \<le> n" using page_bits[OF assms(1), of n] by (meson not_le)
    then show "bit (push_bit 12 (drop_bit 10 (rv_entry a f))) n = bit ?w n"
      using n f[of "n - 2"] by (auto simp: rv_entry_def bit_simps)
  qed
  with assms(2) show ?thesis by (simp add: rv_addr_def unat_of_nat)
qed

lemma and_flag: "(e :: u64) AND 1 \<noteq> 0 \<longleftrightarrow> bit e 0" "e AND 2 \<noteq> 0 \<longleftrightarrow> bit e 1" "e AND 4 \<noteq> 0 \<longleftrightarrow> bit e 2" "e AND 8 \<noteq> 0 \<longleftrightarrow> bit e 3"
  using and_exp_eq_0_iff_not_bit[of e 0] and_exp_eq_0_iff_not_bit[of e 1] and_exp_eq_0_iff_not_bit[of e 2] and_exp_eq_0_iff_not_bit[of e 3]
  by simp_all

lemma rv_flag_bits:
  "rv_valid e \<longleftrightarrow> bit e 0" "rv_leaf e \<longleftrightarrow> bit e 1 \<or> bit e 2 \<or> bit e 3"
  "e AND PAGE_R \<noteq> 0 \<longleftrightarrow> bit e 1" "e AND PAGE_W \<noteq> 0 \<longleftrightarrow> bit e 2" "e AND PAGE_X \<noteq> 0 \<longleftrightarrow> bit e 3"
proof -
  show "rv_valid e \<longleftrightarrow> bit e 0" by (simp only: rv_valid_def PAGE_V_def and_flag)
  show f: "e AND PAGE_R \<noteq> 0 \<longleftrightarrow> bit e 1" "e AND PAGE_W \<noteq> 0 \<longleftrightarrow> bit e 2" "e AND PAGE_X \<noteq> 0 \<longleftrightarrow> bit e 3"
    by (simp_all only: PAGE_R_def PAGE_W_def PAGE_X_def and_flag)
  have "e AND (PAGE_R OR PAGE_W OR PAGE_X) = 0 \<longleftrightarrow> e AND PAGE_R = 0 \<and> e AND PAGE_W = 0 \<and> e AND PAGE_X = 0"
    by (auto simp: bit_eq_iff bit_and_iff bit_or_iff)
  with f show "rv_leaf e \<longleftrightarrow> bit e 1 \<or> bit e 2 \<or> bit e 3" unfolding rv_leaf_def by blast
qed

lemma rv_valid_0 [simp]: "\<not> rv_valid 0"
  by (simp add: rv_flag_bits)

lemma rv_table_entry [simp]:
  assumes "4096 dvd t" "t < 2 ^ 64"
  shows "rv_addr (rv_table t) = t" "rv_valid (rv_table t)" "\<not> rv_leaf (rv_table t)"
  using rv_entry_addr[OF assms, of PAGE_V] rv_entry_low[of _ t PAGE_V] by (simp_all add: rv_table_def rv_flag_bits PAGE_V_def)

lemma rv_copy_entry [simp]:
  assumes "4096 dvd t" "t < 2 ^ 64"
  shows "rv_addr (rv_entry t (e AND 0x3FF)) = t" "rv_valid (rv_entry t (e AND 0x3FF)) = rv_valid e"
proof -
  show "rv_addr (rv_entry t (e AND 0x3FF)) = t" by (rule rv_entry_addr[OF assms]) (simp add: and.assoc)
  show "rv_valid (rv_entry t (e AND 0x3FF)) = rv_valid e" by (simp add: rv_flag_bits rv_entry_low bit_and_iff)
qed

interpretation sv39: page_format sv39_format
  by unfold_locales simp_all

interpretation sv39c: page_clone sv39_clone
  by unfold_locales simp_all

lemma vpn_full [simp]: "full_path sv39_format (vpn va)"
  by (simp add: full_path_def vpn_def)

lemma sv_translate_walk:
  "sv_translate m root va = Option.bind (walk sv39_format m root (vpn va)) (\<lambda>(e, n). sv_leaf_addr e (12 + 9 * n) va)"
  unfolding sv_translate_def vpn_def walk.simps Let_def by simp

section \<open>Mapping\<close>

definition prot_usable :: "u32 \<Rightarrow> bool" where
  "prot_usable prot \<longleftrightarrow> prot AND PROT_READ \<noteq> 0 \<or> prot AND PROT_WRITE = 0 \<and> prot AND PROT_EXEC \<noteq> 0"

lemma rv_flags_entry:
  assumes "4096 dvd pa" "pa < 2 ^ 64"
  shows "rv_addr (rv_entry pa (rv_page_flags prot)) = pa" "rv_valid (rv_entry pa (rv_page_flags prot))"
    "sv_leaf_addr (rv_entry pa (rv_page_flags prot)) 12 va = (if prot_usable prot then Some (pa + va mod 4096) else None)"
proof -
  let ?f = "rv_page_flags prot"
  show a: "rv_addr (rv_entry pa ?f) = pa"
    by (rule rv_entry_addr[OF assms]) (simp add: rv_page_flags_def page_bits_defs)
  show "rv_valid (rv_entry pa ?f)" by (simp add: rv_flag_bits rv_entry_low rv_page_flags_def page_bits_defs)
  have "bit ?f 1 \<longleftrightarrow> prot AND PROT_READ \<noteq> 0" "bit ?f 2 \<longleftrightarrow> prot AND PROT_WRITE \<noteq> 0" "bit ?f 3 \<longleftrightarrow> prot AND PROT_EXEC \<noteq> 0"
    by (simp_all add: rv_page_flags_def page_bits_defs)
  then show "sv_leaf_addr (rv_entry pa ?f) 12 va = (if prot_usable prot then Some (pa + va mod 4096) else None)"
    using assms rv_flag_bits(3-5)[of "rv_entry pa ?f"] by (auto simp: sv_leaf_addr_def a rv_entry_low prot_usable_def)
qed

lemma rv_map_user_page_maps:
  assumes T: "tree sv39_format m root" and ok: "rv_map_user_page root va pa prot m = (m', True)" and pa: "4096 dvd pa" "pa < 2 ^ 64"
  shows "tree sv39_format m' root"
    "sv_translate m' root va = (if prot_usable prot then Some (pa + va mod 4096) else None)"
    "vpn va' \<noteq> vpn va \<Longrightarrow> sv_translate m' root va' = sv_translate m root va'"
proof -
  let ?e = "rv_entry pa (rv_page_flags prot)"
  from ok have "map_path sv39_format root (vpn va) ?e m = (m', True)"
    by (simp add: rv_map_user_page_def split: if_splits)
  note M = sv39.map_path_ok[OF T vpn_full _ this]
  show "tree sv39_format m' root" by (rule M(1)) simp
  have "walk sv39_format m' root (vpn va) = Some (?e, 0)" by (rule M(2)) (simp_all add: rv_flags_entry[OF pa])
  then show "sv_translate m' root va = (if prot_usable prot then Some (pa + va mod 4096) else None)"
    by (simp add: sv_translate_walk rv_flags_entry[OF pa])
  show "sv_translate m' root va' = sv_translate m root va'" if "vpn va' \<noteq> vpn va"
    using M(3)[OF _ vpn_full that] by (simp add: sv_translate_walk)
qed

section \<open>Copying an address space\<close>

lemma rv_clone_walks:
  assumes "tree sv39_format m root" "pages_used sv39_format m root" "rv_clone_user_page_table root m = (m', Some new)" "full_path sv39_format p"
  shows "walk sv39_format m' root p = walk sv39_format m root p"
    "hd p < 4 \<Longrightarrow> walk sv39_format m' new p = walk sv39_format m root p"
    "4 \<le> hd p \<Longrightarrow> case walk sv39_format m root p of
        None \<Rightarrow> walk sv39_format m' new p = None
      | Some (e, l) \<Rightarrow> \<exists>e'. walk sv39_format m' new p = Some (e', l)
          \<and> (if l = 0 then page_dup sv39_clone m m' (free_mem (m_pmm m) - free_mem (m_pmm m')) e e' else e' = e)"
proof -
  have r: "clone_root sv39_clone 4 (Suc 2) root m = (m', Some new)" using assms(3) by (simp add: rv_clone_user_page_table_def)
  note W = sv39c.clone_root_walks[unfolded sv39_simps(7), OF assms(1,2) sv39_simps(5) _ r assms(4)]
  show "walk sv39_format m' root p = walk sv39_format m root p" by (rule W(1)) simp
  show "walk sv39_format m' new p = walk sv39_format m root p" if "hd p < 4" by (rule W(2)) (use that in simp_all)
  show "case walk sv39_format m root p of
        None \<Rightarrow> walk sv39_format m' new p = None
      | Some (e, l) \<Rightarrow> \<exists>e'. walk sv39_format m' new p = Some (e', l)
          \<and> (if l = 0 then page_dup sv39_clone m m' (free_mem (m_pmm m) - free_mem (m_pmm m')) e e' else e' = e)" if "4 \<le> hd p"
    by (rule W(3)) (use that in simp_all)
qed

lemma rv_clone_frame:
  assumes "tree sv39_format m root" "pages_used sv39_format m root" "rv_clone_user_page_table root m = (m', Some new)"
  shows "tree sv39_format m' root" "x \<notin> free_mem (m_pmm m) \<Longrightarrow> m_store m' x = m_store m x"
proof -
  have r: "clone_root sv39_clone 4 (Suc 2) root m = (m', Some new)" using assms(3) by (simp add: rv_clone_user_page_table_def)
  note R = sv39c.clone_root_copies[unfolded sv39_simps(7), OF assms(1,2) sv39_simps(5) _ r]
  have R': "alloc_ok m'" "free_mem (m_pmm m') \<subseteq> free_mem (m_pmm m)" "\<And>x. x \<notin> free_mem (m_pmm m) \<Longrightarrow> m_store m' x = m_store m x"
    by (rule R(1), simp, rule R(2), simp, rule R(4), simp_all)
  show "tree sv39_format m' root" by (rule tree_free[OF assms(1) R'(3,1,2)])
  show "m_store m' x = m_store m x" if "x \<notin> free_mem (m_pmm m)" by (rule R'(3)[OF that])
qed

text \<open>A copied page entry has the permissions of the original.\<close>

lemma page_dup_leaf:
  assumes c: "page_dup sv39_clone m m' A e e'" and v: "sv_leaf_addr e 12 va = Some pa"
  shows "sv_leaf_addr e' 12 va = Some (rv_addr e' + va mod 4096)" "pa = rv_addr e + va mod 4096"
    "rv_addr e' + va mod 4096 \<in> A" "m_store m' (rv_addr e' + va mod 4096) = m_store m pa"
proof -
  have e': "e' = rv_entry (rv_addr e') (e AND 0x3FF)" and p: "{rv_addr e'..<rv_addr e' + 4096} \<subseteq> A"
    and s: "\<And>x. x < 4096 \<Longrightarrow> m_store m' (rv_addr e' + x) = m_store m (rv_addr e + x)"
    using c by (auto simp: page_dup_def Let_def)
  have "bit e' n = bit e n" if "n < 10" for n
    by (subst e') (use that in \<open>simp add: rv_entry_low bit_and_iff mask_1023 bit_mask_iff del: mask_numeral\<close>)
  then have f: "e' AND PAGE_R = 0 \<longleftrightarrow> e AND PAGE_R = 0" "e' AND PAGE_W = 0 \<longleftrightarrow> e AND PAGE_W = 0" "e' AND PAGE_X = 0 \<longleftrightarrow> e AND PAGE_X = 0"
    using rv_flag_bits(3-5)[of e] rv_flag_bits(3-5)[of e'] by auto
  have "rv_addr e' mod 2 ^ 12 = 0"
  proof -
    have "take_bit 12 (push_bit 12 (drop_bit 10 e') :: u64) = 0" by (simp add: take_bit_push_bit)
    then have "take_bit 12 (rv_addr e') = 0" unfolding rv_addr_def by (metis unsigned_take_bit_eq unsigned_0)
    then show ?thesis by (simp add: take_bit_eq_mod)
  qed
  with v f show "sv_leaf_addr e' 12 va = Some (rv_addr e' + va mod 4096)" "pa = rv_addr e + va mod 4096"
    by (auto simp: sv_leaf_addr_def split: if_splits)
  then show "rv_addr e' + va mod 4096 \<in> A" "m_store m' (rv_addr e' + va mod 4096) = m_store m pa"
    using page_in[OF p] s by simp_all
qed

lemma rv_clone_translate:
  assumes C: "tree sv39_format m root" "pages_used sv39_format m root" "rv_clone_user_page_table root m = (m', Some new)"
  shows "sv_translate m' root va = sv_translate m root va"
    "hd (vpn va) < 4 \<Longrightarrow> sv_translate m' new va = sv_translate m root va"
    "4 \<le> hd (vpn va) \<Longrightarrow> clear_path sv39_format m root (butlast (vpn va)) \<Longrightarrow> sv_translate m root va = Some pa \<Longrightarrow>
       \<exists>pa'. sv_translate m' new va = Some pa' \<and> pa' \<in> free_mem (m_pmm m) - free_mem (m_pmm m') \<and> m_store m' pa' = m_store m pa"
proof -
  note W = rv_clone_walks[OF C vpn_full, of va]
  show "sv_translate m' root va = sv_translate m root va" by (simp add: sv_translate_walk W(1))
  show "sv_translate m' new va = sv_translate m root va" if "hd (vpn va) < 4" by (simp add: sv_translate_walk W(2)[OF that])
  assume i: "4 \<le> hd (vpn va)" and cl: "clear_path sv39_format m root (butlast (vpn va))" and tr: "sv_translate m root va = Some pa"
  then obtain e l where w: "walk sv39_format m root (vpn va) = Some (e, l)" and lf: "sv_leaf_addr e (12 + 9 * l) va = Some pa"
    by (auto simp: sv_translate_walk bind_eq_Some_conv)
  have l: "l = 0" by (rule clear_walk[OF cl w])
  with W(3)[OF i] w obtain e' where "walk sv39_format m' new (vpn va) = Some (e', 0)"
    "page_dup sv39_clone m m' (free_mem (m_pmm m) - free_mem (m_pmm m')) e e'" by auto
  with page_dup_leaf[OF this(2)] lf l
  show "\<exists>pa'. sv_translate m' new va = Some pa' \<and> pa' \<in> free_mem (m_pmm m) - free_mem (m_pmm m') \<and> m_store m' pa' = m_store m pa"
    by (auto simp: sv_translate_walk)
qed

section \<open>Properties\<close>

text \<open>C6: On riscv64, mapping a page in a tree of Sv39 tables makes the processor's walk of the address end at
  the given frame when the protection is readable, or executable and not writable; any other protection makes
  an entry that the processor refuses, although the call reports success.  No other page changes its
  translation, and the tables remain a tree.\<close>

theorem rv_map_user_page_correct:
  assumes "tree sv39_format m root" "rv_map_user_page root va pa prot m = (m', True)" "4096 dvd pa" "pa < 2 ^ 64"
  shows "tree sv39_format m' root
    \<and> sv_translate m' root va = (if prot_usable prot then Some (pa + va mod 4096) else None)
    \<and> (\<forall>va'. vpn va' \<noteq> vpn va \<longrightarrow> sv_translate m' root va' = sv_translate m root va')"
  using rv_map_user_page_maps[OF assms] by blast

lemma sv_demo_tree: "tree sv39_format demo_mem 0x8000"
proof -
  have t: "tbl sv39_format demo_mem root is = (if is = [] then Some root else None)" for root "is"
    by (cases "is") (simp_all add: rd64_def demo_mem_pmm rv_flag_bits)
  have "free_mem (m_pmm demo_mem) \<subseteq> {0x100000..}" by (auto simp: free_mem_def demo_mem_pmm(7))
  then have "{0x8000..<0x8000 + 4096} \<inter> free_mem (m_pmm demo_mem) = {}" by fastforce
  then show ?thesis
    unfolding tree_def alloc_ok_def t demo_mem_pmm(6,7) using demo_mem_pmm(2,4) by (auto split: if_splits)
qed

theorem rv_map_user_page_correct_witness:
  "(\<exists>m'. rv_map_user_page 0x8000 0x100001000 0x300000 (PROT_READ OR PROT_USER) demo_mem = (m', True)
      \<and> sv_translate m' 0x8000 0x100001000 = Some 0x300000)
   \<and> (\<exists>m'. rv_map_user_page 0x8000 0x100001000 0x300000 (PROT_WRITE OR PROT_USER) demo_mem = (m', True)
      \<and> sv_translate m' 0x8000 0x100001000 = None)"
proof -
  have c: "clear_path sv39_format demo_mem 0x8000 (butlast (vpn va))" for va
    by (simp add: vpn_def rd64_def demo_mem_pmm(3) rv_flag_bits)
  have total: "\<exists>m'. rv_map_user_page 0x8000 0x100001000 0x300000 prot demo_mem = (m', True)" for prot
    using sv39.map_path_total[OF sv_demo_tree vpn_full c, of "0x100001000"] by (simp add: rv_map_user_page_def demo_mem_pmm(5) vpn_def)
  obtain m1 where m1: "rv_map_user_page 0x8000 0x100001000 0x300000 (PROT_READ OR PROT_USER) demo_mem = (m1, True)" using total by blast
  obtain m2 where m2: "rv_map_user_page 0x8000 0x100001000 0x300000 (PROT_WRITE OR PROT_USER) demo_mem = (m2, True)" using total by blast
  have p: "prot_usable (PROT_READ OR PROT_USER)" "\<not> prot_usable (PROT_WRITE OR PROT_USER)"
    by (simp_all add: prot_usable_def PROT_READ_def PROT_WRITE_def PROT_EXEC_def PROT_USER_def)
  have "sv_translate m1 0x8000 0x100001000 = Some 0x300000" "sv_translate m2 0x8000 0x100001000 = None"
    using rv_map_user_page_correct[OF sv_demo_tree m1] rv_map_user_page_correct[OF sv_demo_tree m2] p by simp_all
  with m1 m2 show ?thesis by blast
qed

text \<open>The boot table maps the first four gibibytes to themselves.\<close>

lemma rv_identity_map:
  assumes "va < 2 ^ 32"
  shows "sv_translate (fst (rv_paging_init root m)) root va = Some va"
proof -
  let ?m = "fst (rv_paging_init root m)"
  have u: "[0..<4] = [0, 1, 2, 3 :: nat]" by code_simp
  have c: "i = 0 \<or> i = 1 \<or> i = 2 \<or> i = 3" if "i < 4" for i :: nat using that by auto
  have r: "rd64 ?m (root + 8 * i) = push_bit 10 (push_bit 18 (word_of_nat i)) OR rv_KERNEL" if "i < 4" for i
    using c[OF that] unfolding rv_paging_init_def u by (elim disjE) simp_all
  have e: "rv_valid (rd64 ?m (root + 8 * i)) \<and> rv_leaf (rd64 ?m (root + 8 * i)) \<and> sv_leaf_addr (rd64 ?m (root + 8 * i)) 30 va = Some (i * 2 ^ 30 + va mod 2 ^ 30)"
    if "i < 4" for i
    unfolding r[OF that] using c[OF that]
    by (elim disjE) (simp_all add: rv_KERNEL_def page_bits_defs rv_valid_def rv_leaf_def sv_leaf_addr_def rv_addr_def)
  have i: "va div 2 ^ 30 < 4" using assms by simp
  then have "va div 2 ^ 30 mod 512 = va div 2 ^ 30" by simp
  then show ?thesis using e[OF i] unfolding sv_translate_def Let_def by (simp add: mult.commute)
qed

end
