(* ===== verification/RvTraps.thy ===== *)
theory RvTraps
  imports Traps ShellLine Sv39
begin

text \<open>
  \<^verbatim>\<open>kernel/src/arch/riscv64/trap.rs\<close>, \<^verbatim>\<open>context.rs\<close> and \<^verbatim>\<open>boards/qemu_virt_riscv64/plic.rs\<close>: the part of a RISC-V
  hart that the assembly uses, the trap entry, the context switch and the first entry into user mode as
  its programs, and the trap handler.  A program is a list of blocks; a block may depend on the state where
  the assembly branches on a register.  A call of a compiled function keeps the callee-saved registers and
  the memory from the stack pointer on.  The handler works on the kernel through the operations of
  \<open>rv_ops\<close>, which the portable layers provide; \<open>kernel_ops\<close> are those of the kernel's model.
\<close>

section \<open>The hart\<close>

datatype xreg = XRA | XSP | XGP | XTP | XT0 | XT1 | XT2 | XS0 | XS1 | XA0 | XA1 | XA2 | XA3 | XA4 | XA5 | XA6 | XA7
  | XS2 | XS3 | XS4 | XS5 | XS6 | XS7 | XS8 | XS9 | XS10 | XS11 | XT3 | XT4 | XT5 | XT6

datatype csr = SSCRATCH | SEPC | SSTATUS | SCAUSE | STVAL | SATP

record 'k hart =
  xr :: "xreg \<Rightarrow> u64"
  xm :: "u64 \<Rightarrow> u64"
  cr :: "csr \<Rightarrow> u64"
  pc :: u64
  smode :: bool
  sbi :: "(u64 \<times> u64 \<times> u64) list"
  mmio :: "(nat \<times> u32) list"
  rworld :: 'k

record rv_junk =
  jx :: "xreg \<Rightarrow> u64"
  jm :: "u64 \<Rightarrow> u64"

datatype 'k rvi =
    Sd xreg u64 xreg
  | Ld xreg u64 xreg
  | Xaddi xreg xreg u64
  | Xandi xreg xreg u64
  | Mv xreg xreg
  | Csrrw xreg csr xreg
  | CsrrwZ xreg csr
  | Csrr xreg csr
  | Csrw csr xreg
  | Xcall "'k hart \<Rightarrow> 'k hart flow"
  | Xret
  | Sret

fun rv_saved :: "xreg \<Rightarrow> bool" where
  "rv_saved XSP = True" | "rv_saved XGP = True" | "rv_saved XTP = True" | "rv_saved XS0 = True" | "rv_saved XS1 = True"
| "rv_saved XS2 = True" | "rv_saved XS3 = True" | "rv_saved XS4 = True" | "rv_saved XS5 = True" | "rv_saved XS6 = True"
| "rv_saved XS7 = True" | "rv_saved XS8 = True" | "rv_saved XS9 = True" | "rv_saved XS10 = True" | "rv_saved XS11 = True"
| "rv_saved _ = False"

definition set_x :: "xreg \<Rightarrow> u64 \<Rightarrow> 'k hart \<Rightarrow> 'k hart" where
  "set_x r v m = m\<lparr>xr := (xr m)(r := v)\<rparr>"

definition set_csr :: "csr \<Rightarrow> u64 \<Rightarrow> 'k hart \<Rightarrow> 'k hart" where
  "set_csr c v m = m\<lparr>cr := (cr m)(c := v)\<rparr>"

definition rv_compiled :: "rv_junk \<Rightarrow> ('k hart \<Rightarrow> 'k hart flow) \<Rightarrow> 'k hart \<Rightarrow> 'k hart flow" where
  "rv_compiled j f m =
     andthen (f m)
       (\<lambda>m'. Next (m'\<lparr>xr := (\<lambda>r. if rv_saved r then xr m r else jx j r),
                      xm := (\<lambda>a. if a - xr m XSP < 0x8000000000000000 then xm m' a else jm j a)\<rparr>)) id"

text \<open>\<^verbatim>\<open>sstatus\<close>: SIE is bit 1, SPIE bit 5, SPP bit 8.\<close>

definition status_enter :: "bool \<Rightarrow> u64 \<Rightarrow> u64" where
  "status_enter from_s x = (x AND NOT 0x122) OR (if from_s then 0x100 else 0) OR (if bit x 1 then 0x20 else 0)"

definition status_leave :: "u64 \<Rightarrow> u64" where
  "status_leave x = (x AND NOT 0x122) OR 0x20 OR (if bit x 5 then 2 else 0)"

definition trap_hw :: "u64 \<Rightarrow> u64 \<Rightarrow> 'k hart \<Rightarrow> 'k hart" where
  "trap_hw cause tval m =
     m\<lparr>cr := (cr m)(SEPC := pc m, SCAUSE := cause, STVAL := tval, SSTATUS := status_enter (smode m) (cr m SSTATUS)), smode := True\<rparr>"

definition sret_hw :: "'k hart \<Rightarrow> 'k hart" where
  "sret_hw m = m\<lparr>pc := cr m SEPC, smode := bit (cr m SSTATUS) 8, cr := (cr m)(SSTATUS := status_leave (cr m SSTATUS))\<rparr>"

fun rv_step :: "rv_junk \<Rightarrow> 'k rvi \<Rightarrow> 'k hart \<Rightarrow> 'k hart flow" where
  "rv_step j (Sd r d b) m = Next (m\<lparr>xm := (xm m)(xr m b + d := xr m r)\<rparr>)"
| "rv_step j (Ld r d b) m = Next (set_x r (xm m (xr m b + d)) m)"
| "rv_step j (Xaddi r s v) m = Next (set_x r (xr m s + v) m)"
| "rv_step j (Xandi r s v) m = Next (set_x r (xr m s AND v) m)"
| "rv_step j (Mv r s) m = Next (set_x r (xr m s) m)"
| "rv_step j (Csrrw r c s) m = Next (set_x r (cr m c) (set_csr c (xr m s) m))"
| "rv_step j (CsrrwZ r c) m = Next (set_x r (cr m c) (set_csr c 0 m))"
| "rv_step j (Csrr r c) m = Next (set_x r (cr m c) m)"
| "rv_step j (Csrw c s) m = Next (set_csr c (xr m s) m)"
| "rv_step j (Xcall f) m = rv_compiled j f m"
| "rv_step j Xret m = Next (m\<lparr>pc := xr m XRA\<rparr>)"
| "rv_step j Sret m = Next (sret_hw m)"

fun rv_exec :: "rv_junk \<Rightarrow> 'k rvi list \<Rightarrow> 'k hart \<Rightarrow> 'k hart flow" where
  "rv_exec j [] m = Next m"
| "rv_exec j (i # is) m = andthen (rv_step j i m) (rv_exec j is) id"

fun rv_run :: "rv_junk \<Rightarrow> ('k hart \<Rightarrow> 'k rvi list) list \<Rightarrow> 'k hart \<Rightarrow> 'k hart flow" where
  "rv_run j [] m = Next m"
| "rv_run j (b # bs) m = andthen (rv_exec j (b m) m) (rv_run j bs) id"

section \<open>The trap handler\<close>

record 'k rv_ops =
  op_tick :: "'k \<Rightarrow> 'k flow"
  op_serial :: "bytes \<Rightarrow> 'k \<Rightarrow> 'k"
  op_user_ctx :: "u64 \<Rightarrow> u64 \<Rightarrow> 'k \<Rightarrow> 'k"
  op_dispatch :: "u64 \<Rightarrow> u64 list \<Rightarrow> 'k \<Rightarrow> ('k \<times> u64) flow"
  op_exec_ctx :: "'k \<Rightarrow> 'k \<times> (u64 \<times> u64 \<times> u64) option"
  op_page_fault :: "u64 \<Rightarrow> 'k \<Rightarrow> 'k \<times> bool"
  op_exit :: "u32 \<Rightarrow> 'k \<Rightarrow> 'k flow"
  op_print :: "bytes \<Rightarrow> 'k \<Rightarrow> 'k"

text \<open>What the devices deliver: the time, the claimed interrupt source, the received bytes.\<close>

record rv_input =
  in_time :: u64
  in_claim :: u32
  in_uart :: bytes

definition CAUSE_TIMER :: u64 where "CAUSE_TIMER = 5"
definition CAUSE_EXT :: u64 where "CAUSE_EXT = 9"
definition CAUSE_SYSCALL :: u64 where "CAUSE_SYSCALL = 8"
definition CAUSE_S_ECALL :: u64 where "CAUSE_S_ECALL = 9"

lemmas cause_defs = CAUSE_TIMER_def CAUSE_EXT_def CAUSE_SYSCALL_def CAUSE_S_ECALL_def

definition PLIC_BASE :: nat where "PLIC_BASE = 0x0C000000"
definition UART_IRQ :: u32 where "UART_IRQ = 10"
definition PLIC_CONTEXT :: nat where "PLIC_CONTEXT = 1"

definition priority_reg :: "u32 \<Rightarrow> nat" where
  "priority_reg source = PLIC_BASE + unat source * 4"

definition enable_reg :: "nat \<Rightarrow> u32 \<Rightarrow> nat" where
  "enable_reg ctx source = PLIC_BASE + 0x2000 + ctx * 0x80 + unat source div 32 * 4"

definition threshold_reg :: "nat \<Rightarrow> nat" where
  "threshold_reg ctx = PLIC_BASE + 0x200000 + ctx * 0x1000"

definition claim_reg :: "nat \<Rightarrow> nat" where
  "claim_reg ctx = PLIC_BASE + 0x200004 + ctx * 0x1000"

text \<open>\<open>old\<close> is the value read from the enable register.\<close>

definition plic_init :: "u32 \<Rightarrow> (nat \<times> u32) list" where
  "plic_init old =
     [(priority_reg UART_IRQ, 1), (enable_reg PLIC_CONTEXT UART_IRQ, old OR push_bit (unat UART_IRQ mod 32) 1),
      (threshold_reg PLIC_CONTEXT, 0)]"

definition plic_handle :: "'k rv_ops \<Rightarrow> rv_input \<Rightarrow> 'k hart \<Rightarrow> 'k hart" where
  "plic_handle ops i m =
     (let source = in_claim i;
          m1 = (if source = UART_IRQ then m\<lparr>rworld := op_serial ops (in_uart i) (rworld m)\<rparr> else m)
      in m1\<lparr>mmio := mmio m1 @ [(claim_reg PLIC_CONTEXT, source)]\<rparr>)"

definition EXT_TIME :: u64 where "EXT_TIME = 0x54494D45"

definition set_timer :: "u64 \<Rightarrow> 'k hart \<Rightarrow> 'k hart" where
  "set_timer t m = m\<lparr>sbi := sbi m @ [(EXT_TIME, 0, t)]\<rparr>"

definition fr :: "'k hart \<Rightarrow> u64 \<Rightarrow> u64" where
  "fr m i = xm m (xr m XA0 + 8 * i)"

definition set_fr :: "u64 \<Rightarrow> u64 \<Rightarrow> 'k hart \<Rightarrow> 'k hart" where
  "set_fr i v m = m\<lparr>xm := (xm m)(xr m XA0 + 8 * i := v)\<rparr>"

definition rv_interrupt :: "'k rv_ops \<Rightarrow> rv_input \<Rightarrow> u64 \<Rightarrow> 'k hart \<Rightarrow> 'k hart flow" where
  "rv_interrupt ops i cause m =
     (if cause = CAUSE_TIMER then
        andthen (op_tick ops (rworld m)) (\<lambda>k. Next (set_timer (in_time i + 100000) (m\<lparr>rworld := k\<rparr>))) (\<lambda>k. m\<lparr>rworld := k\<rparr>)
      else if cause = CAUSE_EXT then Next (plic_handle ops i m)
      else Next m)"

definition rv_syscall :: "'k rv_ops \<Rightarrow> 'k hart \<Rightarrow> 'k hart flow" where
  "rv_syscall ops m =
     andthen (op_dispatch ops (fr m 16) [fr m 9, fr m 10, fr m 11, fr m 12, fr m 13, fr m 14]
                (op_user_ctx ops (fr m 31 + 4) (fr m 1) (rworld m)))
       (\<lambda>(k, v). let m1 = set_fr 9 v m in
          Next (case op_exec_ctx ops k of
                  (k1, Some (new_ip, new_sp, new_pt)) \<Rightarrow>
                    set_csr SATP (rv_satp (unat new_pt)) (set_fr 1 new_sp (set_fr 31 new_ip (m1\<lparr>rworld := k1\<rparr>)))
                | (k1, None) \<Rightarrow> set_fr 31 (fr m1 31 + 4) (m1\<lparr>rworld := k1\<rparr>)))
       (\<lambda>(k, _). m\<lparr>rworld := k\<rparr>)"

definition rv_fault :: "'k rv_ops \<Rightarrow> 'k hart \<Rightarrow> 'k hart flow" where
  "rv_fault ops m =
     (let stval = cr m STVAL; from_user = (drop_bit 8 (fr m 32) AND 1 = 0) in
      if from_user then
        (case op_page_fault ops stval (rworld m) of
           (k, True) \<Rightarrow> Next (m\<lparr>rworld := k\<rparr>)
         | (k, False) \<Rightarrow> (case op_exit ops 139 k of Stuck \<Rightarrow> Stuck | Next k1 \<Rightarrow> Away (m\<lparr>rworld := k1\<rparr>) | Away k1 \<Rightarrow> Away (m\<lparr>rworld := k1\<rparr>)))
      else Away (m\<lparr>rworld := op_print ops (ascii ''[TRAP] kernel page fault sepc=0x'' @ hex (fr m 31)
                     @ ascii '' stval=0x'' @ hex stval @ nl) (rworld m)\<rparr>))"

definition rv_unhandled :: "'k rv_ops \<Rightarrow> u64 \<Rightarrow> 'k hart \<Rightarrow> 'k hart flow" where
  "rv_unhandled ops cause m =
     Away (m\<lparr>rworld := op_print ops (ascii ''[TRAP] unhandled exception cause='' @ fmt_u64 (unat cause)
               @ ascii '' sepc=0x'' @ hex (cr m SEPC) @ ascii '' stval=0x'' @ hex (cr m STVAL) @ nl) (rworld m)\<rparr>)"

definition rv_trap_handler :: "'k rv_ops \<Rightarrow> rv_input \<Rightarrow> 'k hart \<Rightarrow> 'k hart flow" where
  "rv_trap_handler ops i m =
     (let scause = cr m SCAUSE; is_interrupt = (scause AND 0x8000000000000000 \<noteq> 0); cause = scause AND NOT 0x8000000000000000 in
      if is_interrupt then rv_interrupt ops i cause m
      else if cause = CAUSE_SYSCALL then rv_syscall ops m
      else if cause = CAUSE_S_ECALL then Next (set_fr 31 (fr m 31 + 4) m)
      else if cause = 12 \<or> cause = 13 \<or> cause = 15 then rv_fault ops m
      else rv_unhandled ops cause m)"

section \<open>The trap entry\<close>

text \<open>The size of a \<^verbatim>\<open>TrapFrame\<close>: 33 words.\<close>

definition frame_size :: u64 where "frame_size = 33 * 8"

definition trap_from_kernel :: "'k rvi list" where
  "trap_from_kernel =
     [Csrrw XSP SSCRATCH XSP, Xaddi XSP XSP (- frame_size), Sd XT0 (4 * 8) XSP, Xaddi XT0 XSP frame_size,
      Sd XRA (0 * 8) XSP, Sd XT0 (1 * 8) XSP, Sd XGP (2 * 8) XSP, Sd XTP (3 * 8) XSP]"

definition trap_from_user :: "'k rvi list" where
  "trap_from_user =
     [Xaddi XSP XSP (- frame_size), Sd XT0 (4 * 8) XSP, CsrrwZ XT0 SSCRATCH,
      Sd XRA (0 * 8) XSP, Sd XT0 (1 * 8) XSP, Sd XGP (2 * 8) XSP, Sd XTP (3 * 8) XSP]"

definition trap_save :: "'k rvi list" where
  "trap_save =
     [Sd XT1 (5 * 8) XSP, Sd XT2 (6 * 8) XSP, Sd XS0 (7 * 8) XSP, Sd XS1 (8 * 8) XSP, Sd XA0 (9 * 8) XSP, Sd XA1 (10 * 8) XSP,
      Sd XA2 (11 * 8) XSP, Sd XA3 (12 * 8) XSP, Sd XA4 (13 * 8) XSP, Sd XA5 (14 * 8) XSP, Sd XA6 (15 * 8) XSP, Sd XA7 (16 * 8) XSP,
      Sd XS2 (17 * 8) XSP, Sd XS3 (18 * 8) XSP, Sd XS4 (19 * 8) XSP, Sd XS5 (20 * 8) XSP, Sd XS6 (21 * 8) XSP, Sd XS7 (22 * 8) XSP,
      Sd XS8 (23 * 8) XSP, Sd XS9 (24 * 8) XSP, Sd XS10 (25 * 8) XSP, Sd XS11 (26 * 8) XSP, Sd XT3 (27 * 8) XSP, Sd XT4 (28 * 8) XSP,
      Sd XT5 (29 * 8) XSP, Sd XT6 (30 * 8) XSP,
      Csrr XT0 SEPC, Sd XT0 (31 * 8) XSP, Csrr XT0 SSTATUS, Sd XT0 (32 * 8) XSP, Mv XA0 XSP]"

definition trap_status :: "'k rvi list" where
  "trap_status =
     [Ld XT0 (31 * 8) XSP, Csrw SEPC XT0, Ld XT0 (32 * 8) XSP, Csrw SSTATUS XT0, Xandi XT0 XT0 256]"

definition trap_to_user :: "'k rvi list" where
  "trap_to_user = [Xaddi XT0 XSP frame_size, Csrw SSCRATCH XT0]"

definition trap_restore :: "'k rvi list" where
  "trap_restore =
     [Ld XRA (0 * 8) XSP, Ld XGP (2 * 8) XSP, Ld XTP (3 * 8) XSP, Ld XT0 (4 * 8) XSP,
      Ld XT1 (5 * 8) XSP, Ld XT2 (6 * 8) XSP, Ld XS0 (7 * 8) XSP, Ld XS1 (8 * 8) XSP, Ld XA0 (9 * 8) XSP, Ld XA1 (10 * 8) XSP,
      Ld XA2 (11 * 8) XSP, Ld XA3 (12 * 8) XSP, Ld XA4 (13 * 8) XSP, Ld XA5 (14 * 8) XSP, Ld XA6 (15 * 8) XSP, Ld XA7 (16 * 8) XSP,
      Ld XS2 (17 * 8) XSP, Ld XS3 (18 * 8) XSP, Ld XS4 (19 * 8) XSP, Ld XS5 (20 * 8) XSP, Ld XS6 (21 * 8) XSP, Ld XS7 (22 * 8) XSP,
      Ld XS8 (23 * 8) XSP, Ld XS9 (24 * 8) XSP, Ld XS10 (25 * 8) XSP, Ld XS11 (26 * 8) XSP, Ld XT3 (27 * 8) XSP, Ld XT4 (28 * 8) XSP,
      Ld XT5 (29 * 8) XSP, Ld XT6 (30 * 8) XSP, Ld XSP (1 * 8) XSP, Sret]"

definition trap_entry :: "'k rv_ops \<Rightarrow> rv_input \<Rightarrow> ('k hart \<Rightarrow> 'k rvi list) list" where
  "trap_entry ops i =
     [\<lambda>_. [Csrrw XSP SSCRATCH XSP],
      \<lambda>m. if xr m XSP \<noteq> 0 then trap_from_user else trap_from_kernel,
      \<lambda>_. trap_save @ [Xcall (rv_trap_handler ops i)] @ trap_status,
      \<lambda>m. if xr m XT0 \<noteq> 0 then [] else trap_to_user,
      \<lambda>_. trap_restore]"

section \<open>What entry and return do\<close>

text \<open>The word of the frame that holds a register.\<close>

fun slot :: "xreg \<Rightarrow> u64" where
  "slot XRA = 0" | "slot XSP = 1" | "slot XGP = 2" | "slot XTP = 3" | "slot XT0 = 4" | "slot XT1 = 5" | "slot XT2 = 6"
| "slot XS0 = 7" | "slot XS1 = 8" | "slot XA0 = 9" | "slot XA1 = 10" | "slot XA2 = 11" | "slot XA3 = 12" | "slot XA4 = 13"
| "slot XA5 = 14" | "slot XA6 = 15" | "slot XA7 = 16" | "slot XS2 = 17" | "slot XS3 = 18" | "slot XS4 = 19" | "slot XS5 = 20"
| "slot XS6 = 21" | "slot XS7 = 22" | "slot XS8 = 23" | "slot XS9 = 24" | "slot XS10 = 25" | "slot XS11 = 26" | "slot XT3 = 27"
| "slot XT4 = 28" | "slot XT5 = 29" | "slot XT6 = 30"

lemmas rv_simps = set_x_def set_csr_def Let_def

lemma rv_exec_append: "rv_exec j (p @ q) m = andthen (rv_exec j p m) (rv_exec j q) id"
proof (induction p arbitrary: m)
  case (Cons i p)
  then show ?case by (cases "rv_step j i m") simp_all
qed simp

lemma xreg_eqI:
  fixes f g :: "xreg \<Rightarrow> 'a"
  assumes "f XRA = g XRA" "f XSP = g XSP" "f XGP = g XGP" "f XTP = g XTP" "f XT0 = g XT0" "f XT1 = g XT1" "f XT2 = g XT2"
      "f XS0 = g XS0" "f XS1 = g XS1" "f XA0 = g XA0" "f XA1 = g XA1" "f XA2 = g XA2" "f XA3 = g XA3" "f XA4 = g XA4"
      "f XA5 = g XA5" "f XA6 = g XA6" "f XA7 = g XA7" "f XS2 = g XS2" "f XS3 = g XS3" "f XS4 = g XS4" "f XS5 = g XS5"
      "f XS6 = g XS6" "f XS7 = g XS7" "f XS8 = g XS8" "f XS9 = g XS9" "f XS10 = g XS10" "f XS11 = g XS11" "f XT3 = g XT3"
      "f XT4 = g XT4" "f XT5 = g XT5" "f XT6 = g XT6"
  shows "f = g"
proof
  show "f x = g x" for x using assms by (cases x) simp_all
qed

lemma and_256: "(x :: u64) AND 256 = 0 \<longleftrightarrow> \<not> bit x 8"
proof -
  have "(256 :: u64) = 2 ^ 8" by simp
  then show ?thesis by (simp only: and_exp_eq_0_iff_not_bit)
qed

text \<open>The return path loads every register from its word of the frame.\<close>

definition rv_return :: "'k hart \<Rightarrow> 'k hart" where
  "rv_return m =
     (let b = xr m XSP; s = xm m (b + 256) in
      m\<lparr>xr := (\<lambda>r. xm m (b + 8 * slot r)), pc := xm m (b + 248), smode := bit s 8,
        cr := (cr m)(SEPC := xm m (b + 248), SSTATUS := status_leave s, SSCRATCH := if bit s 8 then cr m SSCRATCH else b + frame_size)\<rparr>)"

lemma trap_return_exec:
  "andthen (rv_exec j trap_status m) (rv_run j [\<lambda>m. if xr m XT0 \<noteq> 0 then [] else trap_to_user, \<lambda>_. trap_restore]) id = Next (rv_return m)"
proof -
  have 1: "rv_exec j trap_status m =
      Next (m\<lparr>xr := (xr m)(XT0 := xm m (xr m XSP + 256) AND 256), cr := (cr m)(SEPC := xm m (xr m XSP + 248), SSTATUS := xm m (xr m XSP + 256))\<rparr>)"
    by (simp add: trap_status_def rv_simps)
  have 2: "rv_exec j trap_restore n = Next (sret_hw (n\<lparr>xr := (\<lambda>r. xm n (xr n XSP + 8 * slot r))\<rparr>))" for n
    by (simp add: trap_restore_def rv_simps) (rule arg_cong[of _ _ "\<lambda>f. sret_hw (n\<lparr>xr := f\<rparr>)"], rule xreg_eqI, simp_all)
  show ?thesis by (simp add: 1 2 and_256 trap_to_user_def rv_simps sret_hw_def rv_return_def fun_upd_twist)
qed

text \<open>The entry path builds a frame below the kernel's stack pointer: that of the interrupted kernel code, or
  the one kept in \<^verbatim>\<open>sscratch\<close> while a program runs.\<close>

definition kernel_top :: "'k hart \<Rightarrow> u64" where
  "kernel_top m = (if smode m then xr m XSP else cr m SSCRATCH)"

definition scratch_ok :: "'k hart \<Rightarrow> bool" where
  "scratch_ok m \<longleftrightarrow> (if smode m then cr m SSCRATCH = 0 else cr m SSCRATCH \<noteq> 0)"

text \<open>\<open>m2\<close> is in the handler with the frame of the trapped state \<open>m\<close> at \<open>b\<close>.\<close>

definition in_handler :: "'k hart \<Rightarrow> u64 \<Rightarrow> u64 \<Rightarrow> u64 \<Rightarrow> 'k hart \<Rightarrow> bool" where
  "in_handler m c t b m2 \<longleftrightarrow>
     xr m2 XSP = b \<and> xr m2 XA0 = b \<and> (\<forall>r. xm m2 (b + 8 * slot r) = xr m r) \<and> xm m2 (b + 248) = pc m
     \<and> xm m2 (b + 256) = status_enter (smode m) (cr m SSTATUS) \<and> cr m2 = (cr (trap_hw c t m))(SSCRATCH := 0)
     \<and> sbi m2 = sbi m \<and> mmio m2 = mmio m \<and> rworld m2 = rworld m"

lemma trap_save_exec:
  "\<exists>n'. rv_exec j trap_save n = Next n' \<and> xr n' XSP = xr n XSP \<and> xr n' XA0 = xr n XSP \<and> cr n' = cr n \<and> sbi n' = sbi n
     \<and> mmio n' = mmio n \<and> rworld n' = rworld n \<and> xm n' (xr n XSP + 248) = cr n SEPC \<and> xm n' (xr n XSP + 256) = cr n SSTATUS
     \<and> (\<forall>r. xm n' (xr n XSP + 8 * slot r) = (if slot r < 5 then xm n (xr n XSP + 8 * slot r) else xr n r))"
proof -
  obtain n' where n': "rv_exec j trap_save n = Next n'" by (simp add: trap_save_def rv_simps)
  have "xm n' (xr n XSP + 8 * slot r) = (if slot r < 5 then xm n (xr n XSP + 8 * slot r) else xr n r)" for r
    using n' by (cases r) (auto simp: trap_save_def rv_simps)
  moreover have "xr n' XSP = xr n XSP \<and> xr n' XA0 = xr n XSP \<and> cr n' = cr n \<and> sbi n' = sbi n
     \<and> mmio n' = mmio n \<and> rworld n' = rworld n \<and> xm n' (xr n XSP + 248) = cr n SEPC \<and> xm n' (xr n XSP + 256) = cr n SSTATUS"
    using n' by (auto simp: trap_save_def rv_simps)
  ultimately show ?thesis using n' by blast
qed

lemma trap_entry_exec:
  assumes "scratch_ok m"
  obtains m2 where "in_handler m c t (kernel_top m - frame_size) m2"
    "rv_run j (trap_entry ops i) (trap_hw c t m) = andthen (rv_compiled j (rv_trap_handler ops i) m2) (\<lambda>m3. Next (rv_return m3)) id"
proof -
  let ?m = "trap_hw c t m" let ?b = "kernel_top m - frame_size"
  let ?m1 = "set_x XSP (cr m SSCRATCH) (set_csr SSCRATCH (xr m XSP) ?m)"
  obtain n where n: "rv_exec j (if xr ?m1 XSP \<noteq> 0 then trap_from_user else trap_from_kernel) ?m1 = Next n"
    and f: "xr n = (xr m)(XSP := ?b, XT0 := xr m XSP)" "cr n = (cr ?m)(SSCRATCH := 0)" "sbi n = sbi m" "mmio n = mmio m" "rworld n = rworld m"
      "\<forall>r. slot r < 5 \<longrightarrow> xm n (?b + 8 * slot r) = xr m r"
  proof -
    let ?p = "if xr ?m1 XSP \<noteq> 0 then trap_from_user else trap_from_kernel"
    have p: "?p = (if smode m then trap_from_kernel else trap_from_user)" using assms by (simp add: scratch_ok_def set_x_def)
    obtain n where n: "rv_exec j ?p ?m1 = Next n"
      unfolding p by (cases "smode m") (simp_all add: trap_from_kernel_def trap_from_user_def rv_simps)
    have z: "cr m SSCRATCH = 0" if "smode m" using assms that by (simp add: scratch_ok_def)
    have "xr n = (xr m)(XSP := ?b, XT0 := xr m XSP) \<and> cr n = (cr ?m)(SSCRATCH := 0) \<and> sbi n = sbi m \<and> mmio n = mmio m \<and> rworld n = rworld m"
      using n[unfolded p] z
      by (cases "smode m") (auto simp: trap_from_kernel_def trap_from_user_def rv_simps frame_size_def kernel_top_def trap_hw_def intro!: xreg_eqI ext)
    moreover have "slot r < 5 \<longrightarrow> xm n (?b + 8 * slot r) = xr m r" for r
      using n[unfolded p] z
      by (cases "smode m"; cases r) (auto simp: trap_from_kernel_def trap_from_user_def rv_simps frame_size_def kernel_top_def trap_hw_def sp_simps)
    ultimately show ?thesis using that[OF n] by blast
  qed
  obtain m2 where s: "rv_exec j trap_save n = Next m2" "xr m2 XSP = xr n XSP" "xr m2 XA0 = xr n XSP" "cr m2 = cr n" "sbi m2 = sbi n"
      "mmio m2 = mmio n" "rworld m2 = rworld n" "xm m2 (xr n XSP + 248) = cr n SEPC" "xm m2 (xr n XSP + 256) = cr n SSTATUS"
      "\<And>r. xm m2 (xr n XSP + 8 * slot r) = (if slot r < 5 then xm n (xr n XSP + 8 * slot r) else xr n r)"
    using trap_save_exec[of j n] by blast
  show ?thesis
  proof (rule that)
    have "xm m2 (?b + 8 * slot r) = xr m r" for r
    proof (cases "slot r < 5")
      case True
      then show ?thesis using s(10)[of r] f(1,6) by simp
    next
      case False
      then have "xr n r = xr m r" using f(1) by (cases r) simp_all
      with False show ?thesis using s(10)[of r] f(1) by simp
    qed
    then show "in_handler m c t ?b m2" using s f by (auto simp: in_handler_def trap_hw_def)
    have b1: "rv_exec j [Csrrw XSP SSCRATCH XSP] ?m = Next ?m1" by (simp add: trap_hw_def rv_simps)
    have "rv_run j (trap_entry ops i) ?m = andthen (andthen (rv_compiled j (rv_trap_handler ops i) m2) (rv_exec j trap_status) id)
        (rv_run j [\<lambda>m. if xr m XT0 \<noteq> 0 then [] else trap_to_user, \<lambda>_. trap_restore]) id"
      unfolding trap_entry_def rv_run.simps(2)[of j "\<lambda>_. [Csrrw XSP SSCRATCH XSP]"] b1 andthen.simps
        rv_run.simps(2)[of j "\<lambda>m. if xr m XSP \<noteq> 0 then trap_from_user else trap_from_kernel"] n
      by (simp add: rv_exec_append s(1))
    then show "rv_run j (trap_entry ops i) ?m = andthen (rv_compiled j (rv_trap_handler ops i) m2) (\<lambda>m3. Next (rv_return m3)) id"
      by (cases "rv_compiled j (rv_trap_handler ops i) m2") (simp_all add: trap_return_exec)
  qed
qed

section \<open>Properties\<close>

lemma status_bits:
  "bit (status_enter f x) 8 = f" "bit (status_leave (status_enter f x)) 1 = bit x 1"
proof -
  have c: "bit (0x122 :: u64) 8" "bit (0x122 :: u64) 1" "bit (0x122 :: u64) 5" "\<not> bit (0x20 :: u64) 8" "\<not> bit (0x20 :: u64) 1" "bit (0x20 :: u64) 5"
    "bit (0x100 :: u64) 8" "\<not> bit (0x100 :: u64) 5" "bit (2 :: u64) 1" by simp_all
  show "bit (status_enter f x) 8 = f" using c by (simp add: status_enter_def bit_and_iff bit_or_iff bit_not_iff)
  show "bit (status_leave (status_enter f x)) 1 = bit x 1"
    using c by (simp add: status_enter_def status_leave_def bit_and_iff bit_or_iff bit_not_iff)
qed

text \<open>The frame lies from the stack pointer on, so the compiled handler keeps what it does not write itself.\<close>

lemma slot_less: "8 * slot r < 0x8000000000000000"
  by (cases r) simp_all

lemma handler_frame:
  assumes H: "in_handler m c t b m2" and h: "f m2 = Next m3"
  shows "rv_compiled j f m2 = Next n \<Longrightarrow> xr n XSP = b \<and> (\<forall>r. xm n (b + 8 * slot r) = xm m3 (b + 8 * slot r))
    \<and> xm n (b + 248) = xm m3 (b + 248) \<and> xm n (b + 256) = xm m3 (b + 256) \<and> cr n = cr m3 \<and> sbi n = sbi m3 \<and> mmio n = mmio m3
    \<and> rworld n = rworld m3"
  using H h slot_less by (auto simp: rv_compiled_def in_handler_def)

lemma trap_returns:
  assumes H: "in_handler m c t (kernel_top m - frame_size) m2" and S: "scratch_ok m" and h: "rv_trap_handler ops i m2 = Next m3"
    and fr: "xm m3 (kernel_top m - frame_size + 256) = status_enter (smode m) (cr m SSTATUS)" and sc: "cr m3 SSCRATCH = 0"
    and run: "rv_run j (trap_entry ops i) (trap_hw c t m) = andthen (rv_compiled j (rv_trap_handler ops i) m2) (\<lambda>m3. Next (rv_return m3)) id"
  shows "\<exists>m'. rv_run j (trap_entry ops i) (trap_hw c t m) = Next m'
    \<and> xr m' = (\<lambda>r. xm m3 (kernel_top m - frame_size + 8 * slot r)) \<and> pc m' = xm m3 (kernel_top m - frame_size + 248)
    \<and> smode m' = smode m \<and> cr m' SSCRATCH = cr m SSCRATCH \<and> bit (cr m' SSTATUS) 1 = bit (cr m SSTATUS) 1
    \<and> cr m' SATP = cr m3 SATP \<and> sbi m' = sbi m3 \<and> mmio m' = mmio m3 \<and> rworld m' = rworld m3"
proof -
  obtain n where n: "rv_compiled j (rv_trap_handler ops i) m2 = Next n" using h by (simp add: rv_compiled_def)
  note F = handler_frame[OF H h n]
  have "rv_run j (trap_entry ops i) (trap_hw c t m) = Next (rv_return n)" using run n by simp
  moreover have "cr (rv_return n) SSCRATCH = cr m SSCRATCH"
    using F fr sc S by (simp add: rv_return_def Let_def status_bits kernel_top_def scratch_ok_def)
  ultimately show ?thesis
    using F fr by (intro exI[of _ "rv_return n"]) (simp add: rv_return_def Let_def status_bits del: One_nat_def)
qed


text \<open>The kernel of the model behind the operations.\<close>

definition tick_flow :: "kernel \<Rightarrow> kernel flow" where
  "tick_flow k = (case tick k of None \<Rightarrow> Stuck | Some k1 \<Rightarrow> if current k1 = current k then Next k1 else Away k1)"

definition kernel_ops :: "env \<Rightarrow> kernel rv_ops" where
  "kernel_ops ev = \<lparr>op_tick = tick_flow, op_serial = serial_irq, op_user_ctx = set_user_ctx,
     op_dispatch = (\<lambda>nr as k. case dispatch ev (unat nr) (as ! 0) (as ! 1) (as ! 2) (as ! 3) (as ! 4) (as ! 5) k of
        Some (k1, Reply v) \<Rightarrow> Next (k1, word_of_int v) | Some (k1, _) \<Rightarrow> Away (k1, 0) | None \<Rightarrow> Stuck),
     op_exec_ctx = take_exec_ctx, op_page_fault = handle_user_page_fault,
     op_exit = (\<lambda>c k. case exit_current c k of None \<Rightarrow> Stuck | Some k1 \<Rightarrow> Away k1), op_print = console_print_str\<rparr>"

definition demo_hart :: "bool \<Rightarrow> kernel hart" where
  "demo_hart s = \<lparr>xr = (\<lambda>_. 5)(XSP := 0x7000, XA7 := 39), xm = (\<lambda>_. 0), cr = (\<lambda>_. 0)(SSCRATCH := if s then 0 else 0x9000, SSTATUS := 2),
     pc = 0x100001234, smode = s, sbi = [], mmio = [], rworld = trap_kernel\<rparr>"

definition demo_rv_junk :: rv_junk where
  "demo_rv_junk = \<lparr>jx = (\<lambda>_. 0xBAD), jm = (\<lambda>_. 0xDEAD)\<rparr>"


text \<open>C18: On riscv64 the \<^verbatim>\<open>ecall\<close> of a program reaches the dispatcher with the number from \<^verbatim>\<open>a7\<close>, the arguments from
  \<^verbatim>\<open>a0\<close> to \<^verbatim>\<open>a5\<close> and the position behind the instruction; when it answers, the program goes on there in user mode with the
  result in \<^verbatim>\<open>a0\<close>, every other register as it was and the kernel stack in \<^verbatim>\<open>sscratch\<close>; after a successful \<^verbatim>\<open>execve\<close> it goes on at
  the new program's entry with its stack and address space.\<close>

theorem rv_syscall_correct:
  assumes "\<not> smode m" "cr m SSCRATCH \<noteq> 0"
    "op_dispatch ops (xr m XA7) [xr m XA0, xr m XA1, xr m XA2, xr m XA3, xr m XA4, xr m XA5]
       (op_user_ctx ops (pc m + 4) (xr m XSP) (rworld m)) = Next (k, v)"
  shows "\<exists>m'. rv_run j (trap_entry ops i) (trap_hw 8 t m) = Next m' \<and> \<not> smode m' \<and> cr m' SSCRATCH = cr m SSCRATCH
    \<and> bit (cr m' SSTATUS) 1 = bit (cr m SSTATUS) 1
    \<and> (case op_exec_ctx ops k of
         (k1, None) \<Rightarrow> xr m' = (xr m)(XA0 := v) \<and> pc m' = pc m + 4 \<and> cr m' SATP = cr m SATP \<and> rworld m' = k1
       | (k1, Some (new_ip, new_sp, new_pt)) \<Rightarrow>
           xr m' = (xr m)(XA0 := v, XSP := new_sp) \<and> pc m' = new_ip \<and> cr m' SATP = rv_satp (unat new_pt) \<and> rworld m' = k1)"
proof -
  let ?b = "kernel_top m - frame_size"
  have S: "scratch_ok m" using assms(1,2) by (simp add: scratch_ok_def)
  obtain m2 where H: "in_handler m 8 t ?b m2"
    and run: "rv_run j (trap_entry ops i) (trap_hw 8 t m) = andthen (rv_compiled j (rv_trap_handler ops i) m2) (\<lambda>m3. Next (rv_return m3)) id"
    using trap_entry_exec[OF S] by blast
  have f: "xm m2 (?b + 8 * slot r) = xr m r" for r using H by (simp add: in_handler_def)
  have "fr m2 16 = xr m XA7" "fr m2 9 = xr m XA0" "fr m2 10 = xr m XA1" "fr m2 11 = xr m XA2" "fr m2 12 = xr m XA3" "fr m2 13 = xr m XA4"
    "fr m2 14 = xr m XA5" "fr m2 31 = pc m" "fr m2 1 = xr m XSP" "xr m2 XA0 = ?b" "rworld m2 = rworld m" "cr m2 SCAUSE = 8"
    using f[of XA7] f[of XA0] f[of XA1] f[of XA2] f[of XA3] f[of XA4] f[of XA5] f[of XSP] H by (simp_all add: fr_def in_handler_def trap_hw_def)
  note F = this
  have h: "rv_trap_handler ops i m2 = rv_syscall ops m2" using F(12) by (simp add: rv_trap_handler_def Let_def cause_defs)
  let ?x = "(xm m2)(?b + 72 := v)"
  show ?thesis
  proof (cases "op_exec_ctx ops k")
    case (Pair k1 e)
    show ?thesis
    proof (cases e)
      case None
      let ?m3 = "m2\<lparr>xm := ?x(?b + 248 := pc m + 4), rworld := k1\<rparr>"
      have m3: "rv_trap_handler ops i m2 = Next ?m3"
        using None Pair assms(3) F unfolding h by (simp add: rv_syscall_def set_fr_def fr_def)
      have "xm ?m3 (?b + 256) = status_enter (smode m) (cr m SSTATUS)" "cr ?m3 SSCRATCH = 0" using H by (simp_all add: in_handler_def)
      note R = trap_returns[OF H S m3 this run]
      have "xm ?m3 (?b + 8 * slot r) = ((xr m)(XA0 := v)) r" for r using f[of r] by (cases r) simp_all
      then have regs: "(\<lambda>r. xm ?m3 (?b + 8 * slot r)) = (xr m)(XA0 := v)" by (rule ext)
      have "xm ?m3 (?b + 248) = pc m + 4" "cr ?m3 SATP = cr m SATP" "rworld ?m3 = k1" using H by (simp_all add: in_handler_def trap_hw_def)
      then show ?thesis using R[unfolded regs] Pair None assms(1) by auto
    next
      case (Some a)
      obtain new_ip new_sp new_pt where a: "a = (new_ip, new_sp, new_pt)" by (cases a)
      let ?m3 = "m2\<lparr>xm := ?x(?b + 248 := new_ip, ?b + 8 := new_sp), cr := (cr m2)(SATP := rv_satp (unat new_pt)), rworld := k1\<rparr>"
      have m3: "rv_trap_handler ops i m2 = Next ?m3"
        using Some Pair assms(3) F a unfolding h by (simp add: rv_syscall_def set_fr_def fr_def set_csr_def)
      have "xm ?m3 (?b + 256) = status_enter (smode m) (cr m SSTATUS)" "cr ?m3 SSCRATCH = 0" using H by (simp_all add: in_handler_def)
      note R = trap_returns[OF H S m3 this run]
      have "xm ?m3 (?b + 8 * slot r) = ((xr m)(XA0 := v, XSP := new_sp)) r" for r using f[of r] by (cases r) simp_all
      then have regs: "(\<lambda>r. xm ?m3 (?b + 8 * slot r)) = (xr m)(XA0 := v, XSP := new_sp)" by (rule ext)
      have "xm ?m3 (?b + 248) = new_ip" "cr ?m3 SATP = rv_satp (unat new_pt)" "rworld ?m3 = k1" by simp_all
      then show ?thesis using R[unfolded regs] Pair Some a assms(1) by auto
    qed
  qed
qed

theorem rv_syscall_correct_witness:
  "\<exists>m'. rv_run demo_rv_junk (trap_entry (kernel_ops trap_env) \<lparr>in_time = 7, in_claim = 0, in_uart = []\<rparr>) (trap_hw 8 0 (demo_hart False)) = Next m'
     \<and> xr m' = (\<lambda>_. 5)(XSP := 0x7000, XA7 := 39, XA0 := pid task_idle) \<and> pc m' = 0x100001238 \<and> cr m' SSCRATCH = 0x9000"
proof -
  let ?m = "demo_hart False" and ?ops = "kernel_ops trap_env"
  let ?k = "(set_user_ctx 0x100001238 0x7000 trap_kernel)\<lparr>sys_user_regs := [5, 5, 5, 5, 5, 5]\<rparr>"
  have "op_dispatch ?ops (xr ?m XA7) [xr ?m XA0, xr ?m XA1, xr ?m XA2, xr ?m XA3, xr ?m XA4, xr ?m XA5]
       (op_user_ctx ?ops (pc ?m + 4) (xr ?m XSP) (rworld ?m)) = Next (?k, word_of_int (sint (pid task_idle)))"
    by (simp add: kernel_ops_def demo_hart_def dispatch_def Let_def sys_getpid_def current_pid_def set_user_ctx_def ret_def)
  from rv_syscall_correct[OF _ _ this, of demo_rv_junk "\<lparr>in_time = 7, in_claim = 0, in_uart = []\<rparr>" 0] show ?thesis
    by (auto simp: demo_hart_def kernel_ops_def take_exec_ctx_def set_user_ctx_def)
qed

text \<open>The frame has an odd number of words: with an aligned kernel stack the handler is called with a stack pointer
  that is not a multiple of 16, which the calling convention demands.\<close>

lemma rv_handler_misaligned:
  assumes "take_bit 4 (kernel_top m) = 0" "in_handler m c t (kernel_top m - frame_size) m2"
  shows "take_bit 4 (xr m2 XSP) = 8"
proof -
  have "take_bit 4 (kernel_top m - 264) = 8" using assms(1) by (simp add: sp_simps)
  then show ?thesis using assms(2) by (simp add: in_handler_def frame_size_def)
qed

section \<open>Context switch and first entry\<close>

definition rv_context_switch :: "'k rvi list" where
  "rv_context_switch =
     [Xaddi XSP XSP (- 104), Sd XRA (0 * 8) XSP, Sd XS0 (1 * 8) XSP, Sd XS1 (2 * 8) XSP, Sd XS2 (3 * 8) XSP, Sd XS3 (4 * 8) XSP,
      Sd XS4 (5 * 8) XSP, Sd XS5 (6 * 8) XSP, Sd XS6 (7 * 8) XSP, Sd XS7 (8 * 8) XSP, Sd XS8 (9 * 8) XSP, Sd XS9 (10 * 8) XSP,
      Sd XS10 (11 * 8) XSP, Sd XS11 (12 * 8) XSP, Sd XSP 0 XA0, Mv XSP XA1,
      Ld XRA (0 * 8) XSP, Ld XS0 (1 * 8) XSP, Ld XS1 (2 * 8) XSP, Ld XS2 (3 * 8) XSP, Ld XS3 (4 * 8) XSP, Ld XS4 (5 * 8) XSP,
      Ld XS5 (6 * 8) XSP, Ld XS6 (7 * 8) XSP, Ld XS7 (8 * 8) XSP, Ld XS8 (9 * 8) XSP, Ld XS9 (10 * 8) XSP, Ld XS10 (11 * 8) XSP,
      Ld XS11 (12 * 8) XSP, Xaddi XSP XSP 104, Xret]"

definition rv_set_kernel_stack :: "u64 \<Rightarrow> 'k hart \<Rightarrow> 'k hart" where
  "rv_set_kernel_stack sp = set_csr SSCRATCH sp"

definition rv_user_enter_trampoline :: "'k rvi list" where
  "rv_user_enter_trampoline = [Csrw SEPC XS1, Csrw SSTATUS XS2, Mv XSP XS0, Sret]"

definition rv_task_init_stack :: "nat \<Rightarrow> u64 \<Rightarrow> mem \<Rightarrow> mem \<times> u64" where
  "rv_task_init_stack stack entry m =
     (let sp = stack_end stack - 13 * 8 in (wr_words sp (entry # replicate 12 0) m, word_of_nat sp))"

definition rv_task_init_userspace_stack :: "u64 \<Rightarrow> nat \<Rightarrow> u64 \<Rightarrow> u64 \<Rightarrow> mem \<Rightarrow> mem \<times> u64" where
  "rv_task_init_userspace_stack tramp stack user_rip user_rsp m =
     (let sp = stack_end stack - 13 * 8
      in (wr_words sp ([tramp, user_rsp, user_rip, push_bit 5 1 OR push_bit 18 1] @ replicate 9 0) m, word_of_nat sp))"

text \<open>The memory after the registers of the running task have been saved.\<close>

definition rv_suspended :: "'k hart \<Rightarrow> u64 \<Rightarrow> u64" where
  "rv_suspended m = (let sp = xr m XSP - 104 in
     (xm m)(sp := xr m XRA, sp + 8 := xr m XS0, sp + 16 := xr m XS1, sp + 24 := xr m XS2, sp + 32 := xr m XS3, sp + 40 := xr m XS4,
       sp + 48 := xr m XS5, sp + 56 := xr m XS6, sp + 64 := xr m XS7, sp + 72 := xr m XS8, sp + 80 := xr m XS9, sp + 88 := xr m XS10,
       sp + 96 := xr m XS11, xr m XA0 := sp))"

lemma rv_context_switch_exec:
  "rv_exec j rv_context_switch m =
     (let s = rv_suspended m; sp = xr m XA1 in
      Next (m\<lparr>xm := s, pc := s sp,
              xr := (xr m)(XRA := s sp, XS0 := s (sp + 8), XS1 := s (sp + 16), XS2 := s (sp + 24), XS3 := s (sp + 32), XS4 := s (sp + 40),
                XS5 := s (sp + 48), XS6 := s (sp + 56), XS7 := s (sp + 64), XS8 := s (sp + 72), XS9 := s (sp + 80), XS10 := s (sp + 88),
                XS11 := s (sp + 96), XSP := sp + 104)\<rparr>))"
  unfolding rv_context_switch_def by (simp add: rv_simps rv_suspended_def)

lemma rv_user_frame:
  assumes "rv_task_init_userspace_stack tramp stack uip usp mem = (mem', ksp)" "stack + STACK_SIZE < 2 ^ 64"
    "list_all (\<lambda>i. rv_suspended m (ksp + 8 * word_of_nat i) = rd64 mem' (unat ksp + 8 * i)) [0..<13]" "i < 13"
  shows "rv_suspended m (ksp + 8 * word_of_nat i) = ([tramp, usp, uip, 0x40020] @ replicate 9 0) ! i"
proof -
  let ?sp = "stack_end stack - 104" let ?ws = "[tramp, usp, uip, push_bit 5 1 OR push_bit 18 1] @ replicate 9 0"
  have "?sp < 2 ^ 64" using assms(2) by (simp add: stack_end_def)
  then have k: "unat ksp = ?sp" using assms(1) by (auto simp: rv_task_init_userspace_stack_def Let_def unsigned_of_nat take_bit_nat_eq_self_iff)
  have m: "mem' = wr_words ?sp ?ws mem" using assms(1) by (simp add: rv_task_init_userspace_stack_def Let_def)
  show ?thesis using assms(3,4) wr_words_nth[of i ?ws ?sp mem] k m by (simp add: list_all_length)
qed

text \<open>The first switch to the stack that \<^verbatim>\<open>task_init_userspace_stack\<close> builds ends in user mode at the entry point with the
  given stack and interrupts enabled.\<close>

theorem rv_user_task_starts:
  assumes "rv_task_init_userspace_stack tramp stack uip usp mem = (mem', ksp)" "stack + STACK_SIZE < 2 ^ 64" "xr m XA1 = ksp"
    "list_all (\<lambda>i. rv_suspended m (ksp + 8 * word_of_nat i) = rd64 mem' (unat ksp + 8 * i)) [0..<13]"
  shows "\<exists>m1 m2. rv_exec j rv_context_switch m = Next m1 \<and> pc m1 = tramp \<and> rv_exec j rv_user_enter_trampoline m1 = Next m2
    \<and> pc m2 = uip \<and> xr m2 XSP = usp \<and> \<not> smode m2 \<and> bit (cr m2 SSTATUS) 1"
proof -
  note F = rv_user_frame[OF assms(1,2,4)]
  have "rv_suspended m ksp = tramp" "rv_suspended m (ksp + 8) = usp" "rv_suspended m (ksp + 16) = uip" "rv_suspended m (ksp + 24) = 0x40020"
    using F[of 0] F[of 1] F[of 2] F[of 3] by simp_all
  then show ?thesis
    using assms(3) by (simp add: rv_context_switch_exec Let_def rv_user_enter_trampoline_def rv_simps sret_hw_def status_leave_def)
qed

section \<open>Fork\<close>

definition rv_task_init_fork_stack ::
    "u64 \<Rightarrow> nat \<Rightarrow> u64 \<Rightarrow> u64 \<Rightarrow> u64 list \<Rightarrow> u64 list \<Rightarrow> mem \<Rightarrow> mem \<times> u64" where
  "rv_task_init_fork_stack tramp stack user_rip user_rsp args saved m =
     rv_task_init_userspace_stack tramp stack user_rip user_rsp m"

text \<open>C19: On riscv64 a forked child does not start with its parent's registers: it enters user mode at the parent's
  position and stack, but \<^verbatim>\<open>a0\<close>, where \<^verbatim>\<open>fork\<close> should return 0, still has the kernel's pointer to the saved stack
  pointer of the task that ran before, \<^verbatim>\<open>a1\<close> has the child's kernel stack pointer, \<^verbatim>\<open>s0\<close>, \<^verbatim>\<open>s1\<close> and \<^verbatim>\<open>s2\<close> have the stack,
  the position and the status word, and \<^verbatim>\<open>s3\<close> to \<^verbatim>\<open>s11\<close> are 0.\<close>

theorem rv_fork_child_registers:
  assumes "rv_task_init_fork_stack tramp stack uip usp args saved mem = (mem', ksp)" "stack + STACK_SIZE < 2 ^ 64" "xr m XA1 = ksp"
    "list_all (\<lambda>i. rv_suspended m (ksp + 8 * word_of_nat i) = rd64 mem' (unat ksp + 8 * i)) [0..<13]"
  shows "\<exists>m1 m2. rv_exec j rv_context_switch m = Next m1 \<and> pc m1 = tramp \<and> rv_exec j rv_user_enter_trampoline m1 = Next m2
    \<and> pc m2 = uip \<and> xr m2 XSP = usp \<and> \<not> smode m2 \<and> xr m2 XA0 = xr m XA0 \<and> xr m2 XA1 = ksp
    \<and> map (xr m2) [XS0, XS1, XS2] = [usp, uip, 0x40020] \<and> list_all (\<lambda>r. xr m2 r = 0) [XS3, XS4, XS5, XS6, XS7, XS8, XS9, XS10, XS11]"
proof -
  note F = rv_user_frame[OF assms(1)[unfolded rv_task_init_fork_stack_def] assms(2,4)]
  have "rv_suspended m ksp = tramp" "rv_suspended m (ksp + 8) = usp" "rv_suspended m (ksp + 16) = uip" "rv_suspended m (ksp + 24) = 0x40020"
    "rv_suspended m (ksp + 32) = 0" "rv_suspended m (ksp + 40) = 0" "rv_suspended m (ksp + 48) = 0" "rv_suspended m (ksp + 56) = 0"
    "rv_suspended m (ksp + 64) = 0" "rv_suspended m (ksp + 72) = 0" "rv_suspended m (ksp + 80) = 0" "rv_suspended m (ksp + 88) = 0"
    "rv_suspended m (ksp + 96) = 0"
    using F[of 0] F[of 1] F[of 2] F[of 3] F[of 4] F[of 5] F[of 6] F[of 7] F[of 8] F[of 9] F[of 10] F[of 11] F[of 12]
    by (simp_all add: nth_append)
  then show ?thesis
    using assms(3) by (simp add: rv_context_switch_exec Let_def rv_user_enter_trampoline_def rv_simps sret_hw_def)
qed

theorem rv_fork_child_registers_witness:
  "\<exists>mem' ksp m1 m2. rv_task_init_fork_stack 0x1111 0x300000 0x100001234 0x7000 [1, 2, 3, 4, 5, 6] [7, 8, 9, 10, 11, 12] demo_mem = (mem', ksp)
     \<and> rv_exec demo_rv_junk rv_context_switch ((demo_hart True)\<lparr>xr := (\<lambda>_. 0)(XSP := 0x1000, XA0 := 0x8000, XA1 := ksp), xm := (\<lambda>a. rd64 mem' (unat a))\<rparr>) = Next m1
     \<and> rv_exec demo_rv_junk rv_user_enter_trampoline m1 = Next m2 \<and> pc m2 = 0x100001234 \<and> xr m2 XSP = 0x7000 \<and> xr m2 XA0 = 0x8000 \<and> xr m2 XS3 = 0"
proof -
  obtain mem' ksp where t: "rv_task_init_fork_stack 0x1111 0x300000 0x100001234 0x7000 [1, 2, 3, 4, 5, 6] [7, 8, 9, 10, 11, 12] demo_mem = (mem', ksp)"
    by fastforce
  then have ksp: "ksp = 0x307F98"
    by (simp add: rv_task_init_fork_stack_def rv_task_init_userspace_stack_def Let_def stack_end_def STACK_SIZE_def STACK_PAGES_def)
  let ?m = "(demo_hart True)\<lparr>xr := (\<lambda>_. 0)(XSP := 0x1000, XA0 := 0x8000, XA1 := ksp), xm := (\<lambda>a. rd64 mem' (unat a))\<rparr>"
  have u: "[0..<13] = [0, 1, 2, 3, 4, 5, 6, 7, 8, 9, 10, 11, 12]" by code_simp
  have f: "list_all (\<lambda>i. rv_suspended ?m (ksp + 8 * word_of_nat i) = rd64 mem' (unat ksp + 8 * i)) [0..<13]"
    unfolding u by (simp add: ksp rv_suspended_def Let_def)
  have "xr ?m XA1 = ksp" "0x300000 + STACK_SIZE < 2 ^ 64" by (simp_all add: STACK_SIZE_def STACK_PAGES_def)
  from rv_fork_child_registers[OF t this(2,1) f, of demo_rv_junk] t show ?thesis by auto
qed

end
