(* ===== verification/Arm64.thy ===== *)
theory Arm64
  imports RvTraps
begin

text \<open>
  The aarch64 back end: \<^verbatim>\<open>kernel/src/arch/aarch64/exceptions.rs\<close>, \<^verbatim>\<open>context.rs\<close> and \<^verbatim>\<open>boot.rs\<close> as programs of a small
  processor, and the interrupt controllers of the two boards (\<^verbatim>\<open>boards/qemu_virt_aarch64/gic.rs\<close>,
  \<^verbatim>\<open>boards/raspberrypi3/intc.rs\<close>).

  The processor runs at exception level 1 only, as the kernel does on this target.  General registers are numbered;
  the vector registers are kept because compiled code uses them.  Memory is a function from addresses to 64-bit words,
  used at addresses that differ from the stack pointer by multiples of 8.  A call of a compiled function follows the
  AAPCS64: \<^verbatim>\<open>x19\<close> to \<^verbatim>\<open>x29\<close>, the stack pointer, the low halves of \<^verbatim>\<open>v8\<close> to \<^verbatim>\<open>v15\<close> and the memory from the stack pointer on
  keep their values, the rest is left with arbitrary contents.
\<close>

section \<open>The processor\<close>

record 'k arm =
  ax :: "nat \<Rightarrow> u64"
  asp :: u64
  aq :: "nat \<Rightarrow> 128 word"
  am :: "u64 \<Rightarrow> u64"
  apc :: u64
  apstate :: u64
  elr :: u64
  spsr :: u64
  tpidr :: u64
  interval :: u64
  cntp_tval :: u64
  cntp_ctl :: u64
  ammio :: "(nat \<times> u32) list"
  aworld :: 'k

record arm_junk =
  j_x :: "nat \<Rightarrow> u64"
  j_q :: "nat \<Rightarrow> 128 word"
  j_m :: "u64 \<Rightarrow> u64"

datatype 'k a64 =
    AddSp u64
  | Str nat u64
  | Ldr nat u64
  | Stp nat nat u64
  | Ldp nat nat u64
  | MovFromSp nat
  | MovToSp nat
  | StrAt nat nat
  | MrsElr nat
  | MsrElr nat
  | MrsSpsr nat
  | MsrSpsr nat
  | Bl "'k arm \<Rightarrow> 'k arm flow"
  | RetLr
  | Eret
  | Wfi

definition arm_saved :: "nat \<Rightarrow> bool" where
  "arm_saved r \<longleftrightarrow> 19 \<le> r \<and> r \<le> 29"

definition low_half :: "128 word \<Rightarrow> 128 word \<Rightarrow> 128 word" where
  "low_half old new = (new AND NOT (mask 64)) OR (old AND mask 64)"

definition arm_compiled :: "arm_junk \<Rightarrow> ('k arm \<Rightarrow> 'k arm flow) \<Rightarrow> 'k arm \<Rightarrow> 'k arm flow" where
  "arm_compiled j f m =
     andthen (f m)
       (\<lambda>m'. Next (m'\<lparr>ax := (\<lambda>r. if arm_saved r then ax m r else j_x j r), asp := asp m,
                      aq := (\<lambda>r. if 8 \<le> r \<and> r \<le> 15 then low_half (aq m r) (j_q j r) else j_q j r),
                      am := (\<lambda>a. if a - asp m < 0x8000000000000000 then am m' a else j_m j a)\<rparr>)) id"

definition setx :: "nat \<Rightarrow> u64 \<Rightarrow> 'k arm \<Rightarrow> 'k arm" where
  "setx r v m = m\<lparr>ax := (ax m)(r := v)\<rparr>"

definition store :: "u64 \<Rightarrow> u64 \<Rightarrow> 'k arm \<Rightarrow> 'k arm" where
  "store a v m = m\<lparr>am := (am m)(a := v)\<rparr>"

fun arm_step :: "arm_junk \<Rightarrow> 'k a64 \<Rightarrow> 'k arm \<Rightarrow> 'k arm flow" where
  "arm_step j (AddSp v) m = Next (m\<lparr>asp := asp m + v\<rparr>)"
| "arm_step j (Str r d) m = Next (store (asp m + d) (ax m r) m)"
| "arm_step j (Ldr r d) m = Next (setx r (am m (asp m + d)) m)"
| "arm_step j (Stp r s d) m = Next (store (asp m + d + 8) (ax m s) (store (asp m + d) (ax m r) m))"
| "arm_step j (Ldp r s d) m = Next (setx s (am m (asp m + d + 8)) (setx r (am m (asp m + d)) m))"
| "arm_step j (MovFromSp r) m = Next (setx r (asp m) m)"
| "arm_step j (MovToSp r) m = Next (m\<lparr>asp := ax m r\<rparr>)"
| "arm_step j (StrAt r b) m = Next (store (ax m b) (ax m r) m)"
| "arm_step j (MrsElr r) m = Next (setx r (elr m) m)"
| "arm_step j (MsrElr r) m = Next (m\<lparr>elr := ax m r\<rparr>)"
| "arm_step j (MrsSpsr r) m = Next (setx r (spsr m) m)"
| "arm_step j (MsrSpsr r) m = Next (m\<lparr>spsr := ax m r\<rparr>)"
| "arm_step j (Bl f) m = arm_compiled j f m"
| "arm_step j RetLr m = Next (m\<lparr>apc := ax m 30\<rparr>)"
| "arm_step j Eret m = Next (m\<lparr>apc := elr m, apstate := spsr m\<rparr>)"
| "arm_step j Wfi m = Away m"

fun arm_exec :: "arm_junk \<Rightarrow> 'k a64 list \<Rightarrow> 'k arm \<Rightarrow> 'k arm flow" where
  "arm_exec j [] m = Next m"
| "arm_exec j (i # is) m = andthen (arm_step j i m) (arm_exec j is) id"

text \<open>An exception of the given kind, taken from the given source, saves the position and the state, masks the
  exceptions (bits 6 to 9) and goes on at the vector of that source and kind.\<close>

datatype arm_kind = Sync | Irq | Fiq | SError
datatype arm_source = CurrentSp0 | CurrentSpx | Lower64 | Lower32

fun kind_offset :: "arm_kind \<Rightarrow> nat" where
  "kind_offset Sync = 0" | "kind_offset Irq = 0x80" | "kind_offset Fiq = 0x100" | "kind_offset SError = 0x180"

fun source_offset :: "arm_source \<Rightarrow> nat" where
  "source_offset CurrentSp0 = 0" | "source_offset CurrentSpx = 0x200" | "source_offset Lower64 = 0x400" | "source_offset Lower32 = 0x600"

definition arm_take :: "'k arm \<Rightarrow> 'k arm" where
  "arm_take m = m\<lparr>elr := apc m, spsr := apstate m, apstate := apstate m OR 0x3C0\<rparr>"

section \<open>The interrupt controllers\<close>

record 'k arm_ops =
  ao_tick :: "'k \<Rightarrow> 'k flow"
  ao_serial :: "bytes \<Rightarrow> 'k \<Rightarrow> 'k"
  ao_print :: "bytes \<Rightarrow> 'k \<Rightarrow> 'k"

text \<open>What the devices deliver: the acknowledge register and the two status registers, the received bytes, and the
  syndrome registers.\<close>

record arm_input =
  ai_iar :: u32
  ai_source :: u32
  ai_pending :: u32
  ai_uart :: bytes
  ai_esr :: u64
  ai_far :: u64

text \<open>\<^verbatim>\<open>drivers/timer/src/generic_timer.rs\<close>: the static \<^verbatim>\<open>INTERVAL\<close> is the field \<open>interval\<close>; \<open>freq\<close> is the frequency register.\<close>

definition generic_timer_init :: "u64 \<Rightarrow> 'k arm \<Rightarrow> 'k arm" where
  "generic_timer_init freq m = (let v = freq div 100 in m\<lparr>interval := v, cntp_tval := v, cntp_ctl := 1\<rparr>)"

definition rearm :: "'k arm \<Rightarrow> 'k arm" where
  "rearm m = m\<lparr>cntp_tval := interval m\<rparr>"

definition GICD_BASE :: nat where "GICD_BASE = 0x08000000"
definition GICC_BASE :: nat where "GICC_BASE = 0x08010000"
definition GICD_CTLR :: nat where "GICD_CTLR = 0x000"
definition GICD_ISENABLER :: nat where "GICD_ISENABLER = 0x100"
definition GICD_ICENABLER :: nat where "GICD_ICENABLER = 0x180"
definition GICD_ITARGETSR :: nat where "GICD_ITARGETSR = 0x800"
definition GICC_CTLR :: nat where "GICC_CTLR = 0x000"
definition GICC_PMR :: nat where "GICC_PMR = 0x004"
definition GICC_EOIR :: nat where "GICC_EOIR = 0x010"
definition GIC_TIMER_IRQ :: u32 where "GIC_TIMER_IRQ = 30"
definition GIC_UART_IRQ :: u32 where "GIC_UART_IRQ = 33"

lemmas gic_regs = GICD_BASE_def GICC_BASE_def GICD_CTLR_def GICD_ISENABLER_def GICD_ICENABLER_def GICD_ITARGETSR_def
  GICC_CTLR_def GICC_PMR_def GICC_EOIR_def
lemmas gic_ids = GIC_TIMER_IRQ_def GIC_UART_IRQ_def

definition gicd32 :: "nat \<Rightarrow> nat" where "gicd32 off = GICD_BASE + off"
definition gicc32 :: "nat \<Rightarrow> nat" where "gicc32 off = GICC_BASE + off"

definition gic_enable :: "u32 \<Rightarrow> (nat \<times> u32) list" where
  "gic_enable irq =
     (if unat irq \<ge> 32 then [(GICD_BASE + GICD_ITARGETSR + unat irq, 1)] else [])
     @ [(gicd32 (GICD_ISENABLER + unat irq div 32 * 4), push_bit (unat irq mod 32) 1)]"

definition gic_disable :: "u32 \<Rightarrow> (nat \<times> u32) list" where
  "gic_disable irq = [(gicd32 (GICD_ICENABLER + unat irq div 32 * 4), push_bit (unat irq mod 32) 1)]"

definition gic_eoi :: "u32 \<Rightarrow> (nat \<times> u32) list" where
  "gic_eoi irq = [(gicc32 GICC_EOIR, irq)]"

definition gic_init :: "(nat \<times> u32) list" where
  "gic_init = [(gicd32 GICD_CTLR, 1), (gicc32 GICC_PMR, 0xFF), (gicc32 GICC_CTLR, 1)]
     @ gic_enable GIC_TIMER_IRQ @ gic_enable GIC_UART_IRQ"

definition awrites :: "(nat \<times> u32) list \<Rightarrow> 'k arm \<Rightarrow> 'k arm" where
  "awrites ws m = m\<lparr>ammio := ammio m @ ws\<rparr>"

definition gic_handle :: "'k arm_ops \<Rightarrow> arm_input \<Rightarrow> 'k arm \<Rightarrow> 'k arm flow" where
  "gic_handle ops i m =
     (let irq = ai_iar i AND 0x3FF;
          fin = (\<lambda>m1. Next (awrites (if irq \<noteq> 1023 then gic_eoi irq else []) m1))
      in if irq = GIC_TIMER_IRQ then andthen (ao_tick ops (aworld m)) (\<lambda>k. fin (rearm (m\<lparr>aworld := k\<rparr>))) (\<lambda>k. m\<lparr>aworld := k\<rparr>)
         else if irq = GIC_UART_IRQ then fin (m\<lparr>aworld := ao_serial ops (ai_uart i) (aworld m)\<rparr>)
         else fin m)"

text \<open>The Raspberry Pi 3 has a status register per core and a controller for the peripherals.\<close>

definition PERIPHERAL_BASE :: nat where "PERIPHERAL_BASE = 0x3F000000"
definition LOCAL_BASE :: nat where "LOCAL_BASE = 0x40000000"
definition CORE0_TIMER_IRQCNTL :: nat where "CORE0_TIMER_IRQCNTL = LOCAL_BASE + 0x40"
definition CORE0_SRC_CNTPNSIRQ :: u32 where "CORE0_SRC_CNTPNSIRQ = push_bit 1 1"
definition CORE0_SRC_GPU :: u32 where "CORE0_SRC_GPU = push_bit 8 1"
definition LEGACY_BASE :: nat where "LEGACY_BASE = PERIPHERAL_BASE + 0xB200"
definition ENABLE_IRQS_2 :: nat where "ENABLE_IRQS_2 = LEGACY_BASE + 0x14"
definition RPI_UART_IRQ :: u32 where "RPI_UART_IRQ = 57"
definition RPI_TIMER_IRQ :: u32 where "RPI_TIMER_IRQ = 1"

definition uart_bit :: u32 where "uart_bit = push_bit (unat (RPI_UART_IRQ - 32)) 1"

definition intc_enable :: "u32 \<Rightarrow> u32 \<Rightarrow> (nat \<times> u32) list" where
  "intc_enable ctl irq =
     (if irq = RPI_TIMER_IRQ then [(CORE0_TIMER_IRQCNTL, ctl OR CORE0_SRC_CNTPNSIRQ)]
      else if irq = RPI_UART_IRQ then [(ENABLE_IRQS_2, uart_bit)] else [])"

definition intc_disable :: "u32 \<Rightarrow> u32 \<Rightarrow> (nat \<times> u32) list" where
  "intc_disable ctl irq = (if irq = RPI_TIMER_IRQ then [(CORE0_TIMER_IRQCNTL, ctl AND NOT CORE0_SRC_CNTPNSIRQ)] else [])"

definition intc_init :: "u32 \<Rightarrow> (nat \<times> u32) list" where
  "intc_init ctl = [(CORE0_TIMER_IRQCNTL, ctl OR CORE0_SRC_CNTPNSIRQ), (ENABLE_IRQS_2, uart_bit)]"

definition intc_handle :: "'k arm_ops \<Rightarrow> arm_input \<Rightarrow> 'k arm \<Rightarrow> 'k arm flow" where
  "intc_handle ops i m =
     (let timer = (if ai_source i AND CORE0_SRC_CNTPNSIRQ \<noteq> 0
                   then andthen (ao_tick ops (aworld m)) (\<lambda>k. Next (rearm (m\<lparr>aworld := k\<rparr>))) (\<lambda>k. m\<lparr>aworld := k\<rparr>) else Next m)
      in andthen timer
           (\<lambda>m1. Next (if ai_source i AND CORE0_SRC_GPU \<noteq> 0 \<and> ai_pending i AND uart_bit \<noteq> 0
                       then m1\<lparr>aworld := ao_serial ops (ai_uart i) (aworld m1)\<rparr> else m1)) id)"

section \<open>The vectors\<close>

text \<open>\<open>intc\<close> is the handler of the board's interrupt controller.\<close>

definition aarch64_irq_handler :: "('k arm \<Rightarrow> 'k arm flow) \<Rightarrow> 'k arm \<Rightarrow> 'k arm flow" where
  "aarch64_irq_handler intc m = intc m"

definition aarch64_fatal_handler :: "'k arm_ops \<Rightarrow> arm_input \<Rightarrow> 'k arm \<Rightarrow> 'k arm flow" where
  "aarch64_fatal_handler ops i m =
     Away (m\<lparr>aworld := ao_print ops (ascii ''[TRAP] unhandled aarch64 exception esr=0x'' @ hex (ai_esr i) @ ascii '' far=0x'' @ hex (ai_far i)
               @ ascii '' elr=0x'' @ hex (am m (ax m 0 + 31 * 8)) @ nl) (aworld m)\<rparr>)"

text \<open>The frame has room for 34 words: \<^verbatim>\<open>x0\<close> to \<^verbatim>\<open>x30\<close>, \<^verbatim>\<open>elr_el1\<close>, \<^verbatim>\<open>spsr_el1\<close> and a pad.\<close>

definition vec_save :: "'k a64 list" where
  "vec_save = AddSp (- 272) # map (\<lambda>i. Str i (8 * word_of_nat i)) [0..<31]
     @ [MrsElr 0, Str 0 (31 * 8), MrsSpsr 0, Str 0 (32 * 8), MovFromSp 0]"

definition vec_restore :: "'k a64 list" where
  "vec_restore = [Ldr 0 (31 * 8), MsrElr 0, Ldr 0 (32 * 8), MsrSpsr 0] @ map (\<lambda>i. Ldr i (8 * word_of_nat i)) [1..<31]
     @ [Ldr 0 0, AddSp 272, Eret]"

definition vec_irq :: "('k arm \<Rightarrow> 'k arm flow) \<Rightarrow> 'k a64 list" where
  "vec_irq intc = vec_save @ [Bl (aarch64_irq_handler intc)] @ vec_restore"

definition vec_fatal :: "'k arm_ops \<Rightarrow> arm_input \<Rightarrow> 'k a64 list" where
  "vec_fatal ops i = vec_save @ [Bl (aarch64_fatal_handler ops i), Wfi]"

datatype vec_label = VecIrq | VecFatal

definition aarch64_vector_table :: "vec_label list" where
  "aarch64_vector_table =
     [VecFatal, VecFatal, VecFatal, VecFatal,
      VecFatal, VecIrq, VecFatal, VecFatal,
      VecFatal, VecFatal, VecFatal, VecFatal,
      VecFatal, VecFatal, VecFatal, VecFatal]"

definition arm_exception ::
    "'k arm_ops \<Rightarrow> ('k arm \<Rightarrow> 'k arm flow) \<Rightarrow> arm_input \<Rightarrow> arm_junk \<Rightarrow> arm_source \<Rightarrow> arm_kind \<Rightarrow> 'k arm \<Rightarrow> 'k arm flow" where
  "arm_exception ops intc i j src knd m =
     (case aarch64_vector_table ! ((source_offset src + kind_offset knd) div 0x80) of
        VecIrq \<Rightarrow> arm_exec j (vec_irq intc) (arm_take m)
      | VecFatal \<Rightarrow> arm_exec j (vec_fatal ops i) (arm_take m))"

section \<open>Context switch\<close>

definition arm_context_switch :: "'k a64 list" where
  "arm_context_switch =
     [AddSp (- 96), Stp 30 29 0, Stp 19 20 16, Stp 21 22 32, Stp 23 24 48, Stp 25 26 64, Stp 27 28 80,
      MovFromSp 2, StrAt 2 0] @
     [MovToSp 1,
      Ldp 30 29 0, Ldp 19 20 16, Ldp 21 22 32, Ldp 23 24 48, Ldp 25 26 64, Ldp 27 28 80, AddSp 96, RetLr]"

definition arm_task_init_stack :: "nat \<Rightarrow> u64 \<Rightarrow> mem \<Rightarrow> mem \<times> u64" where
  "arm_task_init_stack stack entry m =
     (let sp = stack_end stack - 12 * 8
      in (wr_words sp (entry # replicate 11 0) m, word_of_nat sp))"

definition arm_set_kernel_stack :: "u64 \<Rightarrow> 'k arm \<Rightarrow> 'k arm" where
  "arm_set_kernel_stack sp m = m\<lparr>tpidr := sp\<rparr>"

text \<open>There is no program at the lower exception level yet: both functions panic.\<close>

definition arm_task_init_userspace_stack :: "nat \<Rightarrow> u64 \<Rightarrow> u64 \<Rightarrow> mem \<Rightarrow> (mem \<times> u64) option" where
  "arm_task_init_userspace_stack stack user_rip user_rsp m = None"

definition arm_task_init_fork_stack :: "nat \<Rightarrow> u64 \<Rightarrow> u64 \<Rightarrow> u64 list \<Rightarrow> u64 list \<Rightarrow> mem \<Rightarrow> (mem \<times> u64) option" where
  "arm_task_init_fork_stack stack user_rip user_rsp args saved m = None"

section \<open>What the vectors do\<close>

lemma frame_word_eq: "(8 * word_of_nat i :: u64) = 8 * word_of_nat k \<longleftrightarrow> i = k" if "i < 100" "k < 100"
proof -
  have "unat (8 * word_of_nat n :: u64) = 8 * n" if "n < 100" for n
    using that by (simp add: unat_word_ariths unat_of_nat take_bit_nat_def)
  then show ?thesis using that by (metis mult_cancel_left zero_neq_numeral)
qed

lemma frame_word_248: "(8 * word_of_nat i :: u64) = 248 \<longleftrightarrow> i = 31" if "i < 100"
  using frame_word_eq[OF that, of 31] by simp

lemma frame_word_256: "(8 * word_of_nat i :: u64) = 256 \<longleftrightarrow> i = 32" if "i < 100"
  using frame_word_eq[OF that, of 32] by simp

lemmas frame_words = frame_word_eq frame_word_248 frame_word_256

lemma arm_exec_append: "arm_exec j (p @ q) m = andthen (arm_exec j p m) (arm_exec j q) id"
proof (induction p arbitrary: m)
  case (Cons i p)
  then show ?case by (cases "arm_step j i m") simp_all
qed simp

lemma arm_stores:
  assumes "n < 50"
  shows "\<exists>f. arm_exec j (map (\<lambda>i. Str i (8 * word_of_nat i)) [0..<n]) m = Next (m\<lparr>am := f\<rparr>)
    \<and> (\<forall>i<n. f (asp m + 8 * word_of_nat i) = ax m i) \<and> (\<forall>a. (\<forall>i<n. a \<noteq> asp m + 8 * word_of_nat i) \<longrightarrow> f a = am m a)"
  using assms
proof (induction n)
  case (Suc n)
  then obtain f where f: "arm_exec j (map (\<lambda>i. Str i (8 * word_of_nat i)) [0..<n]) m = Next (m\<lparr>am := f\<rparr>)"
    "\<forall>i<n. f (asp m + 8 * word_of_nat i) = ax m i" "\<forall>a. (\<forall>i<n. a \<noteq> asp m + 8 * word_of_nat i) \<longrightarrow> f a = am m a" by auto
  let ?g = "f(asp m + 8 * word_of_nat n := ax m n)"
  have "arm_exec j (map (\<lambda>i. Str i (8 * word_of_nat i)) [0..<Suc n]) m = Next (m\<lparr>am := ?g\<rparr>)"
    using f(1) by (simp add: arm_exec_append store_def)
  moreover have "?g (asp m + 8 * word_of_nat i) = ax m i" if "i < Suc n" for i
    using that f(2) Suc.prems by (auto simp: frame_words less_Suc_eq)
  moreover have "?g a = am m a" if "\<forall>i<Suc n. a \<noteq> asp m + 8 * word_of_nat i" for a
    using that f(3) by auto
  ultimately show ?case by blast
qed (auto intro!: exI[of _ "am m"])

lemma arm_loads:
  "arm_exec j (map (\<lambda>i. Ldr i (8 * word_of_nat i)) [k..<n]) m =
     Next (m\<lparr>ax := \<lambda>r. if k \<le> r \<and> r < n then am m (asp m + 8 * word_of_nat r) else ax m r\<rparr>)"
proof (induction n)
  case 0
  have "(\<lambda>r. if k \<le> r \<and> r < 0 then am m (asp m + 8 * word_of_nat r) else ax m r) = ax m" by auto
  then show ?case by simp
next
  case (Suc n)
  have "(\<lambda>r. if k \<le> r \<and> r < n then am m (asp m + 8 * word_of_nat r) else ax m r)(n := am m (asp m + 8 * word_of_nat n))
      = (\<lambda>r. if k \<le> r \<and> r < Suc n then am m (asp m + 8 * word_of_nat r) else ax m r)" if "k \<le> n"
    using that by (auto simp: fun_eq_iff)
  moreover have "(\<lambda>r. if k \<le> r \<and> r < Suc n then am m (asp m + 8 * word_of_nat r) else ax m r) = ax m" if "\<not> k \<le> n"
    using that by (auto simp: fun_eq_iff)
  ultimately show ?case using Suc by (cases "k \<le> n") (simp_all add: arm_exec_append setx_def)
qed

text \<open>\<open>m2\<close> is in a handler with the frame of the interrupted state \<open>m\<close>.\<close>

definition in_vector :: "'k arm \<Rightarrow> 'k arm \<Rightarrow> bool" where
  "in_vector m m2 \<longleftrightarrow>
     asp m2 = asp m - 272 \<and> ax m2 0 = asp m2 \<and> (\<forall>r<31. am m2 (asp m2 + 8 * word_of_nat r) = ax m r)
     \<and> am m2 (asp m2 + 248) = apc m \<and> am m2 (asp m2 + 256) = apstate m
     \<and> (\<forall>a. (\<forall>i<33. a \<noteq> asp m2 + 8 * word_of_nat i) \<longrightarrow> am m2 a = am m a)
     \<and> aq m2 = aq m \<and> tpidr m2 = tpidr m \<and> interval m2 = interval m \<and> cntp_tval m2 = cntp_tval m \<and> cntp_ctl m2 = cntp_ctl m
     \<and> ammio m2 = ammio m \<and> aworld m2 = aworld m"

lemma vec_save_exec: "\<exists>m2. arm_exec j vec_save (arm_take m) = Next m2 \<and> in_vector m m2"
proof -
  let ?m1 = "(arm_take m)\<lparr>asp := asp m - 272\<rparr>" and ?b = "asp m - 272"
  obtain f where f: "arm_exec j (map (\<lambda>i. Str i (8 * word_of_nat i)) [0..<31]) ?m1 = Next (?m1\<lparr>am := f\<rparr>)"
    "\<forall>i<31. f (?b + 8 * word_of_nat i) = ax m i" "\<forall>a. (\<forall>i<31. a \<noteq> ?b + 8 * word_of_nat i) \<longrightarrow> f a = am m a"
    using arm_stores[of 31 j ?m1] by (auto simp: arm_take_def)
  let ?g = "f(?b + 248 := apc m, ?b + 256 := apstate m)"
  let ?m2 = "?m1\<lparr>am := ?g, ax := (ax m)(0 := ?b)\<rparr>"
  have e: "arm_exec j vec_save (arm_take m) = Next ?m2"
    using f(1) by (simp add: vec_save_def arm_exec_append arm_take_def setx_def store_def)
  have w: "?b + 248 = ?b + 8 * word_of_nat 31" "?b + 256 = ?b + 8 * word_of_nat 32" by simp_all
  have "?g (?b + 8 * word_of_nat r) = ax m r" if "r < 31" for r
    using that f(2) by (simp add: frame_words)
  moreover have "?g a = am m a" if "\<forall>i<33. a \<noteq> ?b + 8 * word_of_nat i" for a
  proof -
    have "a \<noteq> ?b + 248" "a \<noteq> ?b + 256" using that[rule_format, of 31] that[rule_format, of 32] unfolding w by simp_all
    with that f(3) show ?thesis by auto
  qed
  moreover have "?g (?b + 248) = apc m" "?g (?b + 256) = apstate m" by simp_all
  ultimately have "in_vector m ?m2" by (simp add: in_vector_def arm_take_def)
  with e show ?thesis by blast
qed

lemma vec_restore_exec:
  "arm_exec j vec_restore m = Next (m\<lparr>ax := \<lambda>r. if r < 31 then am m (asp m + 8 * word_of_nat r) else ax m r, asp := asp m + 272,
      elr := am m (asp m + 248), spsr := am m (asp m + 256), apc := am m (asp m + 248), apstate := am m (asp m + 256)\<rparr>)"
  by (auto simp: vec_restore_def arm_exec_append arm_loads setx_def fun_eq_iff intro!: arg_cong[where f = "\<lambda>f. ax_update f _"])

text \<open>The controllers' handlers touch the kernel and the device registers only.\<close>

lemma board_handler:
  assumes "h \<in> {gic_handle ops i, intc_handle ops i}" "h m = Next m1" "aworld m2 = aworld m" "ammio m2 = ammio m"
    "interval m2 = interval m" "cntp_tval m2 = cntp_tval m"
  shows "h m2 = Next (m2\<lparr>aworld := aworld m1, ammio := ammio m1, cntp_tval := cntp_tval m1\<rparr>)"
proof -
  from assms(1) consider "h = gic_handle ops i" | "h = intc_handle ops i" by blast
  then show ?thesis
  proof cases
    case 1
    show ?thesis
    proof (cases "ai_iar i AND 0x3FF = GIC_TIMER_IRQ")
      case True
      then show ?thesis using assms(2-6) 1
        by (cases "ao_tick ops (aworld m)") (auto simp: gic_handle_def awrites_def rearm_def Let_def simp del: if_split)
    next
      case False
      then show ?thesis using assms(2-6) 1
        by (cases "ai_iar i AND 0x3FF = GIC_UART_IRQ") (auto simp: gic_handle_def awrites_def rearm_def Let_def simp del: if_split)
    qed
  next
    case 2
    define T S where "T \<longleftrightarrow> ai_source i AND CORE0_SRC_CNTPNSIRQ \<noteq> 0"
      and "S \<longleftrightarrow> ai_source i AND CORE0_SRC_GPU \<noteq> 0 \<and> ai_pending i AND uart_bit \<noteq> 0"
    have e: "h n = andthen (if T then andthen (ao_tick ops (aworld n)) (\<lambda>k. Next (rearm (n\<lparr>aworld := k\<rparr>))) (\<lambda>k. n\<lparr>aworld := k\<rparr>) else Next n)
           (\<lambda>m1. Next (if S then m1\<lparr>aworld := ao_serial ops (ai_uart i) (aworld m1)\<rparr> else m1)) id" for n
      unfolding 2 intc_handle_def T_def S_def Let_def by (rule refl)
    show ?thesis
    proof (cases T)
      case True
      then show ?thesis using assms(2) unfolding e
        apply (cases "ao_tick ops (aworld m)"; cases S)
             apply (simp_all only: if_True if_False andthen.simps flow.inject flow.distinct rearm_def assms(3-6))
        subgoal by (erule subst, rule arm.equality) (simp_all add: assms(3-6))
        subgoal by (erule subst, rule arm.equality) (simp_all add: assms(3-6))
        done
    next
      case False
      then show ?thesis using assms(2) unfolding e by (cases S) (auto simp: assms(3-6) intro!: arm.equality)
    qed
  qed
qed

lemma fatal_exec:
  "\<exists>m'. arm_exec j (vec_fatal ops i) (arm_take m) = Away m' \<and> aworld m' = ao_print ops
     (ascii ''[TRAP] unhandled aarch64 exception esr=0x'' @ hex (ai_esr i) @ ascii '' far=0x'' @ hex (ai_far i)
      @ ascii '' elr=0x'' @ hex (apc m) @ nl) (aworld m)"
proof -
  obtain m2 where "arm_exec j vec_save (arm_take m) = Next m2" and v: "in_vector m m2" using vec_save_exec by blast
  moreover have "ax m2 0 = asp m2" "am m2 (asp m2 + 248) = apc m" "aworld m2 = aworld m" using v unfolding in_vector_def by blast+
  ultimately show ?thesis by (simp add: vec_fatal_def arm_exec_append arm_compiled_def aarch64_fatal_handler_def)
qed

lemma irq_exec:
  assumes "h \<in> {gic_handle ops i, intc_handle ops i}" "h m = Next m1"
  shows "\<exists>m'. arm_exec j (vec_irq h) (arm_take m) = Next m' \<and> (\<forall>r<31. ax m' r = ax m r) \<and> asp m' = asp m \<and> apc m' = apc m
    \<and> apstate m' = apstate m \<and> tpidr m' = tpidr m \<and> aworld m' = aworld m1 \<and> ammio m' = ammio m1 \<and> cntp_tval m' = cntp_tval m1
    \<and> aq m' = (\<lambda>r. if 8 \<le> r \<and> r \<le> 15 then low_half (aq m r) (j_q j r) else j_q j r)
    \<and> (\<forall>a. a - asp m < 0x4000000000000000 \<longrightarrow> am m' a = am m a)"
proof -
  obtain m2 where m2: "arm_exec j vec_save (arm_take m) = Next m2" and v: "in_vector m m2" using vec_save_exec by blast
  let ?b = "asp m - 272"
  have b: "asp m2 = ?b" using v by (simp add: in_vector_def)
  have h: "h m2 = Next (m2\<lparr>aworld := aworld m1, ammio := ammio m1, cntp_tval := cntp_tval m1\<rparr>)"
    by (rule board_handler[OF assms]) (use v in \<open>simp_all add: in_vector_def\<close>)
  have near: "?b + d - ?b < 0x8000000000000000" if "d \<le> 0x4000000000000110" for d
    using that by (simp add: word_less_nat_alt word_le_nat_alt)
  have near8: "8 * word_of_nat r \<le> (0x4000000000000110 :: u64)" if "r < 31" for r
    using that by (simp add: word_le_nat_alt unat_word_ariths unat_of_nat take_bit_nat_def)
  have up: "am m2 a = am m a \<and> a - ?b < 0x8000000000000000" if "a - asp m < 0x4000000000000000" for a
  proof -
    have d: "a - ?b = (a - asp m) + 272" by simp
    have n: "unat (a - ?b) = unat (a - asp m) + 272" unfolding d
      by (rule unat_add_lem[THEN iffD1, THEN trans]) (use that in \<open>simp_all add: word_less_nat_alt\<close>)
    have "a \<noteq> ?b + 8 * word_of_nat k" if "k < 33" for k
    proof
      assume "a = ?b + 8 * word_of_nat k"
      then have "unat (a - ?b) = 8 * k" using that by (simp add: unat_word_ariths unat_of_nat take_bit_nat_def)
      with n that show False by simp
    qed
    then show ?thesis using v n that by (simp add: in_vector_def word_less_nat_alt)
  qed
  show ?thesis using m2 v h near[of 248] near[of 256] near[OF near8] up
    by (auto simp: vec_irq_def arm_exec_append arm_compiled_def aarch64_irq_handler_def vec_restore_exec in_vector_def)
qed

text \<open>C20: On aarch64 an interrupt taken in the kernel gives the interrupted code its 31 general registers, stack pointer,
  position, state and memory back after the board's controller has been served, but none of its vector registers: they
  hold what the compiled handler left there, except for the low halves of \<^verbatim>\<open>v8\<close> to \<^verbatim>\<open>v15\<close>.  Every other exception prints
  the syndrome and the position and stops.\<close>

theorem arm_exception_behaviour:
  assumes "h \<in> {gic_handle ops i, intc_handle ops i}" "h m = Next m1"
  shows "if src = CurrentSpx \<and> knd = Irq
    then \<exists>m'. arm_exception ops h i j src knd m = Next m' \<and> (\<forall>r<31. ax m' r = ax m r) \<and> asp m' = asp m \<and> apc m' = apc m
      \<and> apstate m' = apstate m \<and> tpidr m' = tpidr m \<and> aworld m' = aworld m1 \<and> ammio m' = ammio m1 \<and> cntp_tval m' = cntp_tval m1
      \<and> aq m' = (\<lambda>r. if 8 \<le> r \<and> r \<le> 15 then low_half (aq m r) (j_q j r) else j_q j r)
      \<and> (\<forall>a. a - asp m < 0x4000000000000000 \<longrightarrow> am m' a = am m a)
    else \<exists>m'. arm_exception ops h i j src knd m = Away m' \<and> aworld m' = ao_print ops
      (ascii ''[TRAP] unhandled aarch64 exception esr=0x'' @ hex (ai_esr i) @ ascii '' far=0x'' @ hex (ai_far i)
       @ ascii '' elr=0x'' @ hex (apc m) @ nl) (aworld m)"
proof (cases "src = CurrentSpx \<and> knd = Irq")
  case True
  then have "arm_exception ops h i j src knd m = arm_exec j (vec_irq h) (arm_take m)"
    by (simp add: arm_exception_def aarch64_vector_table_def)
  then show ?thesis using True irq_exec[OF assms] by simp
next
  case False
  then have "arm_exception ops h i j src knd m = arm_exec j (vec_fatal ops i) (arm_take m)"
    by (cases src; cases knd) (simp_all add: arm_exception_def aarch64_vector_table_def)
  then show ?thesis using fatal_exec[of j ops i m] unfolding if_not_P[OF False] by simp
qed

definition arm_kernel_ops :: "kernel arm_ops" where
  "arm_kernel_ops = \<lparr>ao_tick = tick_flow, ao_serial = serial_irq, ao_print = console_print_str\<rparr>"

definition demo_arm :: "kernel \<Rightarrow> kernel arm" where
  "demo_arm k = \<lparr>ax = word_of_nat, asp = 0x40090000, aq = (\<lambda>r. word_of_nat r), am = (\<lambda>_. 7), apc = 0x40081234, apstate = 0x5,
     elr = 0, spsr = 0, tpidr = 0, interval = 625000, cntp_tval = 3, cntp_ctl = 1, ammio = [], aworld = k\<rparr>"

definition demo_arm_junk :: arm_junk where
  "demo_arm_junk = \<lparr>j_x = (\<lambda>_. 99), j_q = (\<lambda>_. 0), j_m = (\<lambda>_. 88)\<rparr>"

definition demo_arm_input :: arm_input where
  "demo_arm_input = \<lparr>ai_iar = 33, ai_source = 0, ai_pending = 0, ai_uart = [65], ai_esr = 0, ai_far = 0\<rparr>"

theorem arm_exception_behaviour_witness:
  "\<exists>m'. arm_exception arm_kernel_ops (gic_handle arm_kernel_ops demo_arm_input) demo_arm_input demo_arm_junk CurrentSpx Irq (demo_arm trap_kernel) = Next m'
     \<and> ax m' 17 = 17 \<and> aworld m' = serial_irq [65] trap_kernel \<and> ammio m' = [(0x08010010, 33)] \<and> aq m' 3 = 0"
proof -
  let ?m1 = "awrites (gic_eoi 33) ((demo_arm trap_kernel)\<lparr>aworld := serial_irq [65] trap_kernel\<rparr>)"
  have "gic_handle arm_kernel_ops demo_arm_input (demo_arm trap_kernel) = Next ?m1"
    by (simp add: gic_handle_def gic_ids demo_arm_input_def arm_kernel_ops_def demo_arm_def)
  from arm_exception_behaviour[where h = "gic_handle arm_kernel_ops demo_arm_input" and i = demo_arm_input and ops = arm_kernel_ops and src = CurrentSpx and knd = Irq and j = demo_arm_junk, OF _ this]
  obtain m' where "arm_exception arm_kernel_ops (gic_handle arm_kernel_ops demo_arm_input) demo_arm_input demo_arm_junk CurrentSpx Irq (demo_arm trap_kernel) = Next m'"
    "\<forall>r<31. ax m' r = ax (demo_arm trap_kernel) r" "aworld m' = aworld ?m1" "ammio m' = ammio ?m1"
    "aq m' = (\<lambda>r. if 8 \<le> r \<and> r \<le> 15 then low_half (aq (demo_arm trap_kernel) r) (j_q demo_arm_junk r) else j_q demo_arm_junk r)" by auto
  then show ?thesis
    by (simp add: awrites_def gic_eoi_def gicc32_def gic_regs demo_arm_def demo_arm_junk_def)
qed

section \<open>The switch\<close>

definition arm_suspended :: "'k arm \<Rightarrow> u64 \<Rightarrow> u64" where
  "arm_suspended m = (let sp = asp m - 96; x = ax m in
     (am m)(sp := x 30, sp + 8 := x 29, sp + 16 := x 19, sp + 24 := x 20, sp + 32 := x 21, sp + 40 := x 22, sp + 48 := x 23,
       sp + 56 := x 24, sp + 64 := x 25, sp + 72 := x 26, sp + 80 := x 27, sp + 88 := x 28, x 0 := sp))"

lemma arm_switch_save:
  "arm_exec j [AddSp (- 96), Stp 30 29 0, Stp 19 20 16, Stp 21 22 32, Stp 23 24 48, Stp 25 26 64, Stp 27 28 80, MovFromSp 2, StrAt 2 0] m =
     Next (m\<lparr>am := arm_suspended m, asp := asp m - 96, ax := (ax m)(2 := asp m - 96)\<rparr>)"
  by (simp add: arm_suspended_def store_def setx_def Let_def)

lemma arm_switch_load:
  "arm_exec j [MovToSp 1, Ldp 30 29 0, Ldp 19 20 16, Ldp 21 22 32, Ldp 23 24 48, Ldp 25 26 64, Ldp 27 28 80, AddSp 96, RetLr] m =
     (let s = am m; sp = ax m 1 in
      Next (m\<lparr>asp := sp + 96, apc := s sp,
        ax := (ax m)(30 := s sp, 29 := s (sp + 8), 19 := s (sp + 16), 20 := s (sp + 24), 21 := s (sp + 32),
          22 := s (sp + 40), 23 := s (sp + 48), 24 := s (sp + 56), 25 := s (sp + 64), 26 := s (sp + 72), 27 := s (sp + 80), 28 := s (sp + 88))\<rparr>))"
  by (simp add: setx_def Let_def ac_simps)

lemma arm_context_switch_exec:
  "arm_exec j arm_context_switch m =
     (let s = arm_suspended m; sp = ax m 1 in
      Next (m\<lparr>am := s, asp := sp + 96, apc := s sp,
        ax := (ax m)(2 := asp m - 96, 30 := s sp, 29 := s (sp + 8), 19 := s (sp + 16), 20 := s (sp + 24), 21 := s (sp + 32),
          22 := s (sp + 40), 23 := s (sp + 48), 24 := s (sp + 56), 25 := s (sp + 64), 26 := s (sp + 72), 27 := s (sp + 80), 28 := s (sp + 88))\<rparr>))"
  unfolding arm_context_switch_def arm_exec_append arm_switch_save andthen.simps arm_switch_load by (simp add: Let_def)

definition frame_offsets :: "u64 list" where
  "frame_offsets = [0, 8, 16, 24, 32, 40, 48, 56, 64, 72, 80, 88]"

text \<open>A task that gave up the processor in state \<open>m\<close> and whose frame is intact when a later switch, from \<open>m1\<close>, returns to
  it, goes on behind its call with its callee-saved general registers and its stack; the vector registers, whose low halves the
  calling convention lets it expect in \<^verbatim>\<open>v8\<close> to \<^verbatim>\<open>v15\<close>, are those of the other task.\<close>

lemma arm_switch_resumes:
  assumes "ax m1 1 = asp m - 96" "list_all (\<lambda>d. arm_suspended m1 (asp m - 96 + d) = arm_suspended m (asp m - 96 + d)) frame_offsets"
    "list_all (\<lambda>d. ax m 0 \<noteq> asp m - 96 + d) frame_offsets"
  shows "\<exists>m'. arm_exec j arm_context_switch m1 = Next m' \<and> asp m' = asp m \<and> apc m' = ax m 30
    \<and> (\<forall>r. arm_saved r \<or> r = 30 \<longrightarrow> ax m' r = ax m r) \<and> aq m' = aq m1"
proof -
  note s = assms(2,3)[unfolded frame_offsets_def, simplified]
  have v: "arm_suspended m (asp m - 96) = ax m 30" "arm_suspended m (asp m - 88) = ax m 29" "arm_suspended m (asp m - 80) = ax m 19"
    "arm_suspended m (asp m - 72) = ax m 20" "arm_suspended m (asp m - 64) = ax m 21" "arm_suspended m (asp m - 56) = ax m 22"
    "arm_suspended m (asp m - 48) = ax m 23" "arm_suspended m (asp m - 40) = ax m 24" "arm_suspended m (asp m - 32) = ax m 25"
    "arm_suspended m (asp m - 24) = ax m 26" "arm_suspended m (asp m - 16) = ax m 27" "arm_suspended m (asp m - 8) = ax m 28"
    using s(2) by (auto simp: arm_suspended_def Let_def)
  have "r \<in> {19, 20, 21, 22, 23, 24, 25, 26, 27, 28, 29}" if "arm_saved r" for r
    using that unfolding arm_saved_def by (simp, arith)
  then show ?thesis using s(1) v unfolding arm_context_switch_exec Let_def assms(1) by (auto simp: arm_saved_def[of 2])
qed

end
