(* ===== verification/Spec2Isabelle.thy ===== *)
theory Spec2Isabelle
  imports Interrupts Net BootMaps Shell Console Descriptors Arm64
begin

text \<open>
  Verification of the Ferrugem kernel (\<^verbatim>\<open>src/kernel\<close>): the x86_64 build, and of the other two targets the
  code that differs (paging, traps and context switch of riscv64, exceptions and context switch of aarch64).

  \<^bold>\<open>The program.\<close>  Ferrugem is a small monolithic kernel.  At boot \<^verbatim>\<open>memory::init\<close> turns the
  boot loader's memory map into a bitmap of physical frames and a slab heap, \<^verbatim>\<open>fs::init\<close> builds a
  file system in memory and \<^verbatim>\<open>scheduler::init\<close> installs the idle task.  From then on the kernel is
  driven by events: system calls of the running task, timer ticks, serial and keyboard interrupts
  and page faults.  A table of 64 tasks is scheduled round robin; tasks have a four-level page
  table, a descriptor table whose entries refer to inodes and to reference-counted pipes, and a
  word of pending signals.

  \<^bold>\<open>The theories\<close>, in the order of the calls:
  \<^item> \<open>Prelude\<close>: the integer types, byte strings and their encodings, checked list updates, the locale
    \<open>bounded_fifo\<close> and the fact collections shared by the components.
  \<^item> \<open>RingBuf\<close> (\<^verbatim>\<open>drivers/ring_buf.rs\<close>, \<^verbatim>\<open>drivers/serial/src/common.rs\<close>) and \<open>Ipc\<close>
    (\<^verbatim>\<open>ipc/mod.rs\<close>): the two circular buffers, both interpreted as a \<open>bounded_fifo\<close>; the pool of
    pipes with its reader and writer counters.
  \<^item> \<open>MemMap\<close>, \<open>Bitmap\<close>, \<open>Memory\<close> (\<^verbatim>\<open>memory/\<close>): the memory map, the frame allocator as a refinement of
    first fit, the page and slab allocators with the free lists threaded through memory.
  \<^item> \<open>RamFs\<close>, \<open>Fs\<close> (\<^verbatim>\<open>vfs/\<close>, \<^verbatim>\<open>fs/\<close>): the inode table; the locale \<open>file_system\<close> states what the callers
    rely on (an invariant that every call keeps, refused calls without effect).
  \<^item> \<open>Process\<close> (\<^verbatim>\<open>process/mod.rs\<close>): descriptor tables, tasks, signals; the locale \<open>handle_counts\<close> is the
    contract between descriptors and the counters of the pool.
  \<^item> \<open>PageTree\<close>, \<open>PageClone\<close>: page tables of any number of levels as words of physical memory, with the processor's walk
    as their meaning; the locales \<open>page_format\<close> and \<open>page_clone\<close> say what an encoding of entries has to provide for
    mapping and cloning to be correct.  \<open>Paging\<close> (\<^verbatim>\<open>arch/x86_64/paging.rs\<close>) and \<open>Sv39\<close> (\<^verbatim>\<open>arch/riscv64/paging.rs\<close>) interpret
    them.  \<open>Elf\<close> (\<^verbatim>\<open>elf/mod.rs\<close>): the program loader.
  \<^item> \<open>KernelState\<close>, \<open>Scheduler\<close> (\<^verbatim>\<open>scheduler/mod.rs\<close>, \<^verbatim>\<open>arch/x86_64/context.rs\<close>): the record of the
    kernel's statics, user memory seen through the running task's page table, initial stacks,
    and one definition per function of the scheduler.
  \<^item> \<open>Syscall\<close> (\<^verbatim>\<open>syscall/mod.rs\<close>): one definition per handler and the dispatcher.
  \<^item> \<open>Machine\<close>, \<open>Traps\<close> (\<^verbatim>\<open>arch/x86_64/idt.rs\<close>, \<^verbatim>\<open>context.rs\<close>): a small x86_64 machine, the entry stubs and the
    context switch as its programs, and the handlers they call.  \<open>Descriptors\<close> (\<^verbatim>\<open>gdt.rs\<close>, \<^verbatim>\<open>idt.rs\<close>): the
    descriptor tables next to what the processor reads from them.
  \<^item> \<open>RvTraps\<close> (\<^verbatim>\<open>arch/riscv64/trap.rs\<close>, \<^verbatim>\<open>context.rs\<close>, \<^verbatim>\<open>boards/qemu_virt_riscv64/plic.rs\<close>, \<^verbatim>\<open>sbi.rs\<close>): the same for a RISC-V hart.
    \<open>Arm64\<close> (\<^verbatim>\<open>arch/aarch64/exceptions.rs\<close>, \<^verbatim>\<open>context.rs\<close>, \<^verbatim>\<open>boards/qemu_virt_aarch64/gic.rs\<close>, \<^verbatim>\<open>boards/raspberrypi3/intc.rs\<close>,
    \<^verbatim>\<open>drivers/timer/src/generic_timer.rs\<close>): the same for an ARM processor at exception level 1.
  \<^item> \<open>Console\<close>, \<open>Pic\<close> (\<^verbatim>\<open>boards/qemu_pc/console.rs\<close>, \<^verbatim>\<open>pic.rs\<close>): the text screen as a window on a page of
    lines, the pair of interrupt controllers and their programming.  \<open>Interrupts\<close>: the handlers of \<^verbatim>\<open>idt.rs\<close> and the
    scheduler behind the controllers.
  \<^item> \<open>BootMaps\<close> (\<^verbatim>\<open>boards/qemu_pc/multiboot.rs\<close>, \<^verbatim>\<open>boards/qemu_virt_riscv64/fdt.rs\<close>): the parsers that turn
    the boot loader's tables in memory into the memory map.
  \<^item> \<open>ShellLine\<close>, \<open>Shell\<close> (\<^verbatim>\<open>shell/\<close>): the line editor with its history, the user table and the number
    formats; every command as a function on the kernel state.
  \<^item> \<open>Net\<close> (\<^verbatim>\<open>net/\<close>): parsers and builders of packet headers; the locale \<open>codec\<close> states what the two
    sides of a layer promise each other and \<open>codec_pair\<close> stacks layers.
  \<^item> \<open>SchedulerInv\<close>, \<open>SyscallInv\<close>, \<open>Refs\<close>, \<open>KernelProps\<close>: the invariant of the whole system and its
    preservation by every function, the step relation \<open>kstep\<close> and the reachable states, the
    accounting of pipe references, and the properties that span components.

  \<^bold>\<open>Modelling decisions.\<close>  A panic is the result \<open>None\<close>.  Each \<^verbatim>\<open>static mut\<close> is a field of the record
  \<open>kernel\<close> (the allocators' are fields of \<open>mem\<close>); since handlers run with interrupts masked or
  are the only user of their data, an event is one step.  Physical memory is a store of
  64-bit words at aligned addresses; bytes are read and written inside their word.  User memory is reached through the page table of the running task: a read
  of an unmapped address gives 0 and a write there is dropped, where the machine would take a page
  fault in kernel mode and halt.  Functions that block in a loop are modelled by one pass of the
  loop, whose result says whether the loop is left (\<open>Done\<close>) or entered again when the task is next
  resumed (\<open>Again\<close>, \<open>Retry\<close>); \<open>context_switch\<close> exchanges stack pointers, and the local variable of
  the suspended \<^verbatim>\<open>schedule\<close> frame that is used after the switch is the field \<open>saved_next\<close>.  What is
  not in the sources (entropy, the time stamp, the embedded programs, symbols of the linker script)
  is an argument.

  \<^bold>\<open>Bounds.\<close>  Loops over arrays are recursions or folds over the array's indices and need no fuel.
  \<open>inode_path\<close> walks at most 16 levels, as the code does; the page-table walk recurses on the
  list of indices and the clone on the level.
  The walk over a device tree is not bounded by the code: it is a partial function, and shown to
  return on every tree laid out in memory.  Integers that can wrap are words; addresses and lengths are naturals with the wrap-around or
  the overflow check written out where the code has one.

  \<^bold>\<open>What is shown.\<close>  Memory safety of the allocators (a block handed out was free and is removed from
  the free memory, freeing restores it), page-table mapping, creation and cloning against the processor's walk
  (on x86_64 and riscv64: the other translations, the kernel's part and the parent's memory are unchanged), queue
  behaviour of pipes and input buffers, round trips through the file system, scheduling fairness,
  signal delivery, waiting for children, exactness of the pipe counters under fork, exit, close
  and pipe, and an invariant of every reachable state; the memory map found in a device tree or a
  Multiboot table, and that only memory it reports as usable is handed out; the line editor as a
  refinement of an editor over plain text; that no shell command changes a file its user has no
  right to; that a system call, an interrupt and a context switch give the program back its registers on
  each target that has them (with the exceptions found below), that on x86_64 a forked child starts with its parent's registers, what
  the screen shows and which interrupts are delivered; packet round trips through stacked layers and the checksums of built packets.  Some theorems show where the code departs
  from its intent: \<^verbatim>\<open>dup\<close> takes no pipe reference, \<^verbatim>\<open>O_TRUNC\<close> has no effect, \<^verbatim>\<open>getdents64\<close> can repeat
  entries, a resumed task gets a foreign FS base or panics, a second blocked reader is forgotten, a
  failed \<^verbatim>\<open>socketpair\<close> leaks a pipe, the fallback memory map does not reserve the kernel, a page fault
  loses three registers of the program, tasks that wait in system calls share one user stack pointer, a tick that
  switches tasks holds back all interrupts, an interrupt on aarch64 does not keep the vector registers, and on riscv64
  a forked child does not get its parent's registers and a page that is writable but not readable always faults.

  \<^bold>\<open>Not modelled.\<close>  The instructions that load descriptor tables, vector bases and model-specific registers, device
  registers of serial ports and of the PC's timer, the static page table, the boot code and the early console of
  aarch64, vector and floating-point registers other than those of aarch64, the TLB, the embedded user programs.
\<close>

end
